(* ===== verification/Prelude.thy ===== *)
theory Prelude
  imports Main "HOL-Library.Word" "HOL-Library.Monad_Syntax" "HOL-Library.Multiset"
begin

section \<open>Shared vocabulary of the ProxySQL model\<close>

text \<open>
  This theory holds what every component shares: machine bytes and C strings, the two
  memory accesses the C code performs on a heap buffer (a bounded read and a bounded
  write, both \<open>None\<close> when they leave the buffer), little-endian integers, the fault type of
  the functions that can crash, and the list and word lemmas the component proofs use.

  The collections: \<open>mem_simps\<close> for buffer reads and writes, \<open>le_simps\<close> for little-endian
  encodings, \<open>res_simps\<close> for the result monad.
\<close>

named_theorems mem_simps "reads and writes of buffers"
named_theorems le_simps "little-endian integers"
named_theorems res_simps "the result type of functions that can crash"

subsection \<open>Bytes and C strings\<close>

type_synonym byte = "8 word"

text \<open>A C string without its terminating zero.\<close>

type_synonym cstr = "byte list"

definition str :: "string \<Rightarrow> cstr" where
  "str s = map of_char s"

text \<open>The C string that starts a byte sequence: the bytes before the first zero.\<close>

definition c_string :: "byte list \<Rightarrow> cstr" where
  "c_string bs = takeWhile (\<lambda>b. b \<noteq> 0) bs"

definition c_strlen :: "byte list \<Rightarrow> nat" where
  "c_strlen bs = length (c_string bs)"

lemma c_strlen_le: "c_strlen bs \<le> length bs"
  by (simp add: c_strlen_def c_string_def length_takeWhile_le)

lemma c_string_append_zero [simp]:
  "0 \<notin> set s \<Longrightarrow> c_string (s @ 0 # rest) = s"
  by (induction s) (auto simp: c_string_def)

lemma c_string_nonzero: "0 \<notin> set (c_string bs)"
  by (auto simp: c_string_def dest: set_takeWhileD)

lemma length_str [simp]: "length (str s) = length s"
  by (simp add: str_def)

subsection \<open>Buffers\<close>

text \<open>
  \<open>mem_write buf off bs\<close> is \<open>memcpy(buf + off, bs, length bs)\<close> into an allocated buffer and
  \<open>mem_read buf off n\<close> is a read of \<open>n\<close> bytes at \<open>off\<close>. An access outside the buffer is
  undefined in C and \<open>None\<close> here.
\<close>

definition mem_write :: "'a list \<Rightarrow> nat \<Rightarrow> 'a list \<Rightarrow> 'a list option" where
  "mem_write buf off bs =
     (if off + length bs \<le> length buf
      then Some (take off buf @ bs @ drop (off + length bs) buf) else None)"

definition mem_read :: "'a list \<Rightarrow> nat \<Rightarrow> nat \<Rightarrow> 'a list option" where
  "mem_read buf off n = (if off + n \<le> length buf then Some (take n (drop off buf)) else None)"

text \<open>Fresh memory of \<open>malloc\<close> or \<open>l_alloc\<close>: its contents are the parameter \<open>junk\<close>.\<close>

definition fresh :: "(nat \<Rightarrow> 'a) \<Rightarrow> nat \<Rightarrow> 'a list" where
  "fresh junk n = map junk [0..<n]"

lemma length_fresh [simp]: "length (fresh junk n) = n"
  by (simp add: fresh_def)

lemma mem_write_length [mem_simps]: "mem_write buf off bs = Some buf' \<Longrightarrow> length buf' = length buf"
  by (auto simp: mem_write_def split: if_splits)

lemma mem_write_Some [mem_simps]:
  "off + length bs \<le> length buf \<Longrightarrow>
   mem_write buf off bs = Some (take off buf @ bs @ drop (off + length bs) buf)"
  by (simp add: mem_write_def)

text \<open>Writing right behind a prefix that is already in place extends the prefix.\<close>

lemma mem_write_extend [mem_simps]:
  assumes "off = length xs" and "length bs \<le> length ys"
  shows "mem_write (xs @ ys) off bs = Some ((xs @ bs) @ drop (length bs) ys)"
  using assms by (simp add: mem_write_def)

lemma mem_write_start [mem_simps]:
  "length bs \<le> length ys \<Longrightarrow> mem_write ys 0 bs = Some (bs @ drop (length bs) ys)"
  by (simp add: mem_write_def)

lemma mem_read_prefix [mem_simps]:
  "off = length xs \<Longrightarrow> n = length bs \<Longrightarrow> mem_read (xs @ bs @ ys) off n = Some bs"
  by (simp add: mem_read_def)

lemma mem_read_length: "mem_read buf off n = Some bs \<Longrightarrow> length bs = n"
  by (auto simp: mem_read_def split: if_splits)

subsection \<open>Little-endian integers\<close>

text \<open>
  The bytes of an unsigned integer of \<open>n\<close> bytes as \<open>memcpy\<close> sees them on the little-endian
  machines the program runs on, and the integer back.
\<close>

fun le_bytes :: "nat \<Rightarrow> nat \<Rightarrow> byte list" where
  "le_bytes 0 v = []"
| "le_bytes (Suc n) v = of_nat (v mod 256) # le_bytes n (v div 256)"

fun le_nat :: "byte list \<Rightarrow> nat" where
  "le_nat [] = 0"
| "le_nat (b # bs) = unat b + 256 * le_nat bs"

lemma length_le_bytes [simp, le_simps]: "length (le_bytes n v) = n"
  by (induction n arbitrary: v) auto

lemma unat_byte_mod [simp]: "unat (of_nat (v mod 256) :: byte) = v mod 256"
  by (simp add: unat_of_nat)

lemma le_nat_bytes [le_simps]: "le_nat (le_bytes n v) = v mod 256 ^ n"
proof (induction n arbitrary: v)
  case (Suc n)
  have "v mod 256 ^ Suc n = v mod 256 + 256 * (v div 256 mod 256 ^ n)"
    by (simp add: mod_mult2_eq)
  with Suc show ?case by simp
qed simp

lemma le_nat_bytes_id: "v < 256 ^ n \<Longrightarrow> le_nat (le_bytes n v) = v"
  by (simp add: le_nat_bytes)

lemma unat_byte_lt [simp]: "unat (b :: byte) < 256"
proof -
  have "unsigned b < (2 :: nat) ^ LENGTH(8)" by (rule unsigned_less)
  then show ?thesis by simp
qed

lemma le_nat_bound: "le_nat bs < 256 ^ length bs"
proof (induction bs)
  case (Cons b bs)
  have "unat b < 256" by (rule unat_byte_lt)
  moreover have "256 ^ length (b # bs) = 256 * (256 ^ length bs :: nat)" by simp
  ultimately show ?case using Cons unfolding le_nat.simps by linarith
qed simp

lemma le_bytes_nat [le_simps]: "le_bytes (length bs) (le_nat bs) = bs"
proof (induction bs)
  case (Cons b bs)
  have b: "unat b < 256" by simp
  then have "(unat b + 256 * le_nat bs) mod 256 = unat b"
    and "(unat b + 256 * le_nat bs) div 256 = le_nat bs"
    by simp_all
  with Cons show ?case by simp
qed simp

lemma le_nat_append: "le_nat (xs @ ys) = le_nat xs + 256 ^ length xs * le_nat ys"
  by (induction xs) (simp_all add: algebra_simps)

subsection \<open>Functions that can crash\<close>

text \<open>
  A function of the model that can crash returns \<open>Inl\<close> with the reason: a null dereference,
  an access outside an allocated object, the use of freed memory, a failed \<open>assert\<close>.
\<close>

datatype fault = NullDeref | OutOfBounds | UseAfterFree | AssertFailed

type_synonym 'a res = "fault + 'a"

definition rbind :: "'a res \<Rightarrow> ('a \<Rightarrow> 'b res) \<Rightarrow> 'b res" where
  "rbind m f = (case m of Inl e \<Rightarrow> Inl e | Inr x \<Rightarrow> f x)"

lemma rbind_simps [simp, res_simps]:
  "rbind (Inl e) f = Inl e" "rbind (Inr x) f = f x"
  by (simp_all add: rbind_def)

lemma rbind_Inr_iff [res_simps]: "rbind m f = Inr y \<longleftrightarrow> (\<exists>x. m = Inr x \<and> f x = Inr y)"
  by (cases m) auto

text \<open>A null check: dereferencing a pointer that may be \<open>NULL\<close>.\<close>

definition deref :: "'a option \<Rightarrow> 'a res" where
  "deref p = (case p of None \<Rightarrow> Inl NullDeref | Some x \<Rightarrow> Inr x)"

lemma deref_simps [simp, res_simps]: "deref None = Inl NullDeref" "deref (Some x) = Inr x"
  by (simp_all add: deref_def)

definition c_assert :: "bool \<Rightarrow> unit res" where
  "c_assert b = (if b then Inr () else Inl AssertFailed)"

lemma c_assert_simps [simp, res_simps]: "c_assert True = Inr ()" "c_assert False = Inl AssertFailed"
  by (simp_all add: c_assert_def)

subsection \<open>Lists\<close>

lemma take_update_ge [simp]: "n \<le> i \<Longrightarrow> take n (xs[i := x]) = take n xs"
  by (simp add: nth_equalityI)

lemma sum_list_update_nat:
  fixes xs :: "nat list"
  assumes "i < length xs"
  shows "sum_list (xs[i := v]) + xs ! i = sum_list xs + v"
  using assms
proof (induction xs arbitrary: i)
  case (Cons y ys)
  then show ?case by (cases i) (auto simp: algebra_simps)
qed simp

text \<open>\<open>g_ptr_array_remove_index_fast\<close>: the last element takes the place of the removed one.\<close>

definition remove_index_fast :: "nat \<Rightarrow> 'a list \<Rightarrow> 'a list" where
  "remove_index_fast i xs = (if i = length xs - 1 then butlast xs else butlast (xs[i := last xs]))"

lemma remove_index_fast_length [simp]:
  "length (remove_index_fast i xs) = length xs - 1"
  by (simp add: remove_index_fast_def)

lemma remove_index_fast_last:
  "remove_index_fast (length xs) (xs @ [x]) = xs"
  by (simp add: remove_index_fast_def)

lemma remove_index_fast_snoc:
  "i < length xs \<Longrightarrow> remove_index_fast i (xs @ [x]) = xs[i := x]"
  by (simp add: remove_index_fast_def list_update_append)

lemma remove_index_fast_cases:
  assumes "i < length xs"
  obtains (last) ys where "xs = ys @ [xs ! i]" and "remove_index_fast i xs = ys"
  | (inner) ys x where "xs = ys @ [x]" and "i < length ys" and "remove_index_fast i xs = ys[i := x]"
proof (cases xs rule: rev_cases)
  case Nil
  with assms show ?thesis by simp
next
  case (snoc ys x)
  show ?thesis
  proof (cases "i = length ys")
    case True
    with snoc show ?thesis by (intro last [of ys]) (simp_all add: remove_index_fast_last)
  next
    case False
    with snoc assms show ?thesis by (intro inner [of ys x]) (simp_all add: remove_index_fast_snoc)
  qed
qed

lemma remove_index_fast_distinct:
  assumes "distinct xs" and "i < length xs"
  shows "set (remove_index_fast i xs) = set xs - {xs ! i} \<and> distinct (remove_index_fast i xs)"
  using assms(2)
proof (cases rule: remove_index_fast_cases)
  case (last ys)
  with assms(1) show ?thesis
    by (metis Diff_insert_absorb distinct_append not_distinct_conv_prefix rotate1.simps(2) set_rotate1
        distinct1_rotate list.simps(15) distinct.simps(2))
next
  case (inner ys x)
  with assms(1) show ?thesis
    by (auto simp: nth_append distinct_list_update set_update_distinct)
qed

lemma mset_remove_index_fast:
  assumes "i < length xs"
  shows "mset xs = add_mset (xs ! i) (mset (remove_index_fast i xs))"
  using assms
proof (cases rule: remove_index_fast_cases)
  case (last ys)
  then show ?thesis by (metis mset.simps(2) mset_append add_mset_add_single mset.simps(1))
next
  case (inner ys x)
  then have "mset (ys[i := x]) = add_mset x (mset ys - {# ys ! i #})" by (simp add: mset_update)
  moreover have "ys ! i \<in># mset ys" using inner(2) by simp
  ultimately show ?thesis using inner by (simp add: nth_append)
qed

lemma length_takeWhile_lt:
  "p \<in> set xs \<Longrightarrow> length (takeWhile (\<lambda>x. x \<noteq> p) xs) < length xs"
  by (induction xs) auto

lemma exI3: "P a b c \<Longrightarrow> \<exists>x y z. P x y z"
  by blast

subsection \<open>Signed and unsigned bytes\<close>

lemma sint_byte_bounds: "- 128 \<le> sint (b :: byte)" "sint (b :: byte) < 128"
  using sint_greater_eq [of b] sint_less [of b] by simp_all

lemma ucast_of_nat_byte: "ucast (of_nat n :: 64 word) = (of_nat n :: byte)"
  by (rule bit_word_eqI) (simp add: bit_simps)

lemma le_nat_first: "bs \<noteq> [] \<Longrightarrow> (of_nat (le_nat bs) :: byte) = hd bs"
proof (cases bs)
  case (Cons b rest)
  have "(256 :: byte) = 0" by simp
  then have "(256 :: byte) * of_nat (le_nat rest) = 0" by (metis mult_zero_left)
  with Cons show ?thesis by simp
qed simp

lemma uint_sint_byte: "uint (b :: byte) = sint b mod 256"
  by (simp add: uint_sint take_bit_eq_mod)

lemma unat_scast_byte: "unat (scast (b :: byte) :: 64 word) = nat (sint b mod 2 ^ 64)"
proof -
  have "uint (scast b :: 64 word) = sint b mod 2 ^ 64"
    by (simp only: scast_eq uint_word_of_int) simp
  then have "nat (uint (scast b :: 64 word)) = nat (sint b mod 2 ^ 64)" by (simp only:)
  then show ?thesis by (simp only: nat_uint_eq)
qed

lemma mod_shift: "- m \<le> k \<Longrightarrow> k < 0 \<Longrightarrow> k mod m = k + m" for k m :: int
  using mod_pos_pos_trivial [of "k + m" m] by simp

lemma unat_scast_byte_cases:
  "unat (b :: byte) < 128 \<Longrightarrow> unat (scast b :: 64 word) = unat b"
  "\<not> unat (b :: byte) < 128 \<Longrightarrow> 16777216 \<le> unat (scast b :: 64 word)"
proof -
  note bd = sint_byte_bounds [of b]
  have pos: "unat b = nat (sint b)" if "0 \<le> sint b"
  proof -
    have "uint b = sint b"
      using that bd mod_pos_pos_trivial [of "sint b" 256] by (simp add: uint_sint_byte)
    then have "nat (uint b) = nat (sint b)" by (simp only:)
    then show ?thesis by (simp only: nat_uint_eq)
  qed
  have neg: "int (unat b) = sint b + 256" if "sint b < 0"
    using that bd mod_shift [of 256 "sint b"] by (simp only: uint_nat [symmetric] uint_sint_byte)
  show "unat (scast b :: 64 word) = unat b" if "unat b < 128"
  proof -
    have "0 \<le> sint b" using neg that bd by linarith
    moreover from this have "sint b mod 2 ^ 64 = sint b" using bd by (intro mod_pos_pos_trivial) simp_all
    ultimately show ?thesis using pos by (simp only: unat_scast_byte)
  qed
  show "16777216 \<le> unat (scast b :: 64 word)" if "\<not> unat b < 128"
  proof -
    have "sint b < 0" using pos that bd by (cases "0 \<le> sint b") simp_all
    moreover from this have "sint b mod 2 ^ 64 = sint b + 2 ^ 64" using bd by (intro mod_shift) simp_all
    ultimately show ?thesis using bd by (simp only: unat_scast_byte) (simp add: le_nat_iff)
  qed
qed
end
