(* ===== verification/LPtrArray.thy ===== *)
theory LPtrArray
  imports Prelude
begin

section \<open>Growable pointer arrays\<close>

text \<open>
  The \<^verbatim>\<open>LPtrArray\<close> of \<^verbatim>\<open>src/l_utils.c\<close>: a block of cells, the number of used cells and the
  number of allocated cells. Every packet queue and every session table of the proxy is one.
  The cells behind \<open>la_len\<close> are not initialised, so fresh memory is the parameter \<open>junk\<close>.

  The locale \<open>ptr_array\<close> is the interface the other components rely on: a sequence with
  append, removal that keeps the order, and removal that moves the last element.
  Its interpretation at the end shows that the C code implements it, which is why the other
  theories model these arrays as lists.
\<close>

subsection \<open>Rounding up to a power of two\<close>

text \<open>
  \<^verbatim>\<open>l_near_pow_2\<close> doubles an unsigned \<open>i\<close> until it reaches \<open>n\<close>. The comparison converts the
  \<^verbatim>\<open>int\<close> argument to unsigned, so it is a 32-bit word here. Above \<open>2 ^ 31\<close> the doubling wraps
  to zero and the loop never ends: the loop is a partial function.
\<close>

partial_function (option) l_near_pow_2_loop :: "32 word \<Rightarrow> 32 word \<Rightarrow> 32 word option" where
  "l_near_pow_2_loop n i = (if i < n then l_near_pow_2_loop n (push_bit 1 i) else Some i)"

definition l_near_pow_2 :: "32 word \<Rightarrow> 32 word option" where
  "l_near_pow_2 n =
     (case l_near_pow_2_loop n 1 of None \<Rightarrow> None | Some i \<Rightarrow> Some (if i \<noteq> 0 then i else n))"

lemma unat_pow_2: "k < 32 \<Longrightarrow> unat (2 ^ k :: 32 word) = 2 ^ k"
proof -
  assume k: "k < 32"
  then have "(2 :: nat) ^ k < 2 ^ 32" by (rule power_strict_increasing) simp
  moreover have "unat (of_nat (2 ^ k) :: 32 word) = 2 ^ k mod 2 ^ 32"
    by (simp only: unat_of_nat) simp
  ultimately show ?thesis by simp
qed

lemma push_bit_pow_2: "push_bit 1 (2 ^ k :: 32 word) = 2 ^ Suc k"
  by (simp add: push_bit_eq_mult)

text \<open>Below \<open>2 ^ 31\<close> the loop stops at the first power of two that is not below \<open>n\<close>.\<close>

lemma l_near_pow_2_loop_Some:
  assumes "unat n \<le> 2 ^ 31" and "k \<le> 31" and "k = 0 \<or> 2 ^ (k - 1) < unat n"
  shows "\<exists>m \<le> 31. l_near_pow_2_loop n (2 ^ k) = Some (2 ^ m) \<and> unat n \<le> 2 ^ m
           \<and> (m = 0 \<or> 2 ^ (m - 1) < unat n)"
  using assms(2,3)
proof (induction "31 - k" arbitrary: k)
  case 0
  then have k: "k = 31" by simp
  with assms(1) have "\<not> (2 ^ k :: 32 word) < n"
    by (simp add: word_less_nat_alt)
  then have "l_near_pow_2_loop n (2 ^ k) = Some (2 ^ k)"
    by (subst l_near_pow_2_loop.simps) simp
  with k 0 assms(1) show ?case by (intro exI [of _ 31]) simp
next
  case (Suc d)
  then have k: "k < 31" by simp
  show ?case
  proof (cases "(2 ^ k :: 32 word) < n")
    case True
    then have lt: "2 ^ k < unat n"
      using k by (simp add: word_less_nat_alt unat_pow_2)
    have "\<exists>m \<le> 31. l_near_pow_2_loop n (2 ^ Suc k) = Some (2 ^ m) \<and> unat n \<le> 2 ^ m
            \<and> (m = 0 \<or> 2 ^ (m - 1) < unat n)"
      using Suc lt k by (intro Suc.hyps(1)) auto
    with True show ?thesis
      by (subst l_near_pow_2_loop.simps) (simp add: push_bit_eq_mult mult.commute)
  next
    case False
    then have "unat n \<le> 2 ^ k"
      using k by (simp add: word_less_nat_alt unat_pow_2)
    moreover have "l_near_pow_2_loop n (2 ^ k) = Some (2 ^ k)"
      using False by (subst l_near_pow_2_loop.simps) simp
    ultimately show ?thesis using Suc.prems k by (intro exI [of _ k]) auto
  qed
qed

text \<open>Whatever the loop returns is a power of two or zero, and is not below \<open>n\<close>.\<close>

lemma l_near_pow_2_loop_result:
  assumes "l_near_pow_2_loop n i = Some r" and "i = 0 \<or> (\<exists>k < 32. i = 2 ^ k)"
  shows "n \<le> r \<and> (r = 0 \<or> (\<exists>k < 32. r = 2 ^ k))"
proof -
  have "(i = 0 \<or> (\<exists>k < 32. i = 2 ^ k)) \<longrightarrow> n \<le> r \<and> (r = 0 \<or> (\<exists>k < 32. r = 2 ^ k))"
  proof (rule l_near_pow_2_loop.raw_induct
      [where P = "\<lambda>n i r. (i = 0 \<or> (\<exists>k < 32. i = 2 ^ k)) \<longrightarrow>
                    n \<le> r \<and> (r = 0 \<or> (\<exists>k < 32. r = 2 ^ k))", OF _ assms(1)])
    fix f and n i r :: "32 word"
    assume IH: "\<And>n i r. f n i = Some r \<Longrightarrow> (i = 0 \<or> (\<exists>k < 32. i = 2 ^ k)) \<longrightarrow>
                  n \<le> r \<and> (r = 0 \<or> (\<exists>k < 32. r = 2 ^ k))"
      and eq: "(if i < n then f n (push_bit 1 i) else Some i) = Some r"
    show "(i = 0 \<or> (\<exists>k < 32. i = 2 ^ k)) \<longrightarrow> n \<le> r \<and> (r = 0 \<or> (\<exists>k < 32. r = 2 ^ k))"
    proof (intro impI)
      assume i: "i = 0 \<or> (\<exists>k < 32. i = 2 ^ k)"
      show "n \<le> r \<and> (r = 0 \<or> (\<exists>k < 32. r = 2 ^ k))"
      proof (cases "i < n")
        case True
        have "push_bit 1 i = 0 \<or> (\<exists>k < 32. push_bit 1 i = 2 ^ k)"
          using i
        proof
          assume "\<exists>k < 32. i = 2 ^ k"
          then obtain k where "k < 32" and ik: "i = 2 ^ k" by auto
          then have "Suc k < 32 \<or> Suc k = 32" by auto
          then show ?thesis
            using ik by (auto simp: push_bit_pow_2 intro: exI [of _ "Suc k"])
        qed simp
        with True eq IH [of n "push_bit 1 i" r] show ?thesis by auto
      next
        case False
        with eq i show ?thesis by auto
      qed
    qed
  qed
  with assms(2) show ?thesis by blast
qed

subsection \<open>The array\<close>

record 'a LPtrArray =
  la_pdata :: "'a list option" \<comment> \<open>\<open>NULL\<close> before the first element\<close>
  la_len :: nat
  la_size :: nat

definition l_ptr_array_expand ::
    "(nat \<Rightarrow> 'a) \<Rightarrow> 'a LPtrArray \<Rightarrow> nat \<Rightarrow> 'a LPtrArray option" where
  "l_ptr_array_expand junk array extra =
     (if la_len array + extra > la_size array
      then do {
        new_size \<leftarrow> l_near_pow_2 (of_nat (la_len array + extra));
        new_pdata \<leftarrow>
          (case la_pdata array of
             None \<Rightarrow> Some (fresh junk (unat new_size))
           | Some pd \<Rightarrow> mem_write (fresh junk (unat new_size)) 0 (take (la_size array) pd));
        Some (array\<lparr>la_size := unat new_size, la_pdata := Some new_pdata\<rparr>)
      }
      else Some array)"

definition l_ptr_array_sized_new :: "(nat \<Rightarrow> 'a) \<Rightarrow> nat \<Rightarrow> 'a LPtrArray option" where
  "l_ptr_array_sized_new junk n =
     (let array = \<lparr>la_pdata = None, la_len = 0, la_size = 0\<rparr>
      in if n \<noteq> 0 then l_ptr_array_expand junk array n else Some array)"

definition l_ptr_array_new :: "(nat \<Rightarrow> 'a) \<Rightarrow> 'a LPtrArray option" where
  "l_ptr_array_new junk = l_ptr_array_sized_new junk 0"

definition l_ptr_array_add ::
    "(nat \<Rightarrow> 'a) \<Rightarrow> 'a LPtrArray \<Rightarrow> 'a \<Rightarrow> 'a LPtrArray option" where
  "l_ptr_array_add junk array p = do {
     array \<leftarrow> (if la_len array = la_size array then l_ptr_array_expand junk array 1 else Some array);
     pd \<leftarrow> la_pdata array;
     pd \<leftarrow> mem_write pd (la_len array) [p];
     Some (array\<lparr>la_pdata := Some pd, la_len := la_len array + 1\<rparr>)
   }"

text \<open>The loop of \<^verbatim>\<open>l_ptr_array_remove_index\<close> that moves every later cell down by one.\<close>

function shift_cells :: "'a list \<Rightarrow> nat \<Rightarrow> nat \<Rightarrow> 'a list" where
  "shift_cells pd j n = (if j < n - 1 then shift_cells (pd[j := pd ! (j + 1)]) (j + 1) n else pd)"
  by pat_completeness auto
termination
  by (relation "measure (\<lambda>(pd, j, n). n - j)") auto

declare shift_cells.simps [simp del]

definition l_ptr_array_remove_index :: "'a LPtrArray \<Rightarrow> nat \<Rightarrow> ('a \<times> 'a LPtrArray) option" where
  "l_ptr_array_remove_index array i = do {
     pd \<leftarrow> la_pdata array;
     r \<leftarrow> (if i < la_len array \<and> i < length pd then Some (pd ! i) else None);
     Some (r, array\<lparr>la_pdata := Some (if i \<noteq> la_len array - 1 then shift_cells pd i (la_len array) else pd),
                    la_len := la_len array - 1\<rparr>)
   }"

definition l_ptr_array_remove_index_fast ::
    "'a LPtrArray \<Rightarrow> nat \<Rightarrow> ('a \<times> 'a LPtrArray) option" where
  "l_ptr_array_remove_index_fast array i = do {
     pd \<leftarrow> la_pdata array;
     r \<leftarrow> (if i < la_len array \<and> i < length pd then Some (pd ! i) else None);
     Some (r, array\<lparr>la_pdata := Some (if i \<noteq> la_len array - 1 then pd[i := pd ! (la_len array - 1)] else pd),
                    la_len := la_len array - 1\<rparr>)
   }"

text \<open>The search loop of \<^verbatim>\<open>l_ptr_array_remove_fast\<close>: the first cell that holds \<open>p\<close>.\<close>

fun find_cell :: "'a \<Rightarrow> 'a list \<Rightarrow> nat \<Rightarrow> nat option" where
  "find_cell p [] i = None"
| "find_cell p (x # xs) i = (if x = p then Some i else find_cell p xs (i + 1))"

definition l_ptr_array_remove_fast :: "'a LPtrArray \<Rightarrow> 'a \<Rightarrow> (nat \<times> 'a LPtrArray) option" where
  "l_ptr_array_remove_fast array p =
     (case la_pdata array of
        None \<Rightarrow> (if la_len array = 0 then Some (0, array) else None)
      | Some pd \<Rightarrow>
          (case find_cell p (take (la_len array) pd) 0 of
             None \<Rightarrow> Some (0, array)
           | Some i \<Rightarrow> (case l_ptr_array_remove_index_fast array i of
                          None \<Rightarrow> None | Some (_, a) \<Rightarrow> Some (1, a))))"

subsection \<open>The sequence an array stands for\<close>

text \<open>
  The abstraction is the used prefix. The invariant: the block has \<open>la_size\<close> cells, the used ones
  fit, and there is no block exactly when nothing was allocated.
\<close>

definition elems :: "'a LPtrArray \<Rightarrow> 'a list" where
  "elems a = (case la_pdata a of None \<Rightarrow> [] | Some pd \<Rightarrow> take (la_len a) pd)"

definition lpa_inv :: "'a LPtrArray \<Rightarrow> bool" where
  "lpa_inv a \<longleftrightarrow> la_len a \<le> la_size a \<and>
     (case la_pdata a of None \<Rightarrow> la_size a = 0 | Some pd \<Rightarrow> length pd = la_size a)"

lemma length_elems: "lpa_inv a \<Longrightarrow> length (elems a) = la_len a"
  by (auto simp: lpa_inv_def elems_def split: option.splits)

text \<open>The largest number of cells the rounding loop can serve.\<close>

definition lpa_max :: nat where
  "lpa_max = 2 ^ 31"

lemma l_near_pow_2_Some:
  assumes "0 < n" and "n \<le> lpa_max"
  shows "\<exists>r. l_near_pow_2 (of_nat n) = Some r \<and> n \<le> unat r"
proof -
  have n: "unat (of_nat n :: 32 word) = n"
    using assms by (simp add: unat_of_nat lpa_max_def)
  obtain m where m: "m \<le> 31" "l_near_pow_2_loop (of_nat n) 1 = Some (2 ^ m)" "n \<le> 2 ^ m"
    using l_near_pow_2_loop_Some [of "of_nat n" 0] n assms by (auto simp: lpa_max_def)
  then have "unat (2 ^ m :: 32 word) = 2 ^ m" by (simp add: unat_pow_2)
  moreover from this have "(2 ^ m :: 32 word) \<noteq> 0" by (auto simp: unat_eq_zero [symmetric])
  ultimately show ?thesis using m by (auto simp: l_near_pow_2_def)
qed

lemma expand_spec:
  assumes "lpa_inv a" and "0 < n" and "la_len a + n \<le> lpa_max"
  shows "\<exists>a'. l_ptr_array_expand junk a n = Some a' \<and> lpa_inv a' \<and> elems a' = elems a
           \<and> la_len a' = la_len a \<and> la_len a + n \<le> la_size a'"
proof (cases "la_len a + n > la_size a")
  case True
  obtain r where r: "l_near_pow_2 (of_nat (la_len a + n)) = Some r" "la_len a + n \<le> unat r"
    using l_near_pow_2_Some [of "la_len a + n"] assms by auto
  show ?thesis
  proof (cases "la_pdata a")
    case None
    with True r assms(1) show ?thesis
      by (auto simp: l_ptr_array_expand_def lpa_inv_def elems_def)
  next
    case (Some pd)
    with assms(1) have pd: "length pd = la_size a" "la_len a \<le> la_size a" by (auto simp: lpa_inv_def)
    have "la_size a \<le> unat r" using True r by simp
    then have "mem_write (fresh junk (unat r)) 0 (take (la_size a) pd)
                 = Some (pd @ drop (la_size a) (fresh junk (unat r)))"
      using pd by (simp add: mem_write_start)
    with Some True r pd \<open>la_size a \<le> unat r\<close> show ?thesis
      by (auto simp: l_ptr_array_expand_def lpa_inv_def elems_def)
  qed
next
  case False
  with assms(1) show ?thesis by (auto simp: l_ptr_array_expand_def)
qed

lemma add_spec:
  assumes "lpa_inv a" and "length (elems a) < lpa_max"
  shows "\<exists>a'. l_ptr_array_add junk a p = Some a' \<and> lpa_inv a' \<and> elems a' = elems a @ [p]"
proof -
  have len: "la_len a < lpa_max" using assms by (simp add: length_elems)
  obtain b where b: "(if la_len a = la_size a then l_ptr_array_expand junk a 1 else Some a) = Some b"
      "lpa_inv b" "elems b = elems a" "la_len b = la_len a" "la_len b < la_size b"
  proof (cases "la_len a = la_size a")
    case True
    from expand_spec [OF assms(1), of 1 junk] len obtain a' where
      "l_ptr_array_expand junk a 1 = Some a'" "lpa_inv a'" "elems a' = elems a" "la_len a' = la_len a"
      "la_len a + 1 \<le> la_size a'" by auto
    with True show ?thesis by (intro that [of a']) auto
  next
    case False
    with assms(1) show ?thesis by (intro that [of a]) (auto simp: lpa_inv_def)
  qed
  from b(2,5) obtain pd where pd: "la_pdata b = Some pd" "length pd = la_size b"
    by (auto simp: lpa_inv_def split: option.splits)
  have w: "mem_write pd (la_len b) [p] = Some (take (la_len b) pd @ p # drop (Suc (la_len b)) pd)"
    using b(5) pd(2) by (simp add: mem_write_def)
  have "l_ptr_array_add junk a p
          = Some (b\<lparr>la_pdata := Some (take (la_len b) pd @ p # drop (Suc (la_len b)) pd), la_len := la_len b + 1\<rparr>)"
    unfolding l_ptr_array_add_def b(1) by (simp add: pd(1) w)
  moreover have "elems a = take (la_len b) pd" using b(3) pd by (simp add: elems_def)
  ultimately show ?thesis
    using b(5) pd by (simp add: lpa_inv_def elems_def)
qed

lemma length_shift_cells [simp]: "length (shift_cells pd j n) = length pd"
  by (induction pd j n rule: shift_cells.induct) (subst shift_cells.simps, simp)

lemma shift_cells_spec:
  assumes "n \<le> length pd" and "j < n"
  shows "take (n - 1) (shift_cells pd j n) = take j pd @ drop (Suc j) (take n pd)"
  using assms
proof (induction pd j n rule: shift_cells.induct)
  case (1 pd j n)
  show ?case
  proof (cases "j < n - 1")
    case True
    let ?pd = "pd[j := pd ! (j + 1)]"
    have "take (n - 1) (shift_cells pd j n) = take (n - 1) (shift_cells ?pd (j + 1) n)"
      using True by (subst shift_cells.simps) simp
    also have "\<dots> = take (j + 1) ?pd @ drop (Suc (j + 1)) (take n ?pd)"
      using True 1 by (intro 1(1)) auto
    also have "take (j + 1) ?pd = take j pd @ [pd ! (j + 1)]"
      using True 1 by (simp add: take_Suc_conv_app_nth)
    also have "drop (Suc (j + 1)) (take n ?pd) = drop (Suc (j + 1)) (take n pd)"
      by (simp add: drop_take)
    also have "(take j pd @ [pd ! (j + 1)]) @ drop (Suc (j + 1)) (take n pd)
                 = take j pd @ drop (Suc j) (take n pd)"
      using True 1 by (simp add: Cons_nth_drop_Suc [symmetric])
    finally show ?thesis .
  next
    case False
    with 1 have "j = n - 1" by simp
    with 1 False show ?thesis by (subst shift_cells.simps) simp
  qed
qed

lemma remove_index_spec:
  assumes "lpa_inv a" and "i < length (elems a)"
  shows "\<exists>a'. l_ptr_array_remove_index a i = Some (elems a ! i, a') \<and> lpa_inv a'
           \<and> elems a' = take i (elems a) @ drop (Suc i) (elems a)"
proof -
  have i: "i < la_len a" using assms by (simp add: length_elems)
  obtain pd where pd: "la_pdata a = Some pd" "length pd = la_size a" "la_len a \<le> la_size a"
    using assms(1) i by (auto simp: lpa_inv_def split: option.splits)
  let ?pd = "if i \<noteq> la_len a - 1 then shift_cells pd i (la_len a) else pd"
  have "take (la_len a - 1) ?pd = take i (take (la_len a) pd) @ drop (Suc i) (take (la_len a) pd)"
    using shift_cells_spec [of "la_len a" pd i] i pd by (auto simp: min_def)
  with i pd show ?thesis
    by (auto simp: l_ptr_array_remove_index_def lpa_inv_def elems_def)
qed

lemma remove_index_fast_spec:
  assumes "lpa_inv a" and "i < length (elems a)"
  shows "\<exists>a'. l_ptr_array_remove_index_fast a i = Some (elems a ! i, a') \<and> lpa_inv a'
           \<and> elems a' = remove_index_fast i (elems a)"
proof -
  have i: "i < la_len a" using assms by (simp add: length_elems)
  obtain pd where pd: "la_pdata a = Some pd" "length pd = la_size a" "la_len a \<le> la_size a"
    using assms(1) i by (auto simp: lpa_inv_def split: option.splits)
  have "last (take (la_len a) pd) = pd ! (la_len a - 1)"
    using i pd last_conv_nth [of "take (la_len a) pd"] by (cases pd) auto
  then have "take (la_len a - 1) (if i \<noteq> la_len a - 1 then pd[i := pd ! (la_len a - 1)] else pd)
               = remove_index_fast i (take (la_len a) pd)"
    using i pd by (auto simp: remove_index_fast_def butlast_take butlast_conv_take take_update_swap min_def)
  with i pd show ?thesis
    by (auto simp: l_ptr_array_remove_index_fast_def lpa_inv_def elems_def)
qed

lemma find_cell_spec:
  "find_cell p xs i = (if p \<in> set xs then Some (i + length (takeWhile (\<lambda>x. x \<noteq> p) xs)) else None)"
  by (induction xs arbitrary: i) auto

lemma remove_fast_spec:
  assumes "lpa_inv a" and "distinct (elems a)"
  shows "\<exists>a'. l_ptr_array_remove_fast a p = Some (if p \<in> set (elems a) then 1 else 0, a') \<and> lpa_inv a'
           \<and> set (elems a') = set (elems a) - {p} \<and> distinct (elems a')"
proof (cases "p \<in> set (elems a)")
  case True
  then obtain pd where pd: "la_pdata a = Some pd" "elems a = take (la_len a) pd"
    by (cases "la_pdata a") (simp_all add: elems_def)
  let ?i = "length (takeWhile (\<lambda>x. x \<noteq> p) (elems a))"
  have i: "?i < length (elems a)" "elems a ! ?i = p"
    using True length_takeWhile_lt [of p "elems a"] nth_length_takeWhile [of "\<lambda>x. x \<noteq> p" "elems a"]
    by auto
  obtain a' where a': "l_ptr_array_remove_index_fast a ?i = Some (p, a')" "lpa_inv a'"
      "elems a' = remove_index_fast ?i (elems a)"
    using remove_index_fast_spec [OF assms(1) i(1)] i(2) by auto
  have "l_ptr_array_remove_fast a p = Some (1, a')"
    using True pd a'(1) by (simp add: l_ptr_array_remove_fast_def find_cell_spec)
  moreover have "set (elems a') = set (elems a) - {p} \<and> distinct (elems a')"
    using remove_index_fast_distinct [OF assms(2) i(1)] i(2) a'(3) by simp
  ultimately show ?thesis using True a'(2) by auto
next
  case False
  then have "l_ptr_array_remove_fast a p = Some (0, a)"
    using assms(1)
    by (auto simp: l_ptr_array_remove_fast_def find_cell_spec elems_def lpa_inv_def
        split: option.splits)
  with False assms show ?thesis by auto
qed

subsection \<open>The interface of a pointer array\<close>

locale ptr_array =
  fixes content :: "'arr \<Rightarrow> 'a list"
    and invar :: "'arr \<Rightarrow> bool"
    and empty :: "'arr option"
    and add :: "'arr \<Rightarrow> 'a \<Rightarrow> 'arr option"
    and remove_index :: "'arr \<Rightarrow> nat \<Rightarrow> ('a \<times> 'arr) option"
    and remove_fast :: "'arr \<Rightarrow> nat \<Rightarrow> ('a \<times> 'arr) option"
    and count :: "'arr \<Rightarrow> nat"
    and cap :: nat
  assumes empty: "\<exists>a. empty = Some a \<and> invar a \<and> content a = []"
    and add: "invar a \<Longrightarrow> length (content a) < cap \<Longrightarrow>
      \<exists>a'. add a p = Some a' \<and> invar a' \<and> content a' = content a @ [p]"
    and remove_index: "invar a \<Longrightarrow> i < length (content a) \<Longrightarrow>
      \<exists>a'. remove_index a i = Some (content a ! i, a') \<and> invar a'
        \<and> content a' = take i (content a) @ drop (Suc i) (content a)"
    and remove_fast: "invar a \<Longrightarrow> i < length (content a) \<Longrightarrow>
      \<exists>a'. remove_fast a i = Some (content a ! i, a') \<and> invar a'
        \<and> content a' = remove_index_fast i (content a)"
    and count: "invar a \<Longrightarrow> count a = length (content a)"
begin

text \<open>First in, first out: removing index 0 of a nonempty array takes its head.\<close>

lemma remove_head:
  assumes "invar a" and "content a = x # xs"
  shows "\<exists>a'. remove_index a 0 = Some (x, a') \<and> invar a' \<and> content a' = xs"
  using remove_index [of a 0] assms by simp

lemma count_zero: "invar a \<Longrightarrow> count a = 0 \<longleftrightarrow> content a = []"
  by (simp add: count)

text \<open>Appending and then taking from the front rotates the array.\<close>

lemma add_remove_head:
  assumes "invar a" and "content a = x # xs" and "length (content a) < cap"
  shows "\<exists>b c. add a p = Some b \<and> remove_index b 0 = Some (x, c) \<and> invar c \<and> content c = xs @ [p]"
proof -
  obtain b where b: "add a p = Some b" "invar b" "content b = content a @ [p]"
    using add [OF assms(1,3)] by blast
  then show ?thesis using remove_head [OF b(2)] assms(2) by auto
qed

end

interpretation lpa: ptr_array elems lpa_inv "l_ptr_array_new junk" "l_ptr_array_add junk"
    l_ptr_array_remove_index l_ptr_array_remove_index_fast la_len lpa_max for junk
proof (unfold_locales, goal_cases)
  case 1
  show ?case
    by (simp add: l_ptr_array_new_def l_ptr_array_sized_new_def lpa_inv_def elems_def)
next
  case (2 a p)
  then show ?case by (rule add_spec)
next
  case (3 a i)
  then show ?case by (rule remove_index_spec)
next
  case (4 a i)
  then show ?case by (rule remove_index_fast_spec)
next
  case (5 a)
  then show ?case by (simp add: length_elems)
qed

subsection \<open>Putting a packet back at the front of a queue\<close>

text \<open>
  \<^verbatim>\<open>queue_back_client_pkt\<close> of \<^verbatim>\<open>src/mysql_session.c\<close> rebuilds the input queue of a client: a
  second array receives the packet and then every queued packet, and is copied back. Both
  copies are the same loop, \<open>move_all\<close>.
\<close>

function move_all ::
    "(nat \<Rightarrow> 'a) \<Rightarrow> 'a LPtrArray \<Rightarrow> 'a LPtrArray \<Rightarrow> ('a LPtrArray \<times> 'a LPtrArray) option" where
  "move_all junk src dst =
     (if la_len src = 0 then Some (src, dst)
      else case l_ptr_array_remove_index src 0 of
             None \<Rightarrow> None
           | Some (pn, src') \<Rightarrow>
               (case l_ptr_array_add junk dst pn of
                  None \<Rightarrow> None
                | Some dst' \<Rightarrow> move_all junk src' dst'))"
  by pat_completeness auto
termination
  by (relation "measure (\<lambda>(junk, src, dst). la_len src)")
    (auto simp: l_ptr_array_remove_index_def Option.bind_eq_Some_conv split: if_splits)

declare move_all.simps [simp del]

definition queue_back_client_pkt ::
    "(nat \<Rightarrow> 'a) \<Rightarrow> 'a LPtrArray \<Rightarrow> 'a \<Rightarrow> 'a LPtrArray option" where
  "queue_back_client_pkt junk pkts p = do {
     new_input_pkts \<leftarrow> l_ptr_array_sized_new junk (la_len pkts);
     new_input_pkts \<leftarrow> l_ptr_array_add junk new_input_pkts p;
     (pkts, new_input_pkts) \<leftarrow> move_all junk pkts new_input_pkts;
     (_, pkts) \<leftarrow> move_all junk new_input_pkts pkts;
     Some pkts
   }"

lemma move_all_spec:
  assumes "lpa_inv src" and "lpa_inv dst" and "length (elems src) + length (elems dst) \<le> lpa_max"
  shows "\<exists>src' dst'. move_all junk src dst = Some (src', dst') \<and> lpa_inv src' \<and> elems src' = []
           \<and> lpa_inv dst' \<and> elems dst' = elems dst @ elems src"
  using assms
proof (induction "elems src" arbitrary: src dst)
  case Nil
  then show ?case
    by (subst move_all.simps) (simp add: length_elems [symmetric])
next
  case (Cons x xs)
  obtain src' where src': "l_ptr_array_remove_index src 0 = Some (x, src')" "lpa_inv src'" "elems src' = xs"
    using lpa.remove_head [OF Cons.prems(1), of x xs] Cons.hyps(2) by auto
  have "length (elems dst) < lpa_max" using Cons by (simp flip: Cons.hyps(2))
  then obtain dst' where dst': "l_ptr_array_add junk dst x = Some dst'" "lpa_inv dst'" "elems dst' = elems dst @ [x]"
    using lpa.add [OF Cons.prems(2)] by blast
  have "la_len src \<noteq> 0" using Cons by (simp flip: Cons.hyps(2) add: length_elems [symmetric])
  with src' dst' have "move_all junk src dst = move_all junk src' dst'"
    by (subst move_all.simps) simp
  moreover have "length (elems src') + length (elems dst') \<le> lpa_max"
    using Cons.prems(3) src' dst' by (simp flip: Cons.hyps(2))
  ultimately show ?case
    using Cons.hyps(1) [of src' dst'] src' dst' by (simp flip: Cons.hyps(2))
qed

lemma sized_new_spec:
  assumes "n \<le> lpa_max"
  shows "\<exists>a. l_ptr_array_sized_new junk n = Some a \<and> lpa_inv a \<and> elems a = []"
proof -
  let ?a = "\<lparr>la_pdata = None, la_len = 0, la_size = 0\<rparr>"
  have a: "lpa_inv ?a" "elems ?a = []" by (simp_all add: lpa_inv_def elems_def)
  show ?thesis
  proof (cases "n = 0")
    case True
    with a show ?thesis by (simp add: l_ptr_array_sized_new_def)
  next
    case False
    with expand_spec [OF a(1), of n junk] a assms show ?thesis
      by (auto simp: l_ptr_array_sized_new_def)
  qed
qed

subsection \<open>Properties\<close>

text \<open>
  Rounding up: for a request of 1 to \<open>2 ^ 31\<close> cells \<^verbatim>\<open>l_near_pow_2\<close> returns, and returns the
  least power of two that is not below the request.
\<close>

theorem near_pow_2_least:
  assumes "0 < n" and "n \<le> 2 ^ 31"
  shows "\<exists>r m. l_near_pow_2 (of_nat n) = Some r \<and> unat r = 2 ^ m \<and> n \<le> 2 ^ m \<and> (\<forall>k. n \<le> 2 ^ k \<longrightarrow> m \<le> k)"
proof -
  have n: "unat (of_nat n :: 32 word) = n"
    using assms by (simp add: unat_of_nat)
  obtain m where m: "m \<le> 31" "l_near_pow_2_loop (of_nat n) 1 = Some (2 ^ m)" "n \<le> 2 ^ m" "m = 0 \<or> 2 ^ (m - 1) < n"
    using l_near_pow_2_loop_Some [of "of_nat n" 0] n assms by auto
  then have u: "unat (2 ^ m :: 32 word) = 2 ^ m" by (simp add: unat_pow_2)
  then have "(2 ^ m :: 32 word) \<noteq> 0" by (auto simp: unat_eq_zero [symmetric])
  then have r: "l_near_pow_2 (of_nat n) = Some (2 ^ m)" using m(2) by (simp add: l_near_pow_2_def)
  have "m \<le> k" if "n \<le> 2 ^ k" for k
  proof (rule ccontr)
    assume "\<not> m \<le> k"
    then have "(2 :: nat) ^ k \<le> 2 ^ (m - 1)" by (intro power_increasing) auto
    with that m(4) \<open>\<not> m \<le> k\<close> show False by linarith
  qed
  with r u m(3) show ?thesis by blast
qed

theorem near_pow_2_least_witness:
  "\<exists>r m. l_near_pow_2 (of_nat 5) = Some r \<and> unat r = 2 ^ m \<and> 5 \<le> (2 :: nat) ^ m \<and> (\<forall>k. 5 \<le> (2 :: nat) ^ k \<longrightarrow> m \<le> k)"
  by (rule near_pow_2_least) simp_all

text \<open>
  Above \<open>2 ^ 31\<close> the doubled value wraps to zero, which stays below the request for ever: the
  loop of \<^verbatim>\<open>l_near_pow_2\<close> does not end.
\<close>

theorem near_pow_2_diverges:
  assumes "2 ^ 31 < unat n"
  shows "l_near_pow_2 n = None"
proof -
  have "l_near_pow_2_loop n 1 \<noteq> Some r" for r
  proof
    assume *: "l_near_pow_2_loop n 1 = Some r"
    have "n \<le> r \<and> (r = 0 \<or> (\<exists>k < 32. r = 2 ^ k))"
      by (rule l_near_pow_2_loop_result [OF *]) (auto intro: exI [of _ 0])
    then obtain k where "n \<le> r" and k: "r = 0 \<or> (k < 32 \<and> r = 2 ^ k)" by auto
    then have "unat n \<le> unat r" by (simp add: word_le_nat_alt)
    moreover have "unat r \<le> 2 ^ 31"
      using k
    proof (elim disjE conjE)
      assume "k < 32" and "r = 2 ^ k"
      then have "unat r = 2 ^ k" by (simp add: unat_pow_2)
      also have "\<dots> \<le> 2 ^ 31" using \<open>k < 32\<close> by (intro power_increasing) auto
      finally show ?thesis .
    qed simp
    ultimately show False using assms by simp
  qed
  then show ?thesis by (cases "l_near_pow_2_loop n 1") (auto simp: l_near_pow_2_def)
qed

theorem near_pow_2_diverges_witness:
  "l_near_pow_2 (0x80000001) = None"
  by (rule near_pow_2_diverges) simp

text \<open>
  C19. Putting a packet back: while the queue has fewer than \<open>2 ^ 31\<close> packets,
  \<^verbatim>\<open>queue_back_client_pkt\<close> returns without leaving any allocated block, the queue then holds the
  packet followed by the packets that were queued, in their order, and the array is well formed.
\<close>

theorem queue_back_front:
  assumes "lpa_inv pkts" and "length (elems pkts) < lpa_max"
  shows "\<exists>pkts'. queue_back_client_pkt junk pkts p = Some pkts' \<and> lpa_inv pkts' \<and> elems pkts' = p # elems pkts"
proof -
  have len: "la_len pkts \<le> lpa_max" using assms by (simp add: length_elems)
  obtain q where q: "l_ptr_array_sized_new junk (la_len pkts) = Some q" "lpa_inv q" "elems q = []"
    using sized_new_spec [OF len] by blast
  obtain q1 where q1: "l_ptr_array_add junk q p = Some q1" "lpa_inv q1" "elems q1 = [p]"
    using lpa.add [OF q(2), of junk p] q(3) assms(2) by auto
  obtain b q2 where q2: "move_all junk pkts q1 = Some (b, q2)" "lpa_inv b" "elems b = []" "lpa_inv q2" "elems q2 = p # elems pkts"
    using move_all_spec [OF assms(1) q1(2), of junk] q1(3) assms(2) by auto
  obtain q3 c where "move_all junk q2 b = Some (q3, c)" "lpa_inv c" "elems c = p # elems pkts"
    using move_all_spec [OF q2(4,2), of junk] q2(3,5) assms(2) by auto
  then show ?thesis
    by (simp add: queue_back_client_pkt_def q(1) q1(1) q2(1))
qed

theorem queue_back_front_witness:
  "\<exists>pkts'. queue_back_client_pkt (\<lambda>_. 0) \<lparr>la_pdata = Some [1 :: nat, 2, 9, 9], la_len = 2, la_size = 4\<rparr> 7 = Some pkts'
     \<and> lpa_inv pkts' \<and> elems pkts' = [7, 1, 2]"
  using queue_back_front [of "\<lparr>la_pdata = Some [1 :: nat, 2, 9, 9], la_len = 2, la_size = 4\<rparr>" "\<lambda>_. 0" 7]
  by (simp add: lpa_inv_def elems_def lpa_max_def)

end
