(* ===== verification/ByteQueue.thy ===== *)
theory ByteQueue
  imports Prelude
begin

section \<open>The byte queues of a connection\<close>

text \<open>
  The \<^verbatim>\<open>queue_*\<close> macros of \<^verbatim>\<open>include/proxysql_macros.h\<close> on the \<^verbatim>\<open>queue_t\<close> of
  \<^verbatim>\<open>include/structs.h\<close>: a buffer with a write position \<open>head\<close> and a read position \<open>tail\<close>.
  It is not a ring: both positions go back to 0 when the last byte is read, and
  \<open>queue_zero\<close> moves the pending bytes to the start.

  The positions are C ints that never leave \<open>0..size\<close> (the invariant \<open>queue_inv\<close>), so they are
  natural numbers. The \<^verbatim>\<open>memcpy\<close> of \<open>queue_zero\<close> is modelled with the semantics of
  \<^verbatim>\<open>memmove\<close>, since its source and target can overlap (\<open>queue_zero_overlaps\<close> says when).

  The locale \<open>byte_queue\<close> is what the data streams rely on: a bounded first-in first-out
  byte sequence.
\<close>

record queue_t =
  q_buffer :: "byte list"
  q_size :: nat
  q_head :: nat
  q_tail :: nat

definition queue_init :: "(nat \<Rightarrow> byte) \<Rightarrow> nat \<Rightarrow> queue_t" where
  "queue_init junk s = \<lparr>q_buffer = fresh junk s, q_size = s, q_head = 0, q_tail = 0\<rparr>"

definition queue_available :: "queue_t \<Rightarrow> nat" where
  "queue_available q = q_size q - q_head q"

definition queue_data :: "queue_t \<Rightarrow> nat" where
  "queue_data q = q_head q - q_tail q"

definition queue_zero :: "queue_t \<Rightarrow> queue_t option" where
  "queue_zero q = do {
     pending \<leftarrow> mem_read (q_buffer q) (q_tail q) (queue_data q);
     buf \<leftarrow> mem_write (q_buffer q) 0 pending;
     Some (q\<lparr>q_buffer := buf, q_head := q_head q - q_tail q, q_tail := 0\<rparr>)
   }"

definition queue_r :: "queue_t \<Rightarrow> nat \<Rightarrow> queue_t" where
  "queue_r q s =
     (let q = q\<lparr>q_tail := q_tail q + s\<rparr>
      in if q_tail q = q_head q then q\<lparr>q_head := 0, q_tail := 0\<rparr> else q)"

definition queue_w :: "queue_t \<Rightarrow> nat \<Rightarrow> queue_t" where
  "queue_w q s = q\<lparr>q_head := q_head q + s\<rparr>"

text \<open>
  Every user of a queue copies through \<^verbatim>\<open>queue_r_ptr\<close> or \<^verbatim>\<open>queue_w_ptr\<close> and then moves the
  position: \<open>queue_get\<close> and \<open>queue_put\<close> are these two pairs of statements.
\<close>

definition queue_get :: "queue_t \<Rightarrow> nat \<Rightarrow> (byte list \<times> queue_t) option" where
  "queue_get q n = do {
     bs \<leftarrow> mem_read (q_buffer q) (q_tail q) n;
     Some (bs, queue_r q n)
   }"

definition queue_put :: "queue_t \<Rightarrow> byte list \<Rightarrow> queue_t option" where
  "queue_put q bs = do {
     buf \<leftarrow> mem_write (q_buffer q) (q_head q) bs;
     Some (queue_w (q\<lparr>q_buffer := buf\<rparr>) (length bs))
   }"

subsection \<open>Invariant and contents\<close>

definition queue_inv :: "queue_t \<Rightarrow> bool" where
  "queue_inv q \<longleftrightarrow> length (q_buffer q) = q_size q \<and> q_tail q \<le> q_head q \<and> q_head q \<le> q_size q
     \<and> (q_tail q = q_head q \<longrightarrow> q_head q = 0)"

definition pending :: "queue_t \<Rightarrow> byte list" where
  "pending q = take (queue_data q) (drop (q_tail q) (q_buffer q))"

lemma length_pending: "queue_inv q \<Longrightarrow> length (pending q) = queue_data q"
  by (auto simp: queue_inv_def pending_def queue_data_def)

lemma queue_init_spec: "queue_inv (queue_init junk s) \<and> pending (queue_init junk s) = []
    \<and> queue_available (queue_init junk s) = s"
  by (simp add: queue_init_def queue_inv_def pending_def queue_data_def queue_available_def)

lemma queue_put_spec:
  assumes "queue_inv q" and "length bs \<le> queue_available q"
  shows "\<exists>q'. queue_put q bs = Some q' \<and> queue_inv q' \<and> pending q' = pending q @ bs
           \<and> q_size q' = q_size q \<and> queue_available q' = queue_available q - length bs"
proof -
  have *: "q_head q + length bs \<le> length (q_buffer q)" "q_tail q \<le> q_head q"
    using assms by (auto simp: queue_inv_def queue_available_def)
  let ?buf = "take (q_head q) (q_buffer q) @ bs @ drop (q_head q + length bs) (q_buffer q)"
  let ?q = "queue_w (q\<lparr>q_buffer := ?buf\<rparr>) (length bs)"
  have "queue_put q bs = Some ?q" using * by (simp add: queue_put_def mem_write_def)
  moreover have "queue_inv ?q" using * assms(1) by (auto simp: queue_inv_def queue_w_def)
  moreover have "drop (q_tail q) (take (q_head q) (q_buffer q)) = pending q"
    by (simp add: pending_def queue_data_def drop_take)
  then have "pending ?q = pending q @ bs"
    using * by (auto simp: pending_def queue_data_def queue_w_def)
  ultimately show ?thesis by (simp add: queue_w_def queue_available_def)
qed

lemma queue_get_spec:
  assumes "queue_inv q" and "n \<le> queue_data q"
  shows "\<exists>q'. queue_get q n = Some (take n (pending q), q') \<and> queue_inv q' \<and> pending q' = drop n (pending q)
           \<and> q_size q' = q_size q \<and> queue_available q \<le> queue_available q'"
proof -
  have *: "q_tail q + n \<le> q_head q" "q_head q \<le> length (q_buffer q)" "length (q_buffer q) = q_size q"
    using assms by (auto simp: queue_inv_def queue_data_def)
  have "queue_get q n = Some (take n (pending q), queue_r q n)"
    using * assms(2) by (simp add: queue_get_def mem_read_def pending_def min_def)
  moreover have "pending (queue_r q n) = drop n (pending q)"
    using * by (auto simp: queue_r_def Let_def pending_def queue_data_def drop_take add.commute)
  moreover have "queue_inv (queue_r q n)"
    using * by (auto simp: queue_r_def Let_def queue_inv_def)
  ultimately show ?thesis by (auto simp: queue_r_def Let_def queue_available_def)
qed

lemma queue_zero_spec:
  assumes "queue_inv q"
  shows "\<exists>q'. queue_zero q = Some q' \<and> queue_inv q' \<and> pending q' = pending q
           \<and> q_size q' = q_size q \<and> queue_available q' = q_size q - queue_data q"
  using assms
  by (auto simp: queue_zero_def queue_inv_def queue_data_def mem_read_def mem_write_def pending_def
      queue_available_def)

text \<open>An empty queue has its whole buffer to write into.\<close>

lemma queue_empty_available:
  "queue_inv q \<Longrightarrow> queue_data q = 0 \<Longrightarrow> queue_available q = q_size q"
  by (auto simp: queue_inv_def queue_data_def queue_available_def)

lemma queue_available_bound: "queue_inv q \<Longrightarrow> queue_available q + queue_data q \<le> q_size q"
  by (auto simp: queue_inv_def queue_data_def queue_available_def)

subsection \<open>The interface of a byte queue\<close>

locale byte_queue =
  fixes content :: "'q \<Rightarrow> byte list"
    and invar :: "'q \<Rightarrow> bool"
    and room :: "'q \<Rightarrow> nat"
    and cap :: "'q \<Rightarrow> nat"
    and put :: "'q \<Rightarrow> byte list \<Rightarrow> 'q option"
    and get :: "'q \<Rightarrow> nat \<Rightarrow> (byte list \<times> 'q) option"
    and compact :: "'q \<Rightarrow> 'q option"
  assumes put: "invar q \<Longrightarrow> length bs \<le> room q \<Longrightarrow>
      \<exists>q'. put q bs = Some q' \<and> invar q' \<and> content q' = content q @ bs \<and> cap q' = cap q"
    and get: "invar q \<Longrightarrow> n \<le> length (content q) \<Longrightarrow>
      \<exists>q'. get q n = Some (take n (content q), q') \<and> invar q' \<and> content q' = drop n (content q) \<and> cap q' = cap q"
    and compact: "invar q \<Longrightarrow>
      \<exists>q'. compact q = Some q' \<and> invar q' \<and> content q' = content q \<and> cap q' = cap q
        \<and> room q' = cap q - length (content q)"
    and drained: "invar q \<Longrightarrow> content q = [] \<Longrightarrow> room q = cap q"
begin

text \<open>What is put into the queue comes out of it, behind what was already there.\<close>

lemma put_get:
  assumes "invar q" and "length bs \<le> room q"
  shows "\<exists>q1 q2. put q bs = Some q1
           \<and> get q1 (length (content q) + length bs) = Some (content q @ bs, q2)
           \<and> invar q2 \<and> content q2 = [] \<and> room q2 = cap q"
proof -
  obtain q1 where q1: "put q bs = Some q1" "invar q1" "content q1 = content q @ bs" "cap q1 = cap q"
    using put [OF assms] by blast
  then obtain q2 where "get q1 (length (content q) + length bs) = Some (content q @ bs, q2)"
      "invar q2" "content q2 = []" "cap q2 = cap q"
    using get [of q1 "length (content q) + length bs"] by auto
  then show ?thesis using q1 drained [of q2] by auto
qed

lemma get_all:
  assumes "invar q"
  shows "\<exists>q'. get q (length (content q)) = Some (content q, q') \<and> invar q' \<and> content q' = []
           \<and> room q' = cap q \<and> cap q' = cap q"
  using get [OF assms, of "length (content q)"] drained by fastforce

end

interpretation bq: byte_queue pending queue_inv queue_available q_size queue_put queue_get queue_zero
proof (unfold_locales, goal_cases)
  case (1 q bs)
  then show ?case using queue_put_spec by blast
next
  case (2 q n)
  then show ?case using queue_get_spec [of q n] by (auto simp: length_pending)
next
  case (3 q)
  then show ?case using queue_zero_spec [of q] by (auto simp: length_pending)
next
  case (4 q)
  then show ?case using queue_empty_available [of q] by (simp add: length_pending [symmetric])
qed

text \<open>The \<^verbatim>\<open>memcpy\<close> of \<open>queue_zero\<close> has overlapping regions when the gap is smaller than the data.\<close>

lemma queue_zero_overlaps:
  "{q_tail q ..< q_tail q + queue_data q} \<inter> {0 ..< queue_data q} \<noteq> {} \<longleftrightarrow> q_tail q < queue_data q"
  by auto

subsection \<open>Properties\<close>

text \<open>
  A byte queue is a bounded first-in first-out buffer: from a well-formed queue a write that
  fits succeeds, reading everything back returns the old bytes followed by the new ones without
  leaving the buffer, and the emptied queue has its whole size available again.
\<close>

theorem queue_fifo:
  assumes "queue_inv q" and "length bs \<le> queue_available q"
  shows "\<exists>q1 q2. queue_put q bs = Some q1 \<and> queue_inv q1
           \<and> queue_get q1 (queue_data q + length bs) = Some (pending q @ bs, q2)
           \<and> queue_inv q2 \<and> queue_data q2 = 0 \<and> queue_available q2 = q_size q"
proof -
  obtain q1 q2 where "queue_put q bs = Some q1" "queue_inv q2" "pending q2 = []" "queue_available q2 = q_size q"
      "queue_get q1 (length (pending q) + length bs) = Some (pending q @ bs, q2)"
    using bq.put_get [OF assms] by blast
  then show ?thesis
    using assms queue_put_spec [OF assms] length_pending [of q2] by (auto simp: length_pending)
qed

theorem queue_fifo_witness:
  "\<exists>q1 q2. queue_put (queue_w (queue_init (\<lambda>_. 7) 8) 2) [1, 2, 3] = Some q1 \<and> queue_inv q1
     \<and> queue_get q1 5 = Some ([7, 7, 1, 2, 3], q2)
     \<and> queue_inv q2 \<and> queue_data q2 = 0 \<and> queue_available q2 = 8"
  using queue_fifo [of "queue_w (queue_init (\<lambda>_. 7) 8) 2" "[1, 2, 3]"]
  by (simp add: queue_init_def queue_w_def queue_inv_def queue_available_def queue_data_def pending_def
      fresh_def upt_rec eval_nat_numeral)

end
