(* ===== verification/DataStream.thy ===== *)
theory DataStream
  imports ByteQueue
begin

section \<open>Data streams: packets in and out of the byte queues\<close>

text \<open>
  \<^verbatim>\<open>src/mysql_data_stream.c\<close>, the connection object of clients and servers, and the four loops
  of \<^verbatim>\<open>src/mysql_session.c\<close> that drive it. A stream has an input and an output half
  (\<^verbatim>\<open>mysql_uni_ds_t\<close>), each with a byte queue, an array of complete packets and one packet in
  progress. The packet arrays are lists here: \<open>LPtrArray\<close> shows that the C arrays behave as such.

  A system call is modelled by its result: the bytes \<^verbatim>\<open>recv\<close> delivers (\<open>None\<close> for -1), the number
  of bytes \<^verbatim>\<open>send\<close> accepts. What the \<^verbatim>\<open>sess\<close> and \<^verbatim>\<open>mybe\<close> pointers of a stream reach is the
  record \<open>ds_env\<close>, which also keeps the bytes that went out on the socket.

  A function that leaves its buffers or uses a pointer that was never set returns \<open>None\<close>. The
  loops are partial functions, and the theorems prove that they return.

  The main results: whatever the sizes in which the network delivers the bytes, the packets
  assembled are those of the reference splitting \<open>frames\<close>; whatever the sizes in which the
  network accepts bytes, what goes out is the concatenation of the queued packets; and the two
  composed are the identity on packets.
\<close>

subsection \<open>Data\<close>

text \<open>The pointer \<^verbatim>\<open>data\<close> of a packet fresh from \<^verbatim>\<open>mypkt_alloc\<close> is not set: \<open>None\<close>.\<close>

record pkt =
  pk_length :: nat
  pk_data :: "byte list option"

record bytes_stats =
  bs_recv :: nat
  bs_sent :: nat

record uni_ds =
  ud_queue :: queue_t
  ud_pkts :: "pkt list"
  ud_partial :: nat
  ud_mypkt :: "pkt option"
  ud_hdr :: "byte list"

record data_stream =
  ds_mybe :: bool \<comment> \<open>is there a backend behind this stream\<close>
  ds_pkts_recv :: nat
  ds_pkts_sent :: nat
  ds_bytes_info :: bytes_stats
  ds_input :: uni_ds
  ds_output :: uni_ds
  ds_fd :: int
  ds_active_transaction :: int
  ds_active :: bool

record ds_env =
  en_net_failure :: bool \<comment> \<open>\<open>sess->net_failure\<close>\<close>
  en_server_bytes :: bytes_stats \<comment> \<open>\<open>mybe->mshge->server_bytes\<close>\<close>
  en_connections_created :: int
  en_connections_active :: int
  en_wire :: "byte list" \<comment> \<open>the bytes the socket has accepted\<close>

text \<open>\<^verbatim>\<open>sizeof(mysql_hdr)\<close>: three bytes of length and one of sequence number.\<close>

definition hdr_size :: nat where
  "hdr_size = 4"

definition hdr_pkt_length :: "byte list \<Rightarrow> nat" where
  "hdr_pkt_length h = le_nat (take 3 h)"

definition hdr_pkt_id :: "byte list \<Rightarrow> byte" where
  "hdr_pkt_id h = h ! 3"

definition pkt_bytes :: "pkt \<Rightarrow> byte list" where
  "pkt_bytes p = (case pk_data p of None \<Rightarrow> [] | Some d \<Rightarrow> d)"

subsection \<open>Creation, deletion, shutdown\<close>

definition uni_ds_new :: "(nat \<Rightarrow> byte) \<Rightarrow> nat \<Rightarrow> uni_ds" where
  "uni_ds_new junk net_buffer_size =
     \<lparr>ud_queue = queue_init junk net_buffer_size, ud_pkts = [], ud_partial = 0, ud_mypkt = None,
      ud_hdr = fresh junk hdr_size\<rparr>"

definition mysql_data_stream_new ::
    "(nat \<Rightarrow> byte) \<Rightarrow> nat \<Rightarrow> int \<Rightarrow> bool \<Rightarrow> ds_env \<Rightarrow> data_stream \<times> ds_env" where
  "mysql_data_stream_new junk net_buffer_size junk_fd mybe env =
     (\<lparr>ds_mybe = mybe, ds_pkts_recv = 0, ds_pkts_sent = 0,
       ds_bytes_info = \<lparr>bs_recv = 0, bs_sent = 0\<rparr>,
       ds_input = uni_ds_new junk net_buffer_size, ds_output = uni_ds_new junk net_buffer_size,
       ds_fd = junk_fd, ds_active_transaction = 0, ds_active = True\<rparr>,
      if mybe
      then env\<lparr>en_connections_created := en_connections_created env + 1,
               en_connections_active := en_connections_active env + 1\<rparr>
      else env)"

definition mysql_data_stream_setfd :: "data_stream \<Rightarrow> int \<Rightarrow> data_stream" where
  "mysql_data_stream_setfd myds fd = myds\<lparr>ds_fd := fd\<rparr>"

definition shut_soft :: "data_stream \<Rightarrow> ds_env \<Rightarrow> data_stream \<times> ds_env" where
  "shut_soft myds env = (myds\<lparr>ds_active := False\<rparr>, env\<lparr>en_net_failure := True\<rparr>)"

definition shut_hard :: "data_stream \<Rightarrow> data_stream" where
  "shut_hard myds = (if ds_fd myds \<ge> 0 then myds\<lparr>ds_fd := -1\<rparr> else myds)"

text \<open>
  Deletion gives every block back with the size it was allocated with: the result is the list of
  freed blocks in order. Freeing the unset pointer of a packet is \<open>None\<close>.
\<close>

fun free_pkts :: "pkt list \<Rightarrow> byte list list option" where
  "free_pkts [] = Some []"
| "free_pkts (p # ps) = do { d \<leftarrow> pk_data p; ds \<leftarrow> free_pkts ps; Some (d # ds) }"

definition free_mypkt_data :: "pkt option \<Rightarrow> byte list list option" where
  "free_mypkt_data mp = (case mp of None \<Rightarrow> Some [] | Some p \<Rightarrow> free_pkts [p])"

definition mysql_data_stream_delete :: "data_stream \<Rightarrow> byte list list option" where
  "mysql_data_stream_delete my = do {
     a \<leftarrow> free_mypkt_data (ud_mypkt (ds_input my));
     b \<leftarrow> free_mypkt_data (ud_mypkt (ds_output my));
     c \<leftarrow> free_pkts (ud_pkts (ds_input my));
     d \<leftarrow> free_pkts (ud_pkts (ds_output my));
     Some ([q_buffer (ud_queue (ds_input my)), q_buffer (ud_queue (ds_output my))] @ a @ b @ c @ d)
   }"

subsection \<open>From the input queue to packets\<close>

text \<open>\<^verbatim>\<open>buffer2array\<close>, cut at its four \<^verbatim>\<open>if\<close> statements.\<close>

definition b2a_start :: "uni_ds \<Rightarrow> uni_ds option" where
  "b2a_start u =
     (let mypkt = (case ud_mypkt u of None \<Rightarrow> \<lparr>pk_length = 0, pk_data = None\<rparr> | Some p \<Rightarrow> p)
      in do {
        q \<leftarrow> (if pk_length mypkt = 0 \<and> queue_data (ud_queue u) < hdr_size
              then queue_zero (ud_queue u) else Some (ud_queue u));
        Some (u\<lparr>ud_mypkt := Some mypkt, ud_queue := q\<rparr>)
      })"

definition b2a_header :: "(nat \<Rightarrow> byte) \<Rightarrow> uni_ds \<Rightarrow> (nat \<times> uni_ds) option" where
  "b2a_header junk u = do {
     mypkt \<leftarrow> ud_mypkt u;
     if pk_length mypkt = 0 \<and> queue_data (ud_queue u) \<ge> hdr_size
     then do {
       (hdr, q) \<leftarrow> queue_get (ud_queue u) hdr_size;
       let n = hdr_pkt_length hdr + hdr_size;
       data \<leftarrow> mem_write (fresh junk n) 0 hdr;
       Some (hdr_size, u\<lparr>ud_queue := q, ud_hdr := hdr, ud_partial := hdr_size,
                         ud_mypkt := Some \<lparr>pk_length = n, pk_data = Some data\<rparr>\<rparr>)
     }
     else Some (0, u)
   }"

definition b2a_payload :: "uni_ds \<Rightarrow> (nat \<times> uni_ds) option" where
  "b2a_payload u = do {
     mypkt \<leftarrow> ud_mypkt u;
     if pk_length mypkt > 0 \<and> queue_data (ud_queue u) \<noteq> 0
     then do {
       let b = (if queue_data (ud_queue u) > pk_length mypkt - ud_partial u
                then pk_length mypkt - ud_partial u else queue_data (ud_queue u));
       (bytes, q) \<leftarrow> queue_get (ud_queue u) b;
       data \<leftarrow> pk_data mypkt;
       data \<leftarrow> mem_write data (ud_partial u) bytes;
       Some (b, u\<lparr>ud_queue := q, ud_partial := ud_partial u + b,
                  ud_mypkt := Some (mypkt\<lparr>pk_data := Some data\<rparr>)\<rparr>)
     }
     else Some (0, u)
   }"

definition b2a_complete :: "uni_ds \<Rightarrow> (nat \<times> uni_ds) option" where
  "b2a_complete u = do {
     mypkt \<leftarrow> ud_mypkt u;
     if pk_length mypkt > 0 \<and> pk_length mypkt = ud_partial u
     then Some (1, u\<lparr>ud_pkts := ud_pkts u @ [mypkt], ud_mypkt := None\<rparr>)
     else Some (0, u)
   }"

definition buffer2array :: "(nat \<Rightarrow> byte) \<Rightarrow> data_stream \<Rightarrow> (nat \<times> data_stream) option" where
  "buffer2array junk myds =
     (if queue_data (ud_queue (ds_input myds)) = 0 then Some (0, myds)
      else do {
        u \<leftarrow> b2a_start (ds_input myds);
        (r1, u) \<leftarrow> b2a_header junk u;
        (r2, u) \<leftarrow> b2a_payload u;
        (n, u) \<leftarrow> b2a_complete u;
        Some (r1 + r2, myds\<lparr>ds_input := u, ds_pkts_recv := ds_pkts_recv myds + n\<rparr>)
      })"

text \<open>The loop of \<^verbatim>\<open>buffer2array_2\<close>.\<close>

partial_function (option) buffer2array_loop ::
    "(nat \<Rightarrow> byte) \<Rightarrow> data_stream \<Rightarrow> data_stream option" where
  "buffer2array_loop junk myds = do {
     (r, myds) \<leftarrow> buffer2array junk myds;
     if r \<noteq> 0 \<and> ds_fd myds > 0 then buffer2array_loop junk myds else Some myds
   }"

subsection \<open>From packets to the output queue\<close>

definition a2b_next :: "uni_ds \<Rightarrow> uni_ds option" where
  "a2b_next u =
     (if ud_partial u = 0
      then (case ud_pkts u of
              [] \<Rightarrow> None
            | p # ps \<Rightarrow> Some (u\<lparr>ud_mypkt := Some p, ud_pkts := ps\<rparr>))
      else Some u)"

definition a2b_copy :: "uni_ds \<Rightarrow> (nat \<times> nat \<times> uni_ds) option" where
  "a2b_copy u = do {
     mypkt \<leftarrow> ud_mypkt u;
     let b = (if queue_available (ud_queue u) > pk_length mypkt - ud_partial u
              then pk_length mypkt - ud_partial u else queue_available (ud_queue u));
     data \<leftarrow> pk_data mypkt;
     bytes \<leftarrow> mem_read data (ud_partial u) b;
     q \<leftarrow> queue_put (ud_queue u) bytes;
     let u = u\<lparr>ud_queue := q, ud_partial := ud_partial u + b\<rparr>;
     Some (b, if ud_partial u = pk_length mypkt
              then (1, u\<lparr>ud_mypkt := None, ud_partial := 0\<rparr>) else (0, u))
   }"

definition array2buffer :: "data_stream \<Rightarrow> (nat \<times> data_stream) option" where
  "array2buffer myds =
     (if queue_available (ud_queue (ds_output myds)) = 0 then Some (0, myds)
      else (case a2b_next (ds_output myds) of
              None \<Rightarrow> Some (0, myds)
            | Some u \<Rightarrow> do {
                (b, n, u) \<leftarrow> a2b_copy u;
                Some (b, myds\<lparr>ds_output := u, ds_pkts_sent := ds_pkts_sent myds + n\<rparr>)
              }))"

text \<open>The loop of \<^verbatim>\<open>array2buffer_2\<close>.\<close>

partial_function (option) array2buffer_loop :: "data_stream \<Rightarrow> data_stream option" where
  "array2buffer_loop myds = do {
     (r, myds) \<leftarrow> array2buffer myds;
     if r \<noteq> 0 then array2buffer_loop myds else Some myds
   }"

subsection \<open>The network\<close>

definition read_from_net ::
    "byte list option \<Rightarrow> data_stream \<Rightarrow> ds_env \<Rightarrow> (int \<times> data_stream \<times> ds_env) option" where
  "read_from_net received myds env =
     (case received of
        None \<Rightarrow> Some (-1, shut_soft myds env)
      | Some bytes \<Rightarrow>
          let r = length bytes
          in if r < 1 then Some (int r, shut_soft myds env)
             else do {
               q \<leftarrow> queue_put (ud_queue (ds_input myds)) bytes;
               let myds = myds\<lparr>ds_input := (ds_input myds)\<lparr>ud_queue := q\<rparr>,
                               ds_bytes_info := (ds_bytes_info myds)\<lparr>bs_recv := bs_recv (ds_bytes_info myds) + r\<rparr>\<rparr>;
               Some (int r, myds,
                     if ds_mybe myds
                     then env\<lparr>en_server_bytes := (en_server_bytes env)\<lparr>bs_recv := bs_recv (en_server_bytes env) + r\<rparr>\<rparr>
                     else env)
             })"

definition write_to_net ::
    "nat option \<Rightarrow> data_stream \<Rightarrow> ds_env \<Rightarrow> (int \<times> data_stream \<times> ds_env) option" where
  "write_to_net accepted myds env =
     (if queue_data (ud_queue (ds_output myds)) = 0 then Some (0, myds, env)
      else case accepted of
        None \<Rightarrow> Some (-1, shut_soft myds env)
      | Some r \<Rightarrow> do {
          (bytes, q) \<leftarrow> queue_get (ud_queue (ds_output myds)) r;
          let myds = myds\<lparr>ds_output := (ds_output myds)\<lparr>ud_queue := q\<rparr>,
                          ds_bytes_info := (ds_bytes_info myds)\<lparr>bs_sent := bs_sent (ds_bytes_info myds) + r\<rparr>\<rparr>;
          let env = env\<lparr>en_wire := en_wire env @ bytes\<rparr>;
          Some (int r, myds,
                if ds_mybe myds
                then env\<lparr>en_server_bytes := (en_server_bytes env)\<lparr>bs_sent := bs_sent (en_server_bytes env) + r\<rparr>\<rparr>
                else env)
        })"

subsection \<open>The reference splitting of a byte stream\<close>

text \<open>
  The packets of a byte stream and the incomplete rest: as long as a header and as many bytes as
  it announces are there, they are a packet.
\<close>

function frames :: "byte list \<Rightarrow> byte list list \<times> byte list" where
  "frames bs =
     (if length bs < hdr_size \<or> length bs < hdr_pkt_length bs + hdr_size then ([], bs)
      else let (ps, rest) = frames (drop (hdr_pkt_length bs + hdr_size) bs)
           in (take (hdr_pkt_length bs + hdr_size) bs # ps, rest))"
  by pat_completeness auto
termination
  by (relation "measure length") (auto simp: hdr_size_def)

declare frames.simps [simp del]

definition framed :: "byte list \<Rightarrow> bool" where
  "framed d \<longleftrightarrow> hdr_size \<le> length d \<and> length d = hdr_pkt_length d + hdr_size"

lemma hdr_pkt_length_append: "hdr_size \<le> length d \<Longrightarrow> hdr_pkt_length (d @ xs) = hdr_pkt_length d"
  by (simp add: hdr_pkt_length_def hdr_size_def)

lemma hdr_pkt_length_take: "hdr_size \<le> n \<Longrightarrow> hdr_pkt_length (take n d) = hdr_pkt_length d"
  by (simp add: hdr_pkt_length_def hdr_size_def min_def)

lemma frames_framed:
  assumes "framed d"
  shows "frames (d @ xs) = (d # fst (frames xs), snd (frames xs))"
  using assms
  by (subst frames.simps) (auto simp: framed_def hdr_pkt_length_append split: prod.split)

lemma frames_concat:
  "\<forall>d \<in> set ds. framed d \<Longrightarrow> frames (concat ds @ xs) = (ds @ fst (frames xs), snd (frames xs))"
  by (induction ds) (simp_all add: frames_framed)

lemma frames_short: "length bs < hdr_size \<Longrightarrow> frames bs = ([], bs)"
  by (subst frames.simps) simp

lemma frames_incomplete: "length bs < hdr_pkt_length bs + hdr_size \<Longrightarrow> frames bs = ([], bs)"
  by (subst frames.simps) simp

text \<open>Splitting loses nothing, and its packets are framed.\<close>

lemma frames_sound:
  "concat (fst (frames bs)) @ snd (frames bs) = bs \<and> (\<forall>d \<in> set (fst (frames bs)). framed d)"
proof (induction bs rule: frames.induct)
  case (1 bs)
  show ?case
  proof (cases "length bs < hdr_size \<or> length bs < hdr_pkt_length bs + hdr_size")
    case True
    then show ?thesis by (subst (1 2 3) frames.simps) simp
  next
    case False
    let ?n = "hdr_pkt_length bs + hdr_size"
    have "frames bs = (take ?n bs # fst (frames (drop ?n bs)), snd (frames (drop ?n bs)))"
      using False by (subst frames.simps) (auto split: prod.split)
    moreover have "framed (take ?n bs)"
      using False by (auto simp: framed_def hdr_pkt_length_take)
    ultimately show ?thesis using 1 [OF False] by simp
  qed
qed

subsection \<open>The input half\<close>

definition pkt_ok :: "pkt \<Rightarrow> bool" where
  "pkt_ok p \<longleftrightarrow> (case pk_data p of None \<Rightarrow> False | Some d \<Rightarrow> framed d \<and> length d = pk_length p)"

text \<open>The bytes of the packet in progress that have arrived, and the whole stream received.\<close>

definition in_partial :: "uni_ds \<Rightarrow> byte list" where
  "in_partial u =
     (case ud_mypkt u of
        None \<Rightarrow> []
      | Some p \<Rightarrow> if pk_length p = 0 then [] else take (ud_partial u) (pkt_bytes p))"

definition in_stream :: "uni_ds \<Rightarrow> byte list" where
  "in_stream u = concat (map pkt_bytes (ud_pkts u)) @ in_partial u @ pending (ud_queue u)"

definition in_inv :: "uni_ds \<Rightarrow> bool" where
  "in_inv u \<longleftrightarrow> queue_inv (ud_queue u) \<and> (\<forall>p \<in> set (ud_pkts u). pkt_ok p) \<and>
     (case ud_mypkt u of
        None \<Rightarrow> True
      | Some p \<Rightarrow> pk_length p = 0 \<or> pkt_ok p \<and> hdr_size \<le> ud_partial u \<and> ud_partial u < pk_length p)"

text \<open>Between the statements of \<^verbatim>\<open>buffer2array\<close> a packet in progress may already be complete.\<close>

definition mid_inv :: "uni_ds \<Rightarrow> bool" where
  "mid_inv u \<longleftrightarrow> queue_inv (ud_queue u) \<and> (\<forall>p \<in> set (ud_pkts u). pkt_ok p) \<and>
     (case ud_mypkt u of
        None \<Rightarrow> False
      | Some p \<Rightarrow> pk_length p = 0 \<or> pkt_ok p \<and> hdr_size \<le> ud_partial u \<and> ud_partial u \<le> pk_length p)"

definition no_header :: "uni_ds \<Rightarrow> bool" where
  "no_header u \<longleftrightarrow> (case ud_mypkt u of None \<Rightarrow> False | Some p \<Rightarrow> pk_length p = 0)"

text \<open>Nothing more to do: the queue is empty, or holds the start of a header at its beginning.\<close>

definition in_idle :: "uni_ds \<Rightarrow> bool" where
  "in_idle u \<longleftrightarrow> queue_data (ud_queue u) = 0 \<or>
     no_header u \<and> queue_data (ud_queue u) < hdr_size
       \<and> queue_available (ud_queue u) = q_size (ud_queue u) - queue_data (ud_queue u)"

lemma b2a_start_spec:
  assumes "in_inv u"
  shows "\<exists>u'. b2a_start u = Some u' \<and> mid_inv u' \<and> in_stream u' = in_stream u \<and> ud_pkts u' = ud_pkts u
           \<and> queue_data (ud_queue u') = queue_data (ud_queue u) \<and> q_size (ud_queue u') = q_size (ud_queue u)
           \<and> (no_header u' \<and> queue_data (ud_queue u') < hdr_size \<longrightarrow>
                queue_available (ud_queue u') = q_size (ud_queue u') - queue_data (ud_queue u'))
           \<and> (ud_partial u' = pk_length (the (ud_mypkt u')) \<longrightarrow> no_header u')"
proof -
  obtain q where q: "queue_zero (ud_queue u) = Some q" "queue_inv q" "pending q = pending (ud_queue u)"
      "q_size q = q_size (ud_queue u)" "queue_available q = q_size (ud_queue u) - queue_data (ud_queue u)"
    using queue_zero_spec [of "ud_queue u"] assms by (auto simp: in_inv_def)
  have "queue_data q = queue_data (ud_queue u)"
    using q(2,3) assms by (simp add: in_inv_def flip: length_pending)
  then show ?thesis
    using q assms
    by (auto simp: b2a_start_def in_inv_def mid_inv_def in_stream_def in_partial_def no_header_def Let_def
        split: option.splits)
qed

lemma framed_fresh:
  assumes "length h = hdr_size"
  shows "mem_write (fresh junk (hdr_pkt_length h + hdr_size)) 0 h
           = Some (h @ drop hdr_size (fresh junk (hdr_pkt_length h + hdr_size)))
         \<and> framed (h @ drop hdr_size (fresh junk (hdr_pkt_length h + hdr_size)))"
  using assms by (auto simp: mem_write_def framed_def hdr_pkt_length_append)

lemma b2a_header_spec:
  assumes "mid_inv u" and "ud_partial u = pk_length (the (ud_mypkt u)) \<longrightarrow> no_header u"
  shows "\<exists>r u'. b2a_header junk u = Some (r, u') \<and> mid_inv u' \<and> in_stream u' = in_stream u \<and> ud_pkts u' = ud_pkts u
           \<and> queue_data (ud_queue u) = r + queue_data (ud_queue u') \<and> q_size (ud_queue u') = q_size (ud_queue u)
           \<and> (no_header u' \<longrightarrow> u' = u \<and> queue_data (ud_queue u) < hdr_size)
           \<and> (r = 0 \<longrightarrow> u' = u)"
proof -
  obtain p where p: "ud_mypkt u = Some p" using assms(1) by (auto simp: mid_inv_def split: option.splits)
  show ?thesis
  proof (cases "pk_length p = 0 \<and> queue_data (ud_queue u) \<ge> hdr_size")
    case False
    then show ?thesis using p assms by (auto simp: b2a_header_def no_header_def)
  next
    case True
    have inv: "queue_inv (ud_queue u)" using assms(1) by (simp add: mid_inv_def)
    obtain q where q: "queue_get (ud_queue u) hdr_size = Some (take hdr_size (pending (ud_queue u)), q)" "queue_inv q"
        "pending q = drop hdr_size (pending (ud_queue u))" "q_size q = q_size (ud_queue u)"
      using queue_get_spec [OF inv, of hdr_size] True by auto
    let ?h = "take hdr_size (pending (ud_queue u))"
    have h: "length ?h = hdr_size" using True inv by (simp add: length_pending)
    let ?n = "hdr_pkt_length ?h + hdr_size"
    let ?d = "?h @ drop hdr_size (fresh junk ?n)"
    let ?u = "u\<lparr>ud_queue := q, ud_hdr := ?h, ud_partial := hdr_size,
                 ud_mypkt := Some \<lparr>pk_length = ?n, pk_data = Some ?d\<rparr>\<rparr>"
    have "b2a_header junk u = Some (hdr_size, ?u)"
      using p True q(1) framed_fresh [OF h, of junk] by (simp add: b2a_header_def Let_def)
    moreover have "queue_data (ud_queue u) = hdr_size + queue_data q"
      using True q(2,3) inv by (simp flip: length_pending)
    moreover have "in_stream ?u = in_stream u"
      using p True q(3) h by (simp add: in_stream_def in_partial_def pkt_bytes_def hdr_size_def)
    moreover have "mid_inv ?u"
      using assms(1) q(2) framed_fresh [OF h, of junk] h
      by (simp add: mid_inv_def pkt_ok_def)
    moreover have "\<not> no_header ?u" and "hdr_size \<noteq> 0" by (simp_all add: no_header_def hdr_size_def)
    ultimately show ?thesis using q(4) by fastforce
  qed
qed

lemma b2a_payload_spec:
  assumes "mid_inv u"
  shows "\<exists>r u'. b2a_payload u = Some (r, u') \<and> mid_inv u' \<and> in_stream u' = in_stream u \<and> ud_pkts u' = ud_pkts u
           \<and> queue_data (ud_queue u) = r + queue_data (ud_queue u') \<and> q_size (ud_queue u') = q_size (ud_queue u)
           \<and> (no_header u' \<longrightarrow> u' = u)
           \<and> (r = 0 \<longrightarrow> no_header u' \<or> queue_data (ud_queue u) = 0 \<or> ud_partial u = pk_length (the (ud_mypkt u)))
           \<and> (no_header u \<longrightarrow> u' = u)"
proof -
  obtain p where p: "ud_mypkt u = Some p" using assms(1) by (auto simp: mid_inv_def split: option.splits)
  show ?thesis
  proof (cases "pk_length p > 0 \<and> queue_data (ud_queue u) \<noteq> 0")
    case False
    then show ?thesis using p assms by (auto simp: b2a_payload_def no_header_def)
  next
    case True
    have inv: "queue_inv (ud_queue u)" using assms(1) by (simp add: mid_inv_def)
    obtain d where d: "pk_data p = Some d" "framed d" "length d = pk_length p"
        "hdr_size \<le> ud_partial u" "ud_partial u \<le> length d"
      using p True assms by (auto simp: mid_inv_def pkt_ok_def split: option.splits)
    define b where "b = (if queue_data (ud_queue u) > pk_length p - ud_partial u
                         then pk_length p - ud_partial u else queue_data (ud_queue u))"
    have b: "b \<le> queue_data (ud_queue u)" "ud_partial u + b \<le> length d" using d by (auto simp: b_def)
    let ?bs = "take b (pending (ud_queue u))"
    have lbs: "length ?bs = b" using b inv by (simp add: length_pending)
    obtain q where q: "queue_get (ud_queue u) b = Some (?bs, q)" "queue_inv q"
        "pending q = drop b (pending (ud_queue u))" "q_size q = q_size (ud_queue u)"
      using queue_get_spec [OF inv b(1)] by auto
    let ?d = "take (ud_partial u) d @ ?bs @ drop (ud_partial u + b) d"
    let ?u = "u\<lparr>ud_queue := q, ud_partial := ud_partial u + b, ud_mypkt := Some (p\<lparr>pk_data := Some ?d\<rparr>)\<rparr>"
    have "mem_write d (ud_partial u) ?bs = Some ?d" using b lbs by (simp add: mem_write_def)
    then have "b2a_payload u = Some (b, ?u)"
      using p True q(1) d(1) by (simp add: b2a_payload_def b_def [symmetric])
    moreover have "hdr_pkt_length ?d = hdr_pkt_length d" and "length ?d = length d"
      using d b lbs by (simp_all add: hdr_pkt_length_def hdr_size_def)
    then have "mid_inv ?u" using assms(1) q(2) d b by (simp add: mid_inv_def pkt_ok_def framed_def)
    moreover have "in_stream ?u = in_stream u"
      using p True q(3) d b lbs by (simp add: in_stream_def in_partial_def pkt_bytes_def)
    moreover have "queue_data (ud_queue u) = b + queue_data q"
      using q(2,3) inv b by (simp flip: length_pending)
    moreover have "\<not> no_header ?u" and "\<not> no_header u" using True p by (simp_all add: no_header_def)
    moreover have "b = 0 \<longrightarrow> ud_partial u = pk_length p" using True d by (auto simp: b_def split: if_splits)
    ultimately show ?thesis using q(4) p by auto
  qed
qed

lemma b2a_complete_spec:
  assumes "mid_inv u"
  shows "\<exists>n u'. b2a_complete u = Some (n, u') \<and> in_inv u' \<and> in_stream u' = in_stream u
           \<and> length (ud_pkts u') = length (ud_pkts u) + n \<and> ud_queue u' = ud_queue u
           \<and> (no_header u \<longrightarrow> u' = u)"
proof -
  obtain p where p: "ud_mypkt u = Some p" using assms(1) by (auto simp: mid_inv_def split: option.splits)
  show ?thesis
  proof (cases "pk_length p > 0 \<and> pk_length p = ud_partial u")
    case True
    then obtain d where "pk_data p = Some d" "length d = ud_partial u"
      using p assms by (auto simp: mid_inv_def pkt_ok_def split: option.splits)
    then show ?thesis
      using True p assms
      by (simp add: b2a_complete_def in_inv_def mid_inv_def in_stream_def in_partial_def no_header_def pkt_bytes_def)
  next
    case False
    then show ?thesis using p assms by (auto simp: b2a_complete_def in_inv_def mid_inv_def)
  qed
qed

lemma buffer2array_spec:
  assumes "in_inv (ds_input ds)"
  shows "\<exists>r u n. buffer2array junk ds = Some (r, ds\<lparr>ds_input := u, ds_pkts_recv := ds_pkts_recv ds + n\<rparr>)
           \<and> in_inv u \<and> in_stream u = in_stream (ds_input ds)
           \<and> length (ud_pkts u) = length (ud_pkts (ds_input ds)) + n
           \<and> queue_data (ud_queue (ds_input ds)) = r + queue_data (ud_queue u)
           \<and> q_size (ud_queue u) = q_size (ud_queue (ds_input ds))
           \<and> (r = 0 \<longrightarrow> in_idle u)"
proof (cases "queue_data (ud_queue (ds_input ds)) = 0")
  case True
  then show ?thesis
    using assms
    by (intro exI [of _ 0] exI [of _ "ds_input ds"]) (simp add: buffer2array_def in_idle_def)
next
  case False
  obtain u1 where u1: "b2a_start (ds_input ds) = Some u1" "mid_inv u1" "in_stream u1 = in_stream (ds_input ds)"
      "ud_pkts u1 = ud_pkts (ds_input ds)" "queue_data (ud_queue u1) = queue_data (ud_queue (ds_input ds))"
      "q_size (ud_queue u1) = q_size (ud_queue (ds_input ds))"
      "no_header u1 \<and> queue_data (ud_queue u1) < hdr_size \<longrightarrow>
         queue_available (ud_queue u1) = q_size (ud_queue u1) - queue_data (ud_queue u1)"
      "ud_partial u1 = pk_length (the (ud_mypkt u1)) \<longrightarrow> no_header u1"
    using b2a_start_spec [OF assms] by blast
  obtain r1 u2 where u2: "b2a_header junk u1 = Some (r1, u2)" "mid_inv u2" "in_stream u2 = in_stream u1"
      "ud_pkts u2 = ud_pkts u1" "queue_data (ud_queue u1) = r1 + queue_data (ud_queue u2)"
      "q_size (ud_queue u2) = q_size (ud_queue u1)"
      "no_header u2 \<longrightarrow> u2 = u1 \<and> queue_data (ud_queue u1) < hdr_size" "r1 = 0 \<longrightarrow> u2 = u1"
    using b2a_header_spec [OF u1(2,8)] by blast
  obtain r2 u3 where u3: "b2a_payload u2 = Some (r2, u3)" "mid_inv u3" "in_stream u3 = in_stream u2"
      "ud_pkts u3 = ud_pkts u2" "queue_data (ud_queue u2) = r2 + queue_data (ud_queue u3)"
      "q_size (ud_queue u3) = q_size (ud_queue u2)" "no_header u3 \<longrightarrow> u3 = u2"
      "r2 = 0 \<longrightarrow> no_header u3 \<or> queue_data (ud_queue u2) = 0 \<or> ud_partial u2 = pk_length (the (ud_mypkt u2))"
      "no_header u2 \<longrightarrow> u3 = u2"
    using b2a_payload_spec [OF u2(2)] by blast
  obtain n u4 where u4: "b2a_complete u3 = Some (n, u4)" "in_inv u4" "in_stream u4 = in_stream u3"
      "length (ud_pkts u4) = length (ud_pkts u3) + n" "ud_queue u4 = ud_queue u3" "no_header u3 \<longrightarrow> u4 = u3"
    using b2a_complete_spec [OF u3(2)] by blast
  have "in_idle u4" if "r1 + r2 = 0"
  proof -
    have r: "r1 = 0" "r2 = 0" using that by simp_all
    then have "u2 = u1" using u2(8) by blast
    have "queue_data (ud_queue u2) \<noteq> 0" using False u1(5) u2(5) r by linarith
    then have h: "no_header u3"
      using r(2) u3(8,9) u1(8) unfolding \<open>u2 = u1\<close> by metis
    then have "u3 = u2" using u3(7) by blast
    with h have "u4 = u2" using u4(6) by blast
    with h \<open>u3 = u2\<close> have "no_header u4" by simp
    moreover have "queue_data (ud_queue u4) < hdr_size"
      using h u2(7) unfolding \<open>u4 = u2\<close> \<open>u3 = u2\<close> \<open>u2 = u1\<close> by blast
    ultimately show ?thesis
      using u1(7) unfolding in_idle_def \<open>u4 = u2\<close> \<open>u2 = u1\<close> by blast
  qed
  moreover have "buffer2array junk ds = Some (r1 + r2, ds\<lparr>ds_input := u4, ds_pkts_recv := ds_pkts_recv ds + n\<rparr>)"
    using False by (simp add: buffer2array_def u1(1) u2(1) u3(1) u4(1))
  moreover have "queue_data (ud_queue (ds_input ds)) = r1 + r2 + queue_data (ud_queue u4)"
    using u1(5) u2(5) u3(5) u4(5) by simp
  ultimately show ?thesis
    using u1(3,4,6) u2(3,4,6) u3(3,4,6) u4 by (intro exI [of _ "r1 + r2"] exI [of _ u4] exI [of _ n]) simp
qed

text \<open>The loop of \<^verbatim>\<open>buffer2array_2\<close> returns: every round but the last consumes bytes of the queue.\<close>

lemma buffer2array_loop_spec:
  assumes "in_inv (ds_input ds)" and "0 < ds_fd ds"
  shows "\<exists>u n. buffer2array_loop junk ds = Some (ds\<lparr>ds_input := u, ds_pkts_recv := ds_pkts_recv ds + n\<rparr>)
           \<and> in_inv u \<and> in_stream u = in_stream (ds_input ds)
           \<and> length (ud_pkts u) = length (ud_pkts (ds_input ds)) + n
           \<and> q_size (ud_queue u) = q_size (ud_queue (ds_input ds)) \<and> in_idle u"
  using assms
proof (induction "queue_data (ud_queue (ds_input ds))" arbitrary: ds rule: less_induct)
  case less
  obtain r u n where b: "buffer2array junk ds = Some (r, ds\<lparr>ds_input := u, ds_pkts_recv := ds_pkts_recv ds + n\<rparr>)"
      "in_inv u" "in_stream u = in_stream (ds_input ds)" "length (ud_pkts u) = length (ud_pkts (ds_input ds)) + n"
      "queue_data (ud_queue (ds_input ds)) = r + queue_data (ud_queue u)"
      "q_size (ud_queue u) = q_size (ud_queue (ds_input ds))" "r = 0 \<longrightarrow> in_idle u"
    using buffer2array_spec [OF less.prems(1)] by blast
  let ?ds = "ds\<lparr>ds_input := u, ds_pkts_recv := ds_pkts_recv ds + n\<rparr>"
  show ?case
  proof (cases "r = 0")
    case True
    then show ?thesis
      using b by (subst buffer2array_loop.simps) (auto intro!: exI [of _ u] exI [of _ n])
  next
    case False
    then have "buffer2array_loop junk ds = buffer2array_loop junk ?ds"
      using b(1) less.prems(2) by (subst buffer2array_loop.simps) simp
    moreover obtain u' n' where "buffer2array_loop junk ?ds
          = Some (?ds\<lparr>ds_input := u', ds_pkts_recv := ds_pkts_recv ?ds + n'\<rparr>)"
        "in_inv u'" "in_stream u' = in_stream u" "length (ud_pkts u') = length (ud_pkts u) + n'"
        "q_size (ud_queue u') = q_size (ud_queue u)" "in_idle u'"
      using less.hyps [of ?ds] False b(2,5) less.prems(2) by auto
    ultimately show ?thesis
      using b by (intro exI [of _ u'] exI [of _ "n + n'"]) (simp add: add.assoc)
  qed
qed

text \<open>Once idle, the packets assembled are those of the reference splitting.\<close>

lemma in_idle_frames:
  assumes "in_inv u" and "in_idle u"
  shows "frames (in_stream u) = (map pkt_bytes (ud_pkts u), in_partial u @ pending (ud_queue u))"
proof -
  have "\<forall>d \<in> set (map pkt_bytes (ud_pkts u)). framed d"
    using assms(1) by (auto simp: in_inv_def pkt_ok_def pkt_bytes_def split: option.splits)
  moreover have "frames (in_partial u @ pending (ud_queue u)) = ([], in_partial u @ pending (ud_queue u))"
  proof (cases "in_partial u = []")
    case True
    then have "length (pending (ud_queue u)) < hdr_size"
      using assms by (auto simp: in_idle_def in_inv_def length_pending hdr_size_def)
    with True show ?thesis by (simp add: frames_short)
  next
    case False
    then obtain p d where p: "ud_mypkt u = Some p" "pk_data p = Some d" "framed d" "length d = pk_length p"
        "hdr_size \<le> ud_partial u" "ud_partial u < length d" "in_partial u = take (ud_partial u) d" "pk_length p \<noteq> 0"
      using assms(1)
      by (auto simp: in_inv_def in_partial_def pkt_ok_def pkt_bytes_def split: option.splits if_splits)
    then have "queue_data (ud_queue u) = 0" using assms(2) by (simp add: in_idle_def no_header_def)
    then have "pending (ud_queue u) = []" by (simp add: pending_def)
    moreover have "length (in_partial u) < hdr_pkt_length (in_partial u) + hdr_size"
      using p by (simp add: hdr_pkt_length_take framed_def)
    ultimately show ?thesis by (simp add: frames_incomplete)
  qed
  ultimately show ?thesis by (simp add: in_stream_def frames_concat)
qed

lemma in_idle_room:
  "in_inv u \<Longrightarrow> in_idle u \<Longrightarrow> q_size (ud_queue u) < queue_available (ud_queue u) + hdr_size"
  by (auto simp: in_idle_def in_inv_def queue_empty_available hdr_size_def)

subsection \<open>Receiving under any schedule\<close>

text \<open>
  The reading side of a connection: the socket holds the bytes \<open>net\<close>, and each round the kernel
  delivers up to \<open>n\<close> of them, never more than the room the stream offers, after which the session
  turns them into packets. The rounds are the rounds of \<^verbatim>\<open>read_from_net_2\<close> and \<^verbatim>\<open>buffer2array_2\<close>.
\<close>

fun receive_rounds ::
    "(nat \<Rightarrow> byte) \<Rightarrow> nat list \<Rightarrow> byte list \<Rightarrow> data_stream \<Rightarrow> ds_env
       \<Rightarrow> (byte list \<times> data_stream \<times> ds_env) option" where
  "receive_rounds junk [] net myds env = Some (net, myds, env)"
| "receive_rounds junk (n # ns) net myds env = do {
     let bytes = take (min n (queue_available (ud_queue (ds_input myds)))) net;
     (r, myds, env) \<leftarrow> read_from_net (Some bytes) myds env;
     myds \<leftarrow> buffer2array_loop junk myds;
     receive_rounds junk ns (drop (length bytes) net) myds env
   }"

lemma in_inv_queue: "in_inv u \<Longrightarrow> queue_inv q \<Longrightarrow> in_inv (u\<lparr>ud_queue := q\<rparr>)"
  by (cases "ud_mypkt u") (simp_all add: in_inv_def)

lemma in_stream_queue:
  "in_stream (u\<lparr>ud_queue := q\<rparr>) = concat (map pkt_bytes (ud_pkts u)) @ in_partial u @ pending q"
  by (cases "ud_mypkt u") (simp_all add: in_stream_def in_partial_def)

lemma read_from_net_spec:
  assumes "in_inv (ds_input ds)" and "length bs \<le> queue_available (ud_queue (ds_input ds))"
  shows "\<exists>r ds' env'. read_from_net (Some bs) ds env = Some (r, ds', env') \<and> in_inv (ds_input ds')
           \<and> in_stream (ds_input ds') = in_stream (ds_input ds) @ bs
           \<and> ud_pkts (ds_input ds') = ud_pkts (ds_input ds)
           \<and> q_size (ud_queue (ds_input ds')) = q_size (ud_queue (ds_input ds))
           \<and> ds_pkts_recv ds' = ds_pkts_recv ds \<and> ds_fd ds' = ds_fd ds
           \<and> bs_recv (ds_bytes_info ds') = bs_recv (ds_bytes_info ds) + length bs"
proof (cases "length bs < 1")
  case True
  then show ?thesis using assms(1) by (simp add: read_from_net_def shut_soft_def)
next
  case False
  obtain q where q: "queue_put (ud_queue (ds_input ds)) bs = Some q" "queue_inv q"
      "pending q = pending (ud_queue (ds_input ds)) @ bs" "q_size q = q_size (ud_queue (ds_input ds))"
    using queue_put_spec [OF _ assms(2)] assms(1) by (auto simp: in_inv_def)
  let ?ds = "ds\<lparr>ds_input := (ds_input ds)\<lparr>ud_queue := q\<rparr>,
                 ds_bytes_info := (ds_bytes_info ds)\<lparr>bs_recv := bs_recv (ds_bytes_info ds) + length bs\<rparr>\<rparr>"
  have "\<exists>env'. read_from_net (Some bs) ds env = Some (int (length bs), ?ds, env')"
    using False q(1) by (simp add: read_from_net_def Let_def)
  moreover have "in_inv (ds_input ?ds)" using q(2) assms(1) by (simp add: in_inv_queue)
  moreover have "in_stream (ds_input ?ds) = in_stream (ds_input ds) @ bs"
    using q(3) by (simp add: in_stream_queue) (simp add: in_stream_def)
  ultimately show ?thesis
    using q(4) by (intro exI [of _ "int (length bs)"] exI [of _ ?ds]) simp
qed

lemma receive_rounds_spec:
  assumes "in_inv (ds_input ds)" and "in_idle (ds_input ds)" and "0 < ds_fd ds"
  shows "\<exists>R net' ds' env'. receive_rounds junk ns net ds env = Some (net', ds', env') \<and> net = R @ net'
           \<and> in_inv (ds_input ds') \<and> in_idle (ds_input ds')
           \<and> in_stream (ds_input ds') = in_stream (ds_input ds) @ R
           \<and> length (ud_pkts (ds_input ds')) + ds_pkts_recv ds = length (ud_pkts (ds_input ds)) + ds_pkts_recv ds'
           \<and> bs_recv (ds_bytes_info ds') = bs_recv (ds_bytes_info ds) + length R
           \<and> ((\<forall>n \<in> set ns. 0 < n) \<and> hdr_size \<le> q_size (ud_queue (ds_input ds)) \<longrightarrow>
                min (length ns) (length net) \<le> length R)"
  using assms
proof (induction ns arbitrary: net ds env)
  case Nil
  then show ?case by auto
next
  case (Cons n ns)
  let ?room = "queue_available (ud_queue (ds_input ds))"
  define bs where "bs = take (min n ?room) net"
  have lbs: "length bs \<le> ?room" by (simp add: bs_def)
  obtain r d1 e1 where 1: "read_from_net (Some bs) ds env = Some (r, d1, e1)" "in_inv (ds_input d1)"
      "in_stream (ds_input d1) = in_stream (ds_input ds) @ bs" "ud_pkts (ds_input d1) = ud_pkts (ds_input ds)"
      "q_size (ud_queue (ds_input d1)) = q_size (ud_queue (ds_input ds))"
      "ds_pkts_recv d1 = ds_pkts_recv ds" "ds_fd d1 = ds_fd ds"
      "bs_recv (ds_bytes_info d1) = bs_recv (ds_bytes_info ds) + length bs"
    using read_from_net_spec [OF Cons.prems(1) lbs] by blast
  have fd: "0 < ds_fd d1" using 1(7) Cons.prems(3) by simp
  obtain u k where 2: "buffer2array_loop junk d1 = Some (d1\<lparr>ds_input := u, ds_pkts_recv := ds_pkts_recv d1 + k\<rparr>)"
      "in_inv u" "in_stream u = in_stream (ds_input d1)" "length (ud_pkts u) = length (ud_pkts (ds_input d1)) + k"
      "q_size (ud_queue u) = q_size (ud_queue (ds_input d1))" "in_idle u"
    using buffer2array_loop_spec [OF 1(2) fd] by blast
  define d2 where "d2 = d1\<lparr>ds_input := u, ds_pkts_recv := ds_pkts_recv d1 + k\<rparr>"
  have d2: "in_inv (ds_input d2)" "in_idle (ds_input d2)" "0 < ds_fd d2"
    using 2(2,6) fd by (simp_all add: d2_def)
  obtain R net' ds' env' where 3:
      "receive_rounds junk ns (drop (length bs) net) d2 e1 = Some (net', ds', env')"
      "drop (length bs) net = R @ net'" "in_inv (ds_input ds')" "in_idle (ds_input ds')"
      "in_stream (ds_input ds') = in_stream (ds_input d2) @ R"
      "length (ud_pkts (ds_input ds')) + ds_pkts_recv d2 = length (ud_pkts (ds_input d2)) + ds_pkts_recv ds'"
      "bs_recv (ds_bytes_info ds') = bs_recv (ds_bytes_info d2) + length R"
      "(\<forall>n \<in> set ns. 0 < n) \<and> hdr_size \<le> q_size (ud_queue (ds_input d2)) \<longrightarrow>
         min (length ns) (length (drop (length bs) net)) \<le> length R"
    using Cons.IH [OF d2, of "drop (length bs) net" e1] by (elim exE conjE) (rule that)
  have "bs = take (length bs) net" by (simp add: bs_def min_def)
  then have "net = (bs @ R) @ net'" using 3(2) append_take_drop_id [of "length bs" net] by simp
  moreover have "(\<forall>n \<in> set (n # ns). 0 < n) \<and> hdr_size \<le> q_size (ud_queue (ds_input ds)) \<longrightarrow>
      min (length (n # ns)) (length net) \<le> length (bs @ R)"
  proof (intro impI, elim conjE)
    assume *: "\<forall>n \<in> set (n # ns). 0 < n" "hdr_size \<le> q_size (ud_queue (ds_input ds))"
    then have "0 < min n ?room" using in_idle_room [OF Cons.prems(1,2)] by simp
    then have "net = [] \<or> 1 \<le> length bs" by (cases net) (simp_all add: bs_def min_def)
    moreover have "min (length ns) (length net - length bs) \<le> length R"
      using 3(8) * 1(5) 2(5) by (simp add: d2_def)
    ultimately show "min (length (n # ns)) (length net) \<le> length (bs @ R)" by auto
  qed
  moreover have "receive_rounds junk (n # ns) net ds env = Some (net', ds', env')"
    using 1(1) 2(1) 3(1) by (simp add: bs_def [symmetric] d2_def [symmetric])
  moreover have "in_stream (ds_input ds') = in_stream (ds_input ds) @ bs @ R"
    using 3(5) 2(3) 1(3) by (simp add: d2_def)
  moreover have "length (ud_pkts (ds_input ds')) + ds_pkts_recv ds = length (ud_pkts (ds_input ds)) + ds_pkts_recv ds'"
    using 3(6) 2(4) 1(4,6) by (simp add: d2_def)
  moreover have "bs_recv (ds_bytes_info ds') = bs_recv (ds_bytes_info ds) + length (bs @ R)"
    using 3(7) 1(8) by (simp add: d2_def)
  ultimately show ?case
    using 3(3,4) by (intro exI [of _ "bs @ R"] exI [of _ net'] exI [of _ ds'] exI [of _ env'] conjI)
qed

lemma new_stream_spec:
  "in_inv (uni_ds_new junk sz) \<and> in_idle (uni_ds_new junk sz) \<and> in_stream (uni_ds_new junk sz) = []
   \<and> q_size (ud_queue (uni_ds_new junk sz)) = sz \<and> ud_pkts (uni_ds_new junk sz) = []"
  using queue_init_spec [of junk sz]
  by (simp add: uni_ds_new_def in_inv_def in_idle_def in_stream_def in_partial_def queue_data_def)
    (simp add: queue_init_def)

subsection \<open>The output half\<close>

definition out_ok :: "pkt \<Rightarrow> bool" where
  "out_ok p \<longleftrightarrow> (case pk_data p of None \<Rightarrow> False | Some d \<Rightarrow> d \<noteq> [] \<and> length d = pk_length p)"

definition out_inv :: "uni_ds \<Rightarrow> bool" where
  "out_inv u \<longleftrightarrow> queue_inv (ud_queue u) \<and> (\<forall>p \<in> set (ud_pkts u). out_ok p) \<and>
     (case ud_mypkt u of
        None \<Rightarrow> ud_partial u = 0
      | Some p \<Rightarrow> out_ok p \<and> 0 < ud_partial u \<and> ud_partial u < pk_length p)"

text \<open>The bytes that still have to enter the queue, and all the bytes that still have to go out.\<close>

definition out_rest :: "uni_ds \<Rightarrow> byte list" where
  "out_rest u =
     (case ud_mypkt u of None \<Rightarrow> [] | Some p \<Rightarrow> drop (ud_partial u) (pkt_bytes p))
     @ concat (map pkt_bytes (ud_pkts u))"

definition out_stream :: "uni_ds \<Rightarrow> byte list" where
  "out_stream u = pending (ud_queue u) @ out_rest u"

definition out_count :: "uni_ds \<Rightarrow> nat" where
  "out_count u = length (ud_pkts u) + (if ud_mypkt u = None then 0 else 1)"

lemma out_ok_length: "out_ok p \<Longrightarrow> 0 < pk_length p"
  by (auto simp: out_ok_def simp flip: length_greater_0_conv split: option.splits)

lemma a2b_copy_spec:
  assumes "queue_inv (ud_queue u)" and "0 < queue_available (ud_queue u)" and "\<forall>p \<in> set (ud_pkts u). out_ok p"
    and "ud_mypkt u = Some p" and "out_ok p" and "ud_partial u < pk_length p"
  shows "\<exists>b n u'. a2b_copy u = Some (b, n, u') \<and> out_inv u' \<and> out_stream u' = out_stream u \<and> 0 < b
           \<and> queue_available (ud_queue u) = b + queue_available (ud_queue u')
           \<and> q_size (ud_queue u') = q_size (ud_queue u) \<and> out_count u = n + out_count u'"
proof -
  obtain d where d: "pk_data p = Some d" "length d = pk_length p" using assms(5) by (auto simp: out_ok_def split: option.splits)
  define b where "b = (if queue_available (ud_queue u) > pk_length p - ud_partial u
                       then pk_length p - ud_partial u else queue_available (ud_queue u))"
  have b: "0 < b" "b \<le> queue_available (ud_queue u)" "ud_partial u + b \<le> length d"
    using assms(2,6) d by (auto simp: b_def)
  let ?bs = "take b (drop (ud_partial u) d)"
  have lbs: "length ?bs = b" using b by simp
  obtain q where q: "queue_put (ud_queue u) ?bs = Some q" "queue_inv q" "pending q = pending (ud_queue u) @ ?bs"
      "q_size q = q_size (ud_queue u)" "queue_available q = queue_available (ud_queue u) - b"
    using queue_put_spec [OF assms(1), of ?bs] b(2) lbs by auto
  let ?u = "u\<lparr>ud_queue := q, ud_partial := ud_partial u + b\<rparr>"
  let ?v = "if ud_partial u + b = pk_length p then (1, ?u\<lparr>ud_mypkt := None, ud_partial := 0\<rparr>) else (0, ?u)"
  have "mem_read d (ud_partial u) b = Some ?bs" using b by (simp add: mem_read_def)
  then have "a2b_copy u = Some (b, ?v)"
    using assms(4) d(1) q(1) by (simp add: a2b_copy_def b_def [symmetric] Let_def)
  moreover have split: "drop (ud_partial u) d = ?bs @ drop (ud_partial u + b) d"
    using append_take_drop_id [of b "drop (ud_partial u) d"] by (simp add: add.commute)
  have "out_stream (snd ?v) = out_stream u"
    using assms(4) d q(3) split by (simp add: out_stream_def out_rest_def pkt_bytes_def)
  moreover have "out_inv (snd ?v)"
    using assms(3-6) b d q(2) by (simp add: out_inv_def)
  ultimately show ?thesis
    using b q(4,5) assms(4)
    by (intro exI3 [of _ b "fst ?v" "snd ?v"]) (auto simp: out_count_def split: if_splits)
qed

lemma array2buffer_spec:
  assumes "out_inv (ds_output ds)"
  shows "\<exists>r n u. array2buffer ds = Some (r, ds\<lparr>ds_output := u, ds_pkts_sent := ds_pkts_sent ds + n\<rparr>)
           \<and> out_inv u \<and> out_stream u = out_stream (ds_output ds)
           \<and> queue_available (ud_queue (ds_output ds)) = r + queue_available (ud_queue u)
           \<and> q_size (ud_queue u) = q_size (ud_queue (ds_output ds))
           \<and> out_count (ds_output ds) = n + out_count u
           \<and> (r = 0 \<longrightarrow> queue_available (ud_queue u) = 0 \<or> out_rest u = [])"
proof -
  let ?u = "ds_output ds"
  consider (full) "queue_available (ud_queue ?u) = 0"
    | (none) "queue_available (ud_queue ?u) \<noteq> 0" "ud_mypkt ?u = None" "ud_pkts ?u = []"
    | (fetch) p ps where "queue_available (ud_queue ?u) \<noteq> 0" "ud_mypkt ?u = None" "ud_pkts ?u = p # ps"
    | (more) p where "queue_available (ud_queue ?u) \<noteq> 0" "ud_mypkt ?u = Some p"
    by (cases "ud_mypkt ?u"; cases "ud_pkts ?u") auto
  then show ?thesis
  proof cases
    case full
    then show ?thesis using assms
      by (intro exI [of _ 0] exI [of _ ?u]) (simp add: array2buffer_def)
  next
    case none
    then show ?thesis using assms
      by (intro exI [of _ 0] exI [of _ ?u]) (simp add: array2buffer_def a2b_next_def out_inv_def out_rest_def)
  next
    case fetch
    let ?v = "?u\<lparr>ud_mypkt := Some p, ud_pkts := ps\<rparr>"
    have v: "a2b_next ?u = Some ?v" "out_ok p" "ud_partial ?u = 0" "out_stream ?v = out_stream ?u" "out_count ?v = out_count ?u"
      using fetch assms by (auto simp: a2b_next_def out_inv_def out_stream_def out_rest_def out_count_def)
    obtain b n u where u: "a2b_copy ?v = Some (b, n, u)" "out_inv u" "out_stream u = out_stream ?v" "0 < b"
        "queue_available (ud_queue ?v) = b + queue_available (ud_queue u)"
        "q_size (ud_queue u) = q_size (ud_queue ?v)" "out_count ?v = n + out_count u"
      using a2b_copy_spec [of ?v p] fetch assms v(2,3) out_ok_length [OF v(2)] by (auto simp: out_inv_def)
    then show ?thesis
      using fetch(1) v
      by (intro exI3 [of _ b n u]) (simp add: array2buffer_def)
  next
    case more
    have v: "a2b_next ?u = Some ?u" "out_ok p" "ud_partial ?u < pk_length p"
      using more assms by (auto simp: a2b_next_def out_inv_def)
    obtain b n u where u: "a2b_copy ?u = Some (b, n, u)" "out_inv u" "out_stream u = out_stream ?u" "0 < b"
        "queue_available (ud_queue ?u) = b + queue_available (ud_queue u)"
        "q_size (ud_queue u) = q_size (ud_queue ?u)" "out_count ?u = n + out_count u"
      using a2b_copy_spec [of ?u p] more assms v(2,3) by (auto simp: out_inv_def)
    then show ?thesis
      using more(1) v(1)
      by (intro exI3 [of _ b n u]) (simp add: array2buffer_def)
  qed
qed

lemma array2buffer_loop_spec:
  assumes "out_inv (ds_output ds)"
  shows "\<exists>n u. array2buffer_loop ds = Some (ds\<lparr>ds_output := u, ds_pkts_sent := ds_pkts_sent ds + n\<rparr>)
           \<and> out_inv u \<and> out_stream u = out_stream (ds_output ds)
           \<and> q_size (ud_queue u) = q_size (ud_queue (ds_output ds))
           \<and> out_count (ds_output ds) = n + out_count u
           \<and> (queue_available (ud_queue u) = 0 \<or> out_rest u = [])"
  using assms
proof (induction "queue_available (ud_queue (ds_output ds))" arbitrary: ds rule: less_induct)
  case less
  obtain r n u where a: "array2buffer ds = Some (r, ds\<lparr>ds_output := u, ds_pkts_sent := ds_pkts_sent ds + n\<rparr>)"
      "out_inv u" "out_stream u = out_stream (ds_output ds)"
      "queue_available (ud_queue (ds_output ds)) = r + queue_available (ud_queue u)"
      "q_size (ud_queue u) = q_size (ud_queue (ds_output ds))" "out_count (ds_output ds) = n + out_count u"
      "r = 0 \<longrightarrow> queue_available (ud_queue u) = 0 \<or> out_rest u = []"
    using array2buffer_spec [OF less.prems] by (elim exE conjE) (rule that)
  define d where "d = ds\<lparr>ds_output := u, ds_pkts_sent := ds_pkts_sent ds + n\<rparr>"
  have d: "ds_output d = u" by (simp add: d_def)
  show ?case
  proof (cases "r = 0")
    case True
    then have "array2buffer_loop ds = Some d"
      using a(1) by (subst array2buffer_loop.simps) (simp add: d_def)
    with True a show ?thesis by (intro exI [of _ n] exI [of _ u]) (simp add: d_def)
  next
    case False
    then have loop: "array2buffer_loop ds = array2buffer_loop d"
      using a(1) by (subst array2buffer_loop.simps) (simp add: d_def)
    have "queue_available (ud_queue (ds_output d)) < queue_available (ud_queue (ds_output ds))"
      using False a(4) d by simp
    from less.hyps [OF this] a(2) d obtain n' u' where
        "array2buffer_loop d = Some (d\<lparr>ds_output := u', ds_pkts_sent := ds_pkts_sent d + n'\<rparr>)"
        "out_inv u'" "out_stream u' = out_stream u" "q_size (ud_queue u') = q_size (ud_queue u)"
        "out_count u = n' + out_count u'" "queue_available (ud_queue u') = 0 \<or> out_rest u' = []"
      by auto
    with loop a show ?thesis
      by (intro exI [of _ "n + n'"] exI [of _ u']) (simp add: d_def add.assoc)
  qed
qed

subsection \<open>Sending under any schedule\<close>

text \<open>
  The writing side: each round the session fills the queue (\<^verbatim>\<open>array2buffer_2\<close>) and the kernel
  accepts up to \<open>n\<close> of its bytes (\<^verbatim>\<open>write_to_net_2\<close>).
\<close>

fun send_rounds :: "nat list \<Rightarrow> data_stream \<Rightarrow> ds_env \<Rightarrow> (data_stream \<times> ds_env) option" where
  "send_rounds [] myds env = Some (myds, env)"
| "send_rounds (n # ns) myds env = do {
     myds \<leftarrow> array2buffer_loop myds;
     (r, myds, env) \<leftarrow> write_to_net (Some (min n (queue_data (ud_queue (ds_output myds))))) myds env;
     send_rounds ns myds env
   }"

lemma out_inv_queue: "out_inv u \<Longrightarrow> queue_inv q \<Longrightarrow> out_inv (u\<lparr>ud_queue := q\<rparr>)"
  by (cases "ud_mypkt u") (simp_all add: out_inv_def)

lemma out_rest_queue [simp]: "out_rest (u\<lparr>ud_queue := q\<rparr>) = out_rest u"
  by (cases "ud_mypkt u") (simp_all add: out_rest_def)

lemma write_to_net_spec:
  assumes "out_inv (ds_output ds)" and "n \<le> queue_data (ud_queue (ds_output ds))"
  shows "\<exists>r ds' env'. write_to_net (Some n) ds env = Some (r, ds', env') \<and> out_inv (ds_output ds')
           \<and> out_stream (ds_output ds') = drop n (out_stream (ds_output ds))
           \<and> en_wire env' = en_wire env @ take n (out_stream (ds_output ds))
           \<and> q_size (ud_queue (ds_output ds')) = q_size (ud_queue (ds_output ds))
           \<and> bs_sent (ds_bytes_info ds') = bs_sent (ds_bytes_info ds) + n
           \<and> out_count (ds_output ds') = out_count (ds_output ds) \<and> ds_pkts_sent ds' = ds_pkts_sent ds"
proof (cases "queue_data (ud_queue (ds_output ds)) = 0")
  case True
  then show ?thesis using assms by (simp add: write_to_net_def)
next
  case False
  have inv: "queue_inv (ud_queue (ds_output ds))" using assms(1) by (simp add: out_inv_def)
  have n: "n \<le> length (pending (ud_queue (ds_output ds)))" using assms(2) inv by (simp add: length_pending)
  obtain q where q: "queue_get (ud_queue (ds_output ds)) n = Some (take n (pending (ud_queue (ds_output ds))), q)"
      "queue_inv q" "pending q = drop n (pending (ud_queue (ds_output ds)))" "q_size q = q_size (ud_queue (ds_output ds))"
    using queue_get_spec [OF inv assms(2)] by auto
  define d where "d = ds\<lparr>ds_output := (ds_output ds)\<lparr>ud_queue := q\<rparr>,
                         ds_bytes_info := (ds_bytes_info ds)\<lparr>bs_sent := bs_sent (ds_bytes_info ds) + n\<rparr>\<rparr>"
  have "\<exists>env'. write_to_net (Some n) ds env = Some (int n, d, env')
          \<and> en_wire env' = en_wire env @ take n (pending (ud_queue (ds_output ds)))"
    using False q(1) by (simp add: write_to_net_def Let_def d_def)
  then obtain env' where env': "write_to_net (Some n) ds env = Some (int n, d, env')"
      "en_wire env' = en_wire env @ take n (pending (ud_queue (ds_output ds)))" by blast
  have "out_inv (ds_output d)" using assms(1) q(2) by (simp add: d_def out_inv_queue)
  moreover have "out_stream (ds_output d) = drop n (out_stream (ds_output ds))"
    using q(3) n by (simp add: d_def out_stream_def)
  moreover have "take n (out_stream (ds_output ds)) = take n (pending (ud_queue (ds_output ds)))"
    using n by (simp add: out_stream_def)
  ultimately show ?thesis
    using env' q(4) by (intro exI3 [of _ "int n" d env']) (simp add: d_def out_count_def)
qed

lemma send_rounds_spec:
  assumes "out_inv (ds_output ds)"
  shows "\<exists>W ds' env'. send_rounds ns ds env = Some (ds', env') \<and> out_inv (ds_output ds')
           \<and> out_stream (ds_output ds) = W @ out_stream (ds_output ds')
           \<and> en_wire env' = en_wire env @ W
           \<and> bs_sent (ds_bytes_info ds') = bs_sent (ds_bytes_info ds) + length W
           \<and> out_count (ds_output ds) + ds_pkts_sent ds = out_count (ds_output ds') + ds_pkts_sent ds'
           \<and> ((\<forall>n \<in> set ns. 0 < n) \<and> 0 < q_size (ud_queue (ds_output ds)) \<longrightarrow>
                min (length ns) (length (out_stream (ds_output ds))) \<le> length W)"
  using assms
proof (induction ns arbitrary: ds env)
  case Nil
  then show ?case by (intro exI3 [of _ "[]" ds env]) simp
next
  case (Cons n ns)
  obtain k u where 1: "array2buffer_loop ds = Some (ds\<lparr>ds_output := u, ds_pkts_sent := ds_pkts_sent ds + k\<rparr>)"
      "out_inv u" "out_stream u = out_stream (ds_output ds)" "q_size (ud_queue u) = q_size (ud_queue (ds_output ds))"
      "out_count (ds_output ds) = k + out_count u" "queue_available (ud_queue u) = 0 \<or> out_rest u = []"
    using array2buffer_loop_spec [OF Cons.prems] by (elim exE conjE) (rule that)
  define d1 where "d1 = ds\<lparr>ds_output := u, ds_pkts_sent := ds_pkts_sent ds + k\<rparr>"
  define m where "m = min n (queue_data (ud_queue u))"
  have d1: "out_inv (ds_output d1)" "m \<le> queue_data (ud_queue (ds_output d1))" "ds_output d1 = u"
    using 1(2) by (simp_all add: d1_def m_def)
  obtain r d2 e2 where 2: "write_to_net (Some m) d1 env = Some (r, d2, e2)" "out_inv (ds_output d2)"
      "out_stream (ds_output d2) = drop m (out_stream (ds_output d1))"
      "en_wire e2 = en_wire env @ take m (out_stream (ds_output d1))"
      "q_size (ud_queue (ds_output d2)) = q_size (ud_queue (ds_output d1))"
      "bs_sent (ds_bytes_info d2) = bs_sent (ds_bytes_info d1) + m"
      "out_count (ds_output d2) = out_count (ds_output d1)" "ds_pkts_sent d2 = ds_pkts_sent d1"
    using write_to_net_spec [OF d1(1,2), of env] by (elim exE conjE) (rule that)
  obtain W ds' env' where 3: "send_rounds ns d2 e2 = Some (ds', env')" "out_inv (ds_output ds')"
      "out_stream (ds_output d2) = W @ out_stream (ds_output ds')" "en_wire env' = en_wire e2 @ W"
      "bs_sent (ds_bytes_info ds') = bs_sent (ds_bytes_info d2) + length W"
      "out_count (ds_output d2) + ds_pkts_sent d2 = out_count (ds_output ds') + ds_pkts_sent ds'"
      "(\<forall>n \<in> set ns. 0 < n) \<and> 0 < q_size (ud_queue (ds_output d2)) \<longrightarrow>
         min (length ns) (length (out_stream (ds_output d2))) \<le> length W"
    using Cons.IH [OF 2(2), of e2] by (elim exE conjE) (rule that)
  let ?X = "take m (out_stream u)"
  have qd: "queue_data (ud_queue u) \<le> length (out_stream u)"
    using 1(2) by (simp add: out_stream_def out_inv_def length_pending)
  have lX: "length ?X = m" using qd by (simp add: m_def)
  have str: "out_stream (ds_output ds) = (?X @ W) @ out_stream (ds_output ds')"
    using 2(3) 3(3) append_take_drop_id [of m "out_stream u"] 1(3) d1(3) by simp
  have "(\<forall>n \<in> set (n # ns). 0 < n) \<and> 0 < q_size (ud_queue (ds_output ds)) \<longrightarrow>
        min (length (n # ns)) (length (out_stream (ds_output ds))) \<le> length (?X @ W)"
  proof (intro impI, elim conjE)
    assume pos: "\<forall>n \<in> set (n # ns). 0 < n" and sz: "0 < q_size (ud_queue (ds_output ds))"
    have "min (length ns) (length (out_stream (ds_output d2))) \<le> length W"
      using 3(7) pos sz 2(5) 1(4) d1(3) by simp
    moreover have "out_stream u = [] \<or> 0 < m"
    proof (cases "queue_data (ud_queue u) = 0")
      case True
      then have "queue_available (ud_queue u) \<noteq> 0"
        using 1(2,4) sz queue_empty_available [of "ud_queue u"] by (simp add: out_inv_def)
      with 1(6) True show ?thesis by (simp add: out_stream_def pending_def)
    qed (use pos in \<open>simp add: m_def\<close>)
    ultimately show "min (length (n # ns)) (length (out_stream (ds_output ds))) \<le> length (?X @ W)"
      using 2(3) 1(3) d1(3) lX by auto
  qed
  moreover have "send_rounds (n # ns) ds env = Some (ds', env')"
    using 1(1) 2(1) 3(1) d1(3) by (simp add: d1_def [symmetric] m_def [symmetric])
  moreover have "en_wire env' = en_wire env @ (?X @ W)" using 3(4) 2(4) d1(3) by simp
  moreover have "bs_sent (ds_bytes_info ds') = bs_sent (ds_bytes_info ds) + length (?X @ W)"
    using 3(5) 2(6) lX by (simp add: d1_def)
  moreover have "out_count (ds_output ds) + ds_pkts_sent ds = out_count (ds_output ds') + ds_pkts_sent ds'"
    using 3(6) 2(7,8) 1(5) by (simp add: d1_def)
  ultimately show ?case
    using 3(2) str by (intro exI3 [of _ "?X @ W" ds' env'] conjI)
qed

lemma out_stream_empty:
  assumes "out_inv u" and "out_stream u = []"
  shows "out_count u = 0"
proof (cases "ud_mypkt u")
  case None
  have "ud_pkts u = []"
  proof (rule ccontr)
    assume "ud_pkts u \<noteq> []"
    then obtain p ps where "ud_pkts u = p # ps" by (cases "ud_pkts u") auto
    with assms show False
      by (auto simp: out_inv_def out_ok_def out_stream_def out_rest_def pkt_bytes_def split: option.splits)
  qed
  with None show ?thesis by (simp add: out_count_def)
next
  case (Some p)
  with assms show ?thesis
    by (auto simp: out_inv_def out_ok_def out_stream_def out_rest_def pkt_bytes_def split: option.splits)
qed

lemma pkt_ok_out_ok: "pkt_ok p \<Longrightarrow> out_ok p"
  by (auto simp: pkt_ok_def out_ok_def framed_def hdr_size_def split: option.splits)

text \<open>The streams of the properties: freshly created, with a socket, and with packets to send.\<close>

definition new_stream :: "(nat \<Rightarrow> byte) \<Rightarrow> nat \<Rightarrow> int \<Rightarrow> ds_env \<Rightarrow> data_stream" where
  "new_stream junk net_buffer_size fd env =
     mysql_data_stream_setfd (fst (mysql_data_stream_new junk net_buffer_size 0 False env)) fd"

definition queue_packets :: "pkt list \<Rightarrow> data_stream \<Rightarrow> data_stream" where
  "queue_packets ps ds = ds\<lparr>ds_output := (ds_output ds)\<lparr>ud_pkts := ud_pkts (ds_output ds) @ ps\<rparr>\<rparr>"

definition idle_env :: ds_env where
  "idle_env = \<lparr>en_net_failure = False, en_server_bytes = \<lparr>bs_recv = 0, bs_sent = 0\<rparr>,
     en_connections_created = 0, en_connections_active = 0, en_wire = []\<rparr>"

lemma idle_env_wire [simp]: "en_wire idle_env = []" "idle_env\<lparr>en_wire := []\<rparr> = idle_env"
  by (simp_all add: idle_env_def)

lemma new_stream_in:
  "ds_input (new_stream junk sz fd env) = uni_ds_new junk sz" "ds_output (new_stream junk sz fd env) = uni_ds_new junk sz"
  "ds_fd (new_stream junk sz fd env) = fd" "ds_pkts_recv (new_stream junk sz fd env) = 0"
  "ds_pkts_sent (new_stream junk sz fd env) = 0"
  "ds_bytes_info (new_stream junk sz fd env) = \<lparr>bs_recv = 0, bs_sent = 0\<rparr>"
  by (simp_all add: new_stream_def mysql_data_stream_new_def mysql_data_stream_setfd_def)

lemma receive_new:
  assumes "0 < fd"
  shows "\<exists>R net' ds' env'. receive_rounds junk ns net (new_stream junk sz fd env0) env = Some (net', ds', env')
           \<and> net = R @ net'
           \<and> frames R = (map pkt_bytes (ud_pkts (ds_input ds')), in_partial (ds_input ds') @ pending (ud_queue (ds_input ds')))
           \<and> ds_pkts_recv ds' = length (ud_pkts (ds_input ds')) \<and> bs_recv (ds_bytes_info ds') = length R
           \<and> ((\<forall>n \<in> set ns. 0 < n) \<and> hdr_size \<le> sz \<longrightarrow> min (length ns) (length net) \<le> length R)"
proof -
  let ?ds = "new_stream junk sz fd env0"
  have pre: "in_inv (ds_input ?ds)" "in_idle (ds_input ?ds)" "0 < ds_fd ?ds"
    using assms new_stream_spec [of junk sz] by (simp_all add: new_stream_in)
  obtain R net' ds' env' where r: "receive_rounds junk ns net ?ds env = Some (net', ds', env')" "net = R @ net'"
      "in_inv (ds_input ds')" "in_idle (ds_input ds')" "in_stream (ds_input ds') = in_stream (ds_input ?ds) @ R"
      "length (ud_pkts (ds_input ds')) + ds_pkts_recv ?ds = length (ud_pkts (ds_input ?ds)) + ds_pkts_recv ds'"
      "bs_recv (ds_bytes_info ds') = bs_recv (ds_bytes_info ?ds) + length R"
      "(\<forall>n \<in> set ns. 0 < n) \<and> hdr_size \<le> q_size (ud_queue (ds_input ?ds)) \<longrightarrow>
         min (length ns) (length net) \<le> length R"
    using receive_rounds_spec [OF pre, of junk ns net env] by (elim exE conjE) (rule that)
  have R: "in_stream (ds_input ds') = R" using r(5) new_stream_spec [of junk sz] by (simp add: new_stream_in)
  have "frames R = (map pkt_bytes (ud_pkts (ds_input ds')), in_partial (ds_input ds') @ pending (ud_queue (ds_input ds')))"
    using in_idle_frames [OF r(3,4)] by (simp add: R)
  with r(1,2,6,7,8) new_stream_spec [of junk sz] show ?thesis
    by (intro exI [of _ R] exI3 [of _ net' ds' env']) (simp add: new_stream_in)
qed

lemma send_new:
  assumes "0 < sz" and "\<forall>p \<in> set ps. out_ok p" and "\<forall>n \<in> set ns. 0 < n"
    and "length (concat (map pkt_bytes ps)) \<le> length ns"
  shows "\<exists>ds' env'. send_rounds ns (queue_packets ps (new_stream junk sz fd env0)) env = Some (ds', env')
           \<and> en_wire env' = en_wire env @ concat (map pkt_bytes ps)
           \<and> out_stream (ds_output ds') = [] \<and> out_count (ds_output ds') = 0 \<and> ds_pkts_sent ds' = length ps
           \<and> bs_sent (ds_bytes_info ds') = length (concat (map pkt_bytes ps))"
proof -
  let ?ds = "queue_packets ps (new_stream junk sz fd env0)"
  have u: "ds_output ?ds = (uni_ds_new junk sz)\<lparr>ud_pkts := ps\<rparr>" "ds_pkts_sent ?ds = 0"
      "bs_sent (ds_bytes_info ?ds) = 0"
    by (simp_all add: queue_packets_def new_stream_in) (simp add: uni_ds_new_def)
  have pre: "out_inv (ds_output ?ds)"
    using assms(2) queue_init_spec [of junk sz] unfolding u(1) by (simp add: out_inv_def uni_ds_new_def)
  have str: "out_stream (ds_output ?ds) = concat (map pkt_bytes ps)" "out_count (ds_output ?ds) = length ps"
      "q_size (ud_queue (ds_output ?ds)) = sz"
    using queue_init_spec [of junk sz] unfolding u(1)
    by (simp_all add: out_stream_def out_rest_def out_count_def uni_ds_new_def) (simp add: queue_init_def)
  obtain W ds' env' where s: "send_rounds ns ?ds env = Some (ds', env')" "out_inv (ds_output ds')"
      "out_stream (ds_output ?ds) = W @ out_stream (ds_output ds')" "en_wire env' = en_wire env @ W"
      "bs_sent (ds_bytes_info ds') = bs_sent (ds_bytes_info ?ds) + length W"
      "out_count (ds_output ?ds) + ds_pkts_sent ?ds = out_count (ds_output ds') + ds_pkts_sent ds'"
      "(\<forall>n \<in> set ns. 0 < n) \<and> 0 < q_size (ud_queue (ds_output ?ds)) \<longrightarrow>
         min (length ns) (length (out_stream (ds_output ?ds))) \<le> length W"
    using send_rounds_spec [OF pre, of ns env] by (elim exE conjE) (rule that)
  have "length (out_stream (ds_output ?ds)) \<le> length W"
    using s(7) assms(1,3,4) unfolding str by simp
  moreover have "length (out_stream (ds_output ?ds)) = length W + length (out_stream (ds_output ds'))"
    using s(3) by (metis length_append)
  ultimately have e: "out_stream (ds_output ds') = []" by simp
  then have W: "W = concat (map pkt_bytes ps)" using s(3) str(1) by simp
  have "out_count (ds_output ds') = 0" by (rule out_stream_empty [OF s(2) e])
  then show ?thesis
    using s(1,4,5,6) e W u(2,3) str(2) by (intro exI [of _ ds'] exI [of _ env']) simp
qed

subsection \<open>Properties\<close>

text \<open>
  C1. Reassembly: a new stream with a buffer of at least four bytes, given at least as many rounds as
  there are bytes, receives the whole byte sequence, however it is cut into chunks, without ever
  leaving a buffer. The packets in its input array are then exactly the packets of the reference
  splitting \<open>frames\<close>, the unfinished bytes are the rest of that splitting, and both counters agree.
\<close>

theorem receive_framing:
  assumes "0 < fd" and "4 \<le> net_buffer_size" and "\<forall>n \<in> set ns. 0 < n" and "length net \<le> length ns"
  shows "\<exists>ds' env'. receive_rounds junk ns net (new_stream junk net_buffer_size fd env) env = Some ([], ds', env')
           \<and> map pkt_bytes (ud_pkts (ds_input ds')) = fst (frames net)
           \<and> in_partial (ds_input ds') @ pending (ud_queue (ds_input ds')) = snd (frames net)
           \<and> ds_pkts_recv ds' = length (fst (frames net)) \<and> bs_recv (ds_bytes_info ds') = length net"
proof -
  obtain R net' ds' env' where r:
      "receive_rounds junk ns net (new_stream junk net_buffer_size fd env) env = Some (net', ds', env')" "net = R @ net'"
      "frames R = (map pkt_bytes (ud_pkts (ds_input ds')), in_partial (ds_input ds') @ pending (ud_queue (ds_input ds')))"
      "ds_pkts_recv ds' = length (ud_pkts (ds_input ds'))" "bs_recv (ds_bytes_info ds') = length R"
      "(\<forall>n \<in> set ns. 0 < n) \<and> hdr_size \<le> net_buffer_size \<longrightarrow> min (length ns) (length net) \<le> length R"
    using receive_new [OF assms(1), of junk ns net net_buffer_size env env] by (elim exE conjE) (rule that)
  have "length net \<le> length R" using r(6) assms by (simp add: hdr_size_def)
  moreover have "length net = length R + length net'" using r(2) by (metis length_append)
  ultimately have "net' = []" by simp
  then have "R = net" using r(2) by simp
  with r(1,3-5) \<open>net' = []\<close> show ?thesis by (intro exI [of _ ds'] exI [of _ env']) simp
qed

theorem receive_framing_witness:
  "\<exists>ds' env'. receive_rounds (\<lambda>_. 9) (replicate 12 3) [1, 0, 0, 0, 65, 2, 0, 0, 1, 66, 67, 5]
       (new_stream (\<lambda>_. 9) 8 4 idle_env)
       idle_env = Some ([], ds', env')
     \<and> map pkt_bytes (ud_pkts (ds_input ds')) = [[1, 0, 0, 0, 65], [2, 0, 0, 1, 66, 67]]
     \<and> in_partial (ds_input ds') @ pending (ud_queue (ds_input ds')) = [5]
     \<and> ds_pkts_recv ds' = 2 \<and> bs_recv (ds_bytes_info ds') = 12"
proof -
  have "frames [1, 0, 0, 0, 65, 2, 0, 0, 1, 66, 67, 5] = ([[1, 0, 0, 0, 65], [2, 0, 0, 1, 66, 67]], [5])"
    by code_simp
  then show ?thesis
    using receive_framing [of 4 8 "replicate 12 3" "[1, 0, 0, 0, 65, 2, 0, 0, 1, 66, 67, 5]" "\<lambda>_. 9"
        idle_env]
    by (simp add: eval_nat_numeral del: receive_rounds.simps)
qed

text \<open>
  C18. Delivery: a stream with packets to send, given at least as many rounds as these have bytes,
  sends exactly the concatenation of the packets, however few bytes the socket accepts each time;
  its queue, its packet in progress and its packet array are then empty and both counters agree.
\<close>

theorem send_delivers:
  assumes "0 < net_buffer_size" and "\<forall>p \<in> set ps. out_ok p" and "\<forall>n \<in> set ns. 0 < n"
    and "length (concat (map pkt_bytes ps)) \<le> length ns"
  shows "\<exists>ds' env'. send_rounds ns (queue_packets ps (new_stream junk net_buffer_size fd env)) env = Some (ds', env')
           \<and> en_wire env' = en_wire env @ concat (map pkt_bytes ps)
           \<and> out_stream (ds_output ds') = [] \<and> out_count (ds_output ds') = 0 \<and> ds_pkts_sent ds' = length ps
           \<and> bs_sent (ds_bytes_info ds') = length (concat (map pkt_bytes ps))"
  using assms by (rule send_new)

theorem send_delivers_witness:
  "\<exists>ds' env'. send_rounds [1, 2, 1, 3, 1] (queue_packets
         [\<lparr>pk_length = 2, pk_data = Some [1, 2]\<rparr>, \<lparr>pk_length = 3, pk_data = Some [3, 4, 5]\<rparr>]
         (new_stream (\<lambda>_. 9) 3 4 idle_env))
       idle_env = Some (ds', env')
     \<and> en_wire env' = [1, 2, 3, 4, 5] \<and> out_stream (ds_output ds') = [] \<and> out_count (ds_output ds') = 0
     \<and> ds_pkts_sent ds' = 2 \<and> bs_sent (ds_bytes_info ds') = 5"
  using send_delivers [of 3 "[\<lparr>pk_length = 2, pk_data = Some [1, 2]\<rparr>, \<lparr>pk_length = 3, pk_data = Some [3, 4, 5]\<rparr>]"
      "[1, 2, 1, 3, 1]" "\<lambda>_. 9" 4 idle_env]
  by (simp add: out_ok_def pkt_bytes_def eval_nat_numeral del: send_rounds.simps)

text \<open>
  C17. Relaying: framed packets sent by one stream and received by another arrive as the same packets
  in the same order with nothing left over, for any buffer sizes and any cutting of the bytes by the
  two sockets.
\<close>

theorem relay_roundtrip:
  assumes "0 < sz1" and "4 \<le> sz2" and "0 < fd2" and "\<forall>p \<in> set ps. pkt_ok p"
    and "\<forall>n \<in> set ns1. 0 < n" and "\<forall>n \<in> set ns2. 0 < n"
    and "length (concat (map pkt_bytes ps)) \<le> length ns1" and "length (concat (map pkt_bytes ps)) \<le> length ns2"
  shows "\<exists>ds1 env1 ds2 env2.
           send_rounds ns1 (queue_packets ps (new_stream junk sz1 fd1 env)) (env\<lparr>en_wire := []\<rparr>) = Some (ds1, env1)
           \<and> receive_rounds junk ns2 (en_wire env1) (new_stream junk sz2 fd2 env) env = Some ([], ds2, env2)
           \<and> map pkt_bytes (ud_pkts (ds_input ds2)) = map pkt_bytes ps
           \<and> in_stream (ds_input ds2) = concat (map pkt_bytes ps)"
proof -
  let ?bytes = "concat (map pkt_bytes ps)"
  have "\<forall>p \<in> set ps. out_ok p" using assms(4) pkt_ok_out_ok by blast
  then obtain ds1 env1 where s:
      "send_rounds ns1 (queue_packets ps (new_stream junk sz1 fd1 env)) (env\<lparr>en_wire := []\<rparr>) = Some (ds1, env1)"
      "en_wire env1 = ?bytes"
    using send_new [of sz1 ps ns1 junk fd1 env "env\<lparr>en_wire := []\<rparr>"] assms(1,5,7) by auto
  obtain R net' ds2 env2 where r:
      "receive_rounds junk ns2 ?bytes (new_stream junk sz2 fd2 env) env = Some (net', ds2, env2)" "?bytes = R @ net'"
      "frames R = (map pkt_bytes (ud_pkts (ds_input ds2)), in_partial (ds_input ds2) @ pending (ud_queue (ds_input ds2)))"
      "(\<forall>n \<in> set ns2. 0 < n) \<and> hdr_size \<le> sz2 \<longrightarrow> min (length ns2) (length ?bytes) \<le> length R"
    using receive_new [OF assms(3), of junk ns2 ?bytes sz2 env env] by (elim exE conjE) (rule that)
  have "length ?bytes \<le> length R" using r(4) assms(2,6,8) by (simp add: hdr_size_def)
  moreover have "length ?bytes = length R + length net'" using r(2) by (metis length_append)
  ultimately have "net' = []" by simp
  then have R: "R = ?bytes" using r(2) by simp
  have "\<forall>d \<in> set (map pkt_bytes ps). framed d"
    using assms(4) by (auto simp: pkt_ok_def pkt_bytes_def split: option.splits)
  from frames_concat [OF this, of "[]"] have "frames ?bytes = (map pkt_bytes ps, [])"
    by (simp add: frames_short hdr_size_def)
  then have "map pkt_bytes (ud_pkts (ds_input ds2)) = map pkt_bytes ps"
      "in_partial (ds_input ds2) @ pending (ud_queue (ds_input ds2)) = []"
    using r(3) R by auto
  then show ?thesis
    using s r(1) \<open>net' = []\<close> by (intro exI3 [of _ ds1 env1 ds2] exI [of _ env2]) (simp add: in_stream_def)
qed

theorem relay_roundtrip_witness:
  "\<exists>ds1 env1 ds2 env2.
     send_rounds (replicate 11 1) (queue_packets [\<lparr>pk_length = 5, pk_data = Some [1, 0, 0, 0, 65]\<rparr>,
           \<lparr>pk_length = 6, pk_data = Some [2, 0, 0, 1, 66, 67]\<rparr>]
         (new_stream (\<lambda>_. 9) 3 4 idle_env))
       idle_env = Some (ds1, env1)
     \<and> receive_rounds (\<lambda>_. 9) (replicate 11 7) (en_wire env1)
         (new_stream (\<lambda>_. 9) 8 5 idle_env)
       idle_env = Some ([], ds2, env2)
     \<and> map pkt_bytes (ud_pkts (ds_input ds2)) = [[1, 0, 0, 0, 65], [2, 0, 0, 1, 66, 67]]
     \<and> in_stream (ds_input ds2) = [1, 0, 0, 0, 65, 2, 0, 0, 1, 66, 67]"
  using relay_roundtrip [of 3 8 5 "[\<lparr>pk_length = 5, pk_data = Some [1, 0, 0, 0, 65]\<rparr>,
           \<lparr>pk_length = 6, pk_data = Some [2, 0, 0, 1, 66, 67]\<rparr>]" "replicate 11 1" "replicate 11 7" "\<lambda>_. 9" 4
      idle_env]
  by (simp add: pkt_ok_def framed_def hdr_pkt_length_def hdr_size_def pkt_bytes_def)

text \<open>
  C20. Room for more: after the loop of \<^verbatim>\<open>buffer2array_2\<close> on a well-formed stream with a socket, the
  input queue has all but at most three bytes of its buffer available, so a stream never stops
  asking for input because its queue is full.
\<close>

theorem drained_room:
  assumes "in_inv (ds_input ds)" and "0 < ds_fd ds"
  shows "\<exists>ds'. buffer2array_loop junk ds = Some ds' \<and> in_inv (ds_input ds')
           \<and> in_stream (ds_input ds') = in_stream (ds_input ds)
           \<and> q_size (ud_queue (ds_input ds)) \<le> queue_available (ud_queue (ds_input ds')) + 3"
proof -
  obtain u n where "buffer2array_loop junk ds = Some (ds\<lparr>ds_input := u, ds_pkts_recv := ds_pkts_recv ds + n\<rparr>)"
      "in_inv u" "in_stream u = in_stream (ds_input ds)" "q_size (ud_queue u) = q_size (ud_queue (ds_input ds))" "in_idle u"
    using buffer2array_loop_spec [OF assms, of junk] by (elim exE conjE) (rule that)
  moreover from this have "q_size (ud_queue u) < queue_available (ud_queue u) + hdr_size" by (intro in_idle_room)
  ultimately show ?thesis by (simp add: hdr_size_def)
qed

theorem drained_room_witness:
  "\<exists>ds'. buffer2array_loop (\<lambda>_. 9) (new_stream (\<lambda>_. 9) 8 4 idle_env) = Some ds'
     \<and> in_inv (ds_input ds') \<and> in_stream (ds_input ds') = [] \<and> 8 \<le> queue_available (ud_queue (ds_input ds')) + 3"
  using drained_room [of "new_stream (\<lambda>_. 9) 8 4 idle_env" "\<lambda>_. 9"] new_stream_spec [of "\<lambda>_. 9" 8]
  by (simp add: new_stream_in)

text \<open>
  C21. Closing in the middle of a header: when the first one to three bytes of a packet have arrived
  and the stream is deleted, \<^verbatim>\<open>mysql_data_stream_delete\<close> frees the packet in progress, whose data
  pointer was never set.
\<close>

theorem delete_partial_header:
  assumes "0 < length bs" and "length bs < 4" and "4 \<le> net_buffer_size" and "0 < fd"
  shows "\<exists>ds' env'. receive_rounds junk [length bs] bs (new_stream junk net_buffer_size fd env) env = Some ([], ds', env')
           \<and> mysql_data_stream_delete ds' = None"
proof -
  let ?ds = "new_stream junk net_buffer_size fd env"
  have av: "queue_available (ud_queue (ds_input ?ds)) = net_buffer_size"
    by (simp add: new_stream_in uni_ds_new_def queue_init_spec)
  obtain q where q: "queue_put (queue_init junk net_buffer_size) bs = Some q" "queue_inv q" "pending q = bs"
    using queue_put_spec [of "queue_init junk net_buffer_size" bs] queue_init_spec [of junk net_buffer_size] assms by auto
  obtain q' where q': "queue_zero q = Some q'" "queue_inv q'" "pending q' = bs"
    using queue_zero_spec [OF q(2)] q(3) by auto
  have len: "queue_data q = length bs" "queue_data q' = length bs"
    using q(2,3) q'(2,3) by (simp_all flip: length_pending)
  obtain ds1 env1 where r: "read_from_net (Some bs) ?ds env = Some (int (length bs), ds1, env1)"
      "ds_input ds1 = (uni_ds_new junk net_buffer_size)\<lparr>ud_queue := q\<rparr>"
    using q(1) assms(1) by (simp add: read_from_net_def new_stream_in Let_def uni_ds_new_def)
  let ?u = "(ds_input ds1)\<lparr>ud_mypkt := Some \<lparr>pk_length = 0, pk_data = None\<rparr>, ud_queue := q'\<rparr>"
  have "buffer2array junk ds1 = Some (0, ds1\<lparr>ds_input := ?u\<rparr>)"
    using r(2) q' len assms(1,2)
    by (simp add: buffer2array_def b2a_start_def b2a_header_def b2a_payload_def b2a_complete_def uni_ds_new_def hdr_size_def)
  then have "buffer2array_loop junk ds1 = Some (ds1\<lparr>ds_input := ?u\<rparr>)"
    by (subst buffer2array_loop.simps) simp
  then show ?thesis
    using r(1) av assms
    by (simp add: Let_def mysql_data_stream_delete_def free_mypkt_data_def)
qed

theorem delete_partial_header_witness:
  "\<exists>ds' env'. receive_rounds (\<lambda>_. 9) [2] [1, 0] (new_stream (\<lambda>_. 9) 8 4 idle_env) idle_env = Some ([], ds', env') \<and> mysql_data_stream_delete ds' = None"
  using delete_partial_header [of "[1, 0]" 8 4 "\<lambda>_. 9" idle_env]
  by (simp add: numeral_2_eq_2)

end
