(* ===== verification/Protocol.thy ===== *)
theory Protocol
  imports DataStream
begin

section \<open>MySQL packets: encoding and classification\<close>

text \<open>
  The packet construction and inspection functions of \<^verbatim>\<open>src/mysql_protocol.c\<close>.

  A constructor allocates a block (\<^verbatim>\<open>l_alloc\<close>: contents unknown, the parameter \<open>junk\<close>;
  \<^verbatim>\<open>l_alloc0\<close>: zeroed) and fills it with a series of \<^verbatim>\<open>memcpy\<close> calls at an increasing offset.
  The series is a list of \<open>out\<close> operations: \<open>Put bs\<close> copies bytes and advances by their number,
  \<open>Skip n\<close> only advances. \<open>emit\<close> performs it and is \<open>None\<close> when a copy leaves the block.
  \<open>render\<close> is its meaning when everything fits, so the lemmas compute the exact bytes of every packet;
  since \<open>junk\<close> does not occur in them, no uninitialised byte is sent.

  The 24-bit field \<^verbatim>\<open>pkt_length\<close> wraps: the allocated size is computed from the wrapped value.
\<close>

subsection \<open>Writing into a fresh block\<close>

datatype out = Put "byte list" | Skip nat

fun out_size :: "out \<Rightarrow> nat" where
  "out_size (Put bs) = length bs"
| "out_size (Skip n) = n"

definition outs_size :: "out list \<Rightarrow> nat" where
  "outs_size os = sum_list (map out_size os)"

fun emit :: "byte list \<Rightarrow> nat \<Rightarrow> out list \<Rightarrow> byte list option" where
  "emit buf i [] = Some buf"
| "emit buf i (Put bs # os) = do { buf \<leftarrow> mem_write buf i bs; emit buf (i + length bs) os }"
| "emit buf i (Skip n # os) = emit buf (i + n) os"

fun render :: "byte list \<Rightarrow> out list \<Rightarrow> byte list" where
  "render ys [] = ys"
| "render ys (Put bs # os) = bs @ render (drop (length bs) ys) os"
| "render ys (Skip n # os) = take n ys @ render (drop n ys) os"

lemma outs_size_simps [simp]:
  "outs_size [] = 0" "outs_size (x # os) = out_size x + outs_size os"
  "outs_size (os @ ps) = outs_size os + outs_size ps"
  by (simp_all add: outs_size_def)

lemma emit_render:
  "i = length xs \<Longrightarrow> outs_size os \<le> length ys \<Longrightarrow> emit (xs @ ys) i os = Some (xs @ render ys os)"
proof (induction os arbitrary: i xs ys)
  case (Cons x os)
  show ?case
  proof (cases x)
    case (Put bs)
    have "emit ((xs @ bs) @ drop (length bs) ys) (i + length bs) os
            = Some ((xs @ bs) @ render (drop (length bs) ys) os)"
      using Cons.prems Put by (intro Cons.IH) simp_all
    with Put Cons.prems show ?thesis by (simp add: mem_write_extend)
  next
    case (Skip n)
    have "emit ((xs @ take n ys) @ drop n ys) (i + n) os = Some ((xs @ take n ys) @ render (drop n ys) os)"
      using Cons.prems Skip by (intro Cons.IH) simp_all
    with Skip show ?thesis by simp
  qed
qed simp

lemma length_render [simp]: "outs_size os \<le> length ys \<Longrightarrow> length (render ys os) = length ys"
  by (induction ys os rule: render.induct) auto

lemma render_puts:
  "length ys = outs_size (map Put bss) \<Longrightarrow> render ys (map Put bss) = concat bss"
  by (induction bss arbitrary: ys) simp_all

definition mysql_hdr :: "nat \<Rightarrow> nat \<Rightarrow> byte list" where
  "mysql_hdr pkt_length pkt_id = le_bytes 3 pkt_length @ [of_nat pkt_id]"

lemma length_mysql_hdr [simp]: "length (mysql_hdr n i) = 4"
  by (simp add: mysql_hdr_def)

lemma hdr_pkt_length_mysql_hdr [simp]: "hdr_pkt_length (mysql_hdr n i @ xs) = n mod 2 ^ 24"
  by (simp add: mysql_hdr_def hdr_pkt_length_def le_nat_bytes)

text \<open>The common frame of the constructors: header, size, allocation, copies.\<close>

definition make_pkt :: "(nat \<Rightarrow> byte list) \<Rightarrow> nat \<Rightarrow> nat \<Rightarrow> out list \<Rightarrow> pkt option" where
  "make_pkt alloc pkt_length pkt_id os =
     (let n = pkt_length mod 2 ^ 24 + hdr_size
      in do {
        data \<leftarrow> emit (alloc n) 0 (Put (mysql_hdr pkt_length pkt_id) # os);
        Some \<lparr>pk_length = n, pk_data = Some data\<rparr>
      })"

text \<open>\<^verbatim>\<open>l_alloc\<close> and \<^verbatim>\<open>l_alloc0\<close>.\<close>

definition l_alloc0 :: "nat \<Rightarrow> byte list" where
  "l_alloc0 n = replicate n 0"

lemma make_pkt_spec:
  assumes "outs_size os \<le> n" and "n < 2 ^ 24" and "length (alloc (n + 4)) = n + 4"
  shows "make_pkt alloc n i os
           = Some \<lparr>pk_length = n + 4, pk_data = Some (mysql_hdr n i @ render (drop 4 (alloc (n + 4))) os)\<rparr>"
    and "pkt_ok \<lparr>pk_length = n + 4, pk_data = Some (mysql_hdr n i @ render (drop 4 (alloc (n + 4))) os)\<rparr>"
proof -
  have "emit ([] @ alloc (n + 4)) 0 (Put (mysql_hdr n i) # os)
          = Some ([] @ render (alloc (n + 4)) (Put (mysql_hdr n i) # os))"
    using assms by (intro emit_render) simp_all
  then show "make_pkt alloc n i os
           = Some \<lparr>pk_length = n + 4, pk_data = Some (mysql_hdr n i @ render (drop 4 (alloc (n + 4))) os)\<rparr>"
    using assms(2) by (simp add: make_pkt_def hdr_size_def Let_def del: emit.simps)
  show "pkt_ok \<lparr>pk_length = n + 4, pk_data = Some (mysql_hdr n i @ render (drop 4 (alloc (n + 4))) os)\<rparr>"
    using assms by (simp add: pkt_ok_def framed_def hdr_size_def)
qed

lemma make_pkt_puts:
  assumes "length (concat bss) = n" and "n < 2 ^ 24" and "os = map Put bss"
  shows "make_pkt (fresh junk) n i os = Some \<lparr>pk_length = n + 4, pk_data = Some (mysql_hdr n i @ concat bss)\<rparr>
         \<and> pkt_ok \<lparr>pk_length = n + 4, pk_data = Some (mysql_hdr n i @ concat bss)\<rparr>"
proof -
  have "outs_size (map Put bss) = length (concat bss)" by (induction bss) simp_all
  moreover from this have "render (drop 4 (fresh junk (n + 4))) os = concat bss"
    using assms by (simp add: render_puts)
  ultimately show ?thesis
    using make_pkt_spec [of os n "fresh junk" i] assms by simp
qed

subsection \<open>Length-encoded integers and strings\<close>

definition lencint :: "nat \<Rightarrow> nat" where
  "lencint v = (if v < 251 then 1 else if v < 65536 then 3 else if v < 16777216 then 4 else 9)"

text \<open>
  \<^verbatim>\<open>lencint_unknown\<close> guesses the value at the start of eight bytes \<open>v\<close>. Its \<^verbatim>\<open>char c8\<close> is signed, so
  \<^verbatim>\<open>c8<251\<close> always holds and the sign-extended first byte is returned (as a 64-bit unsigned
  value); the statements after it are never reached, and are kept here as the code has them.
\<close>

definition lencint_unknown :: "64 word \<Rightarrow> 64 word" where
  "lencint_unknown v =
     (let c8 = (ucast v :: 8 word)
      in if sint c8 < 251 then scast c8
         else let c32 = (of_nat (unat v mod 2 ^ 24) :: 32 word)
              in if 251 \<le> c32 \<and> c32 < 65536 then ucast c32
                 else let c32 = (ucast v :: 32 word)
                      in if 65536 \<le> c32 \<and> c32 < 16777216 then ucast c32 else v)"

definition writeencint :: "nat \<Rightarrow> byte list" where
  "writeencint v =
     (let l = lencint v
      in if l = 1 then le_bytes 1 v
         else if l = 3 then 0xfc # le_bytes 2 v
         else if l = 4 then 0xfd # le_bytes 3 v
         else 0xfe # le_bytes 8 v)"

text \<open>
  \<^verbatim>\<open>writeencstrnull\<close>: for a length of four encoded bytes the three length bytes are not written.
  For nine encoded bytes it copies eight bytes out of the 4-byte variable \<^verbatim>\<open>l\<close>: \<open>None\<close>.
\<close>

definition writeencstrnull :: "cstr option \<Rightarrow> out list option" where
  "writeencstrnull s =
     (case s of
        None \<Rightarrow> Some [Put [0xfb]]
      | Some s \<Rightarrow>
          let l = length s; el = lencint l
          in if el = 1 then Some [Put (le_bytes 1 l), Put s]
             else if el = 3 then Some [Put [0xfc], Put (le_bytes 2 l), Put s]
             else if el = 4 then Some [Put [0xfd], Skip 3, Put s]
             else None)"

lemma length_writeencint [simp]: "length (writeencint v) = lencint v"
  by (simp add: writeencint_def lencint_def Let_def)

text \<open>The reading side of the protocol, as the MySQL documentation gives it.\<close>

definition lenenc_decode :: "byte list \<Rightarrow> (nat \<times> byte list) option" where
  "lenenc_decode bs =
     (case bs of
        [] \<Rightarrow> None
      | b # rest \<Rightarrow>
          let take_int = (\<lambda>n. if length rest < n then None else Some (le_nat (take n rest), drop n rest))
          in if unat b < 251 then Some (unat b, rest)
             else if b = 0xfc then take_int 2
             else if b = 0xfd then take_int 3
             else if b = 0xfe then take_int 8
             else None)"

lemma lenenc_decode_writeencint:
  assumes "v < 2 ^ 64"
  shows "lenenc_decode (writeencint v @ rest) = Some (v, rest)"
proof -
  have 1: "lenenc_decode (le_bytes 1 v @ rest) = Some (v, rest)" if "v < 251"
    using that by (simp add: lenenc_decode_def unat_of_nat)
  have 2: "lenenc_decode ((0xfc # le_bytes 2 v) @ rest) = Some (v, rest)" if "v < 65536"
    using that by (simp add: lenenc_decode_def le_nat_bytes)
  have 3: "lenenc_decode ((0xfd # le_bytes 3 v) @ rest) = Some (v, rest)" if "v < 16777216"
    using that by (simp add: lenenc_decode_def le_nat_bytes)
  have 4: "lenenc_decode ((0xfe # le_bytes 8 v) @ rest) = Some (v, rest)"
    using assms by (simp add: lenenc_decode_def le_nat_bytes)
  consider "v < 251" | "251 \<le> v" "v < 65536" | "65536 \<le> v" "v < 16777216" | "16777216 \<le> v" by linarith
  then show ?thesis
  proof cases
    case 1
    then show ?thesis using \<open>v < 251 \<Longrightarrow> _\<close> by (simp add: writeencint_def lencint_def)
  qed (use 2 3 4 in \<open>simp_all add: writeencint_def lencint_def\<close>)
qed

subsection \<open>Packet constructors\<close>

definition myproto_ok_pkt ::
    "(nat \<Rightarrow> byte) \<Rightarrow> nat \<Rightarrow> nat \<Rightarrow> nat \<Rightarrow> nat \<Rightarrow> nat \<Rightarrow> pkt option" where
  "myproto_ok_pkt junk pid affected_rows last_insert_id status warnings =
     make_pkt (fresh junk) (1 + lencint affected_rows + lencint last_insert_id + 2 + 2) pid
       [Put [0], Put (writeencint affected_rows), Put (writeencint last_insert_id),
        Put (le_bytes 2 status), Put (le_bytes 2 warnings)]"

definition myproto_column_count :: "(nat \<Rightarrow> byte) \<Rightarrow> nat \<Rightarrow> nat \<Rightarrow> pkt option" where
  "myproto_column_count junk pid cnt = make_pkt (fresh junk) (lencint cnt) pid [Put (writeencint cnt)]"

record column =
  col_schema :: cstr
  col_table :: cstr
  col_org_table :: cstr
  col_name :: cstr
  col_org_name :: cstr
  col_length :: nat
  col_type :: nat
  col_flags :: nat
  col_decimals :: nat

definition enc_strlen :: "cstr \<Rightarrow> nat" where
  "enc_strlen s = lencint (length s) + length s"

definition myproto_column_def :: "(nat \<Rightarrow> byte) \<Rightarrow> nat \<Rightarrow> column \<Rightarrow> pkt option" where
  "myproto_column_def junk pid c = do {
     schema \<leftarrow> writeencstrnull (Some (col_schema c));
     table \<leftarrow> writeencstrnull (Some (col_table c));
     org_table \<leftarrow> writeencstrnull (Some (col_org_table c));
     name \<leftarrow> writeencstrnull (Some (col_name c));
     org_name \<leftarrow> writeencstrnull (Some (col_org_name c));
     make_pkt (fresh junk)
       (4 + enc_strlen (col_schema c) + enc_strlen (col_table c) + enc_strlen (col_org_table c)
        + enc_strlen (col_name c) + enc_strlen (col_org_name c) + (1 + 2) + 4 + 1 + 2 + 1 + 2) pid
       ([Put [0x03, 0x64, 0x65, 0x66]] @ schema @ table @ org_table @ name @ org_name
        @ [Put [0x0c, 0x21, 0x00], Put (le_bytes 4 (col_length c)), Put (le_bytes 1 (col_type c)),
           Put (le_bytes 2 (col_flags c)), Put (le_bytes 1 (col_decimals c)), Put [0, 0]])
   }"

definition myproto_eof :: "(nat \<Rightarrow> byte) \<Rightarrow> nat \<Rightarrow> nat \<Rightarrow> nat \<Rightarrow> pkt option" where
  "myproto_eof junk pid warning_count status_flags =
     make_pkt (fresh junk) 5 pid [Put [0xfe], Put (le_bytes 2 warning_count), Put (le_bytes 2 status_flags)]"

definition create_ok_packet :: "(nat \<Rightarrow> byte) \<Rightarrow> nat \<Rightarrow> pkt option" where
  "create_ok_packet junk pid = make_pkt (fresh junk) 7 pid [Put [0, 0, 0, 2, 0, 0, 0]]"

definition create_err_packet :: "(nat \<Rightarrow> byte) \<Rightarrow> nat \<Rightarrow> nat \<Rightarrow> cstr \<Rightarrow> pkt option" where
  "create_err_packet junk pid errcode errstr =
     make_pkt (fresh junk) (3 + length errstr) pid [Put [0xff], Put (le_bytes 2 errcode), Put errstr]"

text \<open>
  \<^verbatim>\<open>mysql_new_payload_select\<close> frees the old data and builds a query packet around the first
  \<open>len\<close> bytes of the payload (its string length for \<open>len = -1\<close>).
\<close>

definition mysql_new_payload_select :: "(nat \<Rightarrow> byte) \<Rightarrow> byte list \<Rightarrow> int \<Rightarrow> pkt option" where
  "mysql_new_payload_select junk payload len = do {
     let len = (if len = -1 then c_strlen payload else nat len);
     bytes \<leftarrow> mem_read payload 0 len;
     make_pkt (fresh junk) (len + 1) 0 [Put [3], Put bytes]
   }"

definition create_auth_switch_request_packet :: "byte list \<Rightarrow> pkt option" where
  "create_auth_switch_request_packet scramble_buf =
     make_pkt l_alloc0 (1 + (length ''mysql_native_password'' + 1) + 20 + 1) 1
       [Put [0xfe], Put (str ''mysql_native_password''), Put [0], Put (take 20 scramble_buf), Put [0]]"

subsection \<open>The scramble and the handshake\<close>

text \<open>
  The random generator of the scramble. \<^verbatim>\<open>seed1\<close> stays below \<open>max_value = 0x3FFFFFFF\<close>, and
  \<^verbatim>\<open>(char)(seed1/max_value * 94 + 33)\<close> in double precision is the integer quotient below: 94 and
  \<^verbatim>\<open>max_value\<close> are coprime, so the exact value is an integer for \<open>seed1 = 0\<close> only, and otherwise at
  least \<open>2 ^ -30\<close> away from one, far more than the rounding error.
\<close>

definition rnd_max :: nat where
  "rnd_max = 0x3FFFFFFF"

type_synonym rand_struct = "nat \<times> nat"

definition proxy_my_rnd :: "rand_struct \<Rightarrow> rand_struct" where
  "proxy_my_rnd st = (case st of (seed1, seed2) \<Rightarrow>
     let seed1 = (seed1 * 3 + seed2) mod rnd_max;
         seed2 = (seed1 + seed2 + 33) mod rnd_max
     in (seed1, seed2))"

definition rnd_char :: "rand_struct \<Rightarrow> byte" where
  "rnd_char st = of_nat (fst st * 94 div rnd_max + 33)"

fun random_chars :: "nat \<Rightarrow> rand_struct \<Rightarrow> byte list \<times> rand_struct" where
  "random_chars 0 st = ([], st)"
| "random_chars (Suc n) st =
     (let st = proxy_my_rnd st; (cs, st') = random_chars n st in (rnd_char st # cs, st'))"

definition proxy_create_random_string ::
    "byte list \<Rightarrow> nat \<Rightarrow> nat \<Rightarrow> rand_struct \<Rightarrow> (byte list \<times> rand_struct) option" where
  "proxy_create_random_string buf off n st =
     (let (cs, st) = random_chars n st
      in do { buf \<leftarrow> mem_write buf off (cs @ [0]); Some (buf, st) })"

definition replace_zeros :: "byte list \<Rightarrow> nat \<Rightarrow> nat \<Rightarrow> byte list" where
  "replace_zeros buf from to =
     take from buf @ map (\<lambda>b. if b = 0 then 97 else b) (take (to - from) (drop from buf)) @ drop to buf"

record server_greeting =
  sg_protocol_version :: byte
  sg_mysql_server_version :: cstr
  sg_server_capabilities :: nat
  sg_server_language :: nat
  sg_server_status :: nat

definition create_handshake_packet ::
    "server_greeting \<Rightarrow> nat \<Rightarrow> nat \<Rightarrow> nat \<Rightarrow> byte list \<Rightarrow> (pkt \<times> byte list) option" where
  "create_handshake_packet glo thread_id rand1 rand2 scramble_buf = do {
     let rand_st = (rand1 mod rnd_max, rand2 mod rnd_max);
     (scramble_buf, rand_st) \<leftarrow> proxy_create_random_string scramble_buf 0 8 rand_st;
     let scramble_buf = replace_zeros scramble_buf 0 8;
     let scramble1 = take 8 scramble_buf;
     (scramble_buf, rand_st) \<leftarrow> proxy_create_random_string scramble_buf 8 12 rand_st;
     let scramble_buf = replace_zeros scramble_buf 8 20;
     p \<leftarrow> make_pkt l_alloc0
       (1 + (length (sg_mysql_server_version glo) + 1) + 4 + 8 + 1 + 2 + 1 + 2 + 3 + 10 + 12 + 1
        + (length ''mysql_native_password'' + 1)) 0
       [Put [sg_protocol_version glo], Put (sg_mysql_server_version glo), Skip 1, Put (le_bytes 4 thread_id),
        Put scramble1, Skip 1, Put (le_bytes 2 (sg_server_capabilities glo)),
        Put (le_bytes 1 (sg_server_language glo)), Put (le_bytes 2 (sg_server_status glo)),
        Put [0x0f, 0x80, 0x15], Skip 10, Put (take 12 (drop 8 scramble_buf)), Skip 1,
        Put (str ''mysql_native_password'')];
     Some (p, scramble_buf)
   }"

subsection \<open>Packet inspection\<close>

datatype response_type = OK_Packet | ERR_Packet | EOF_Packet | UNKNOWN_Packet

definition mysql_response :: "pkt \<Rightarrow> response_type option" where
  "mysql_response p = do {
     data \<leftarrow> pk_data p;
     c \<leftarrow> mem_read data hdr_size 1;
     Some (if c = [0] then OK_Packet
           else if c = [0xff] then ERR_Packet
           else if c = [0xfe] \<and> pk_length p - hdr_size < 9 then EOF_Packet
           else UNKNOWN_Packet)
   }"

text \<open>
  \<^verbatim>\<open>status_flags\<close> copies eight bytes at each length-encoded integer, also where the packet ends
  before: \<open>after\<close> is the memory behind the packet.
\<close>

definition read_lencint :: "byte list \<Rightarrow> nat \<Rightarrow> nat option" where
  "read_lencint mem offset = do {
     v \<leftarrow> mem_read mem offset 8;
     Some (offset + lencint (unat (lencint_unknown (of_nat (le_nat v)))))
   }"

definition status_flags :: "byte list \<Rightarrow> pkt \<Rightarrow> nat option" where
  "status_flags after p = do {
     c \<leftarrow> mysql_response p;
     data \<leftarrow> pk_data p;
     let mem = data @ after;
     (case c of
        OK_Packet \<Rightarrow> do {
          offset \<leftarrow> read_lencint mem (1 + hdr_size);
          offset \<leftarrow> read_lencint mem offset;
          status \<leftarrow> mem_read mem offset 2;
          Some (le_nat status)
        }
      | EOF_Packet \<Rightarrow> do { status \<leftarrow> mem_read mem (1 + hdr_size + 2) 2; Some (le_nat status) }
      | _ \<Rightarrow> Some 0)
   }"

text \<open>\<^verbatim>\<open>SERVER_STATUS_IN_TRANS\<close> is bit 0 of the status.\<close>

definition is_transaction_active :: "byte list \<Rightarrow> pkt \<Rightarrow> bool option" where
  "is_transaction_active after p = do { status \<leftarrow> status_flags after p; Some (odd status) }"

subsection \<open>What the guess of a length-encoded integer gives\<close>

lemma lencint_unknown_first: "lencint_unknown v = scast (ucast v :: byte)"
  using sint_byte_bounds(2) [of "ucast v"] by (simp add: lencint_unknown_def Let_def)

text \<open>The guess is one byte or nine bytes, whatever was encoded.\<close>

lemma lencint_guess:
  assumes "bs \<noteq> []"
  shows "lencint (unat (lencint_unknown (of_nat (le_nat bs)))) = (if unat (hd bs) < 128 then 1 else 9)"
proof -
  have u: "lencint_unknown (of_nat (le_nat bs)) = scast (hd bs)"
    using assms by (simp add: lencint_unknown_first ucast_of_nat_byte le_nat_first)
  show ?thesis
  proof (cases "unat (hd bs) < 128")
    case True
    with unat_scast_byte_cases(1) [of "hd bs"] u show ?thesis by (simp add: lencint_def)
  next
    case False
    with unat_scast_byte_cases(2) [of "hd bs"] u show ?thesis by (simp add: lencint_def)
  qed
qed

lemma read_lencint_at:
  assumes "mem = xs @ b # ys" and "offset = length xs" and "7 \<le> length ys"
  shows "read_lencint mem offset = Some (offset + (if unat b < 128 then 1 else 9))"
proof -
  have "mem_read mem offset 8 = Some (b # take 7 ys)"
    using assms by (simp add: mem_read_def)
  moreover have "lencint (unat (lencint_unknown (of_nat (le_nat (b # take 7 ys))))) = (if unat b < 128 then 1 else 9)"
    using lencint_guess [of "b # take 7 ys"] by (simp del: le_nat.simps)
  ultimately show ?thesis by (simp add: read_lencint_def del: le_nat.simps)
qed

subsection \<open>The bytes of the packets\<close>

lemma myproto_ok_pkt_spec:
  "myproto_ok_pkt junk pid a i st w = Some \<lparr>pk_length = lencint a + lencint i + 9,
     pk_data = Some (mysql_hdr (lencint a + lencint i + 5) pid @ [0] @ writeencint a @ writeencint i @ le_bytes 2 st @ le_bytes 2 w)\<rparr>
   \<and> pkt_ok \<lparr>pk_length = lencint a + lencint i + 9,
     pk_data = Some (mysql_hdr (lencint a + lencint i + 5) pid @ [0] @ writeencint a @ writeencint i @ le_bytes 2 st @ le_bytes 2 w)\<rparr>"
proof -
  have "lencint v \<le> 9" for v by (simp add: lencint_def)
  from this [of a] this [of i] have "lencint a + lencint i + 5 < 2 ^ 24" by simp
  moreover have n: "1 + lencint a + lencint i + 2 + 2 = lencint a + lencint i + 5" by simp
  moreover have m: "lencint a + lencint i + 9 = lencint a + lencint i + 5 + 4" by simp
  ultimately show ?thesis
    unfolding myproto_ok_pkt_def n m
    using make_pkt_puts [of "[[0], writeencint a, writeencint i, le_bytes 2 st, le_bytes 2 w]"
        "lencint a + lencint i + 5" _ junk pid] by (simp del: add.assoc)
qed

lemma myproto_eof_spec:
  "myproto_eof junk pid w st = Some \<lparr>pk_length = 9,
     pk_data = Some (mysql_hdr 5 pid @ [0xfe] @ le_bytes 2 w @ le_bytes 2 st)\<rparr>
   \<and> pkt_ok \<lparr>pk_length = 9, pk_data = Some (mysql_hdr 5 pid @ [0xfe] @ le_bytes 2 w @ le_bytes 2 st)\<rparr>"
  using make_pkt_puts [of "[[0xfe], le_bytes 2 w, le_bytes 2 st]" 5 _ junk pid]
  by (simp add: myproto_eof_def)

lemma create_ok_packet_spec:
  "create_ok_packet junk pid = Some \<lparr>pk_length = 11, pk_data = Some (mysql_hdr 7 pid @ [0, 0, 0, 2, 0, 0, 0])\<rparr>
   \<and> pkt_ok \<lparr>pk_length = 11, pk_data = Some (mysql_hdr 7 pid @ [0, 0, 0, 2, 0, 0, 0])\<rparr>"
  using make_pkt_puts [of "[[0, 0, 0, 2, 0, 0, 0]]" 7 _ junk pid]
  by (simp add: create_ok_packet_def)

lemma create_err_packet_spec:
  assumes "length e < 2 ^ 24 - 3"
  shows "create_err_packet junk pid c e = Some \<lparr>pk_length = length e + 7,
           pk_data = Some (mysql_hdr (length e + 3) pid @ [0xff] @ le_bytes 2 c @ e)\<rparr>
         \<and> pkt_ok \<lparr>pk_length = length e + 7, pk_data = Some (mysql_hdr (length e + 3) pid @ [0xff] @ le_bytes 2 c @ e)\<rparr>"
  using make_pkt_puts [of "[[0xff], le_bytes 2 c, e]" "length e + 3" _ junk pid] assms
  by (simp add: create_err_packet_def add.commute)

definition enc_str :: "cstr \<Rightarrow> byte list" where
  "enc_str s = writeencint (length s) @ s"

lemma length_enc_str: "length (enc_str s) = enc_strlen s"
  by (simp add: enc_str_def enc_strlen_def)

lemma writeencstrnull_puts:
  assumes "length s < 65536"
  obtains bss where "writeencstrnull (Some s) = Some (map Put bss)" and "concat bss = enc_str s"
proof (cases "length s < 251")
  case True
  then show ?thesis
    by (intro that [of "[le_bytes 1 (length s), s]"])
      (simp_all add: writeencstrnull_def enc_str_def writeencint_def lencint_def)
next
  case False
  with assms show ?thesis
    by (intro that [of "[[0xfc], le_bytes 2 (length s), s]"])
      (simp_all add: writeencstrnull_def enc_str_def writeencint_def lencint_def)
qed

definition column_payload :: "column \<Rightarrow> byte list" where
  "column_payload c = [0x03, 0x64, 0x65, 0x66] @ enc_str (col_schema c) @ enc_str (col_table c)
     @ enc_str (col_org_table c) @ enc_str (col_name c) @ enc_str (col_org_name c)
     @ [0x0c, 0x21, 0x00] @ le_bytes 4 (col_length c) @ le_bytes 1 (col_type c)
     @ le_bytes 2 (col_flags c) @ le_bytes 1 (col_decimals c) @ [0, 0]"

lemma myproto_column_def_spec:
  assumes "\<forall>s \<in> {col_schema c, col_table c, col_org_table c, col_name c, col_org_name c}. length s < 65536"
  shows "myproto_column_def junk pid c
           = Some \<lparr>pk_length = length (column_payload c) + 4,
                   pk_data = Some (mysql_hdr (length (column_payload c)) pid @ column_payload c)\<rparr>
         \<and> pkt_ok \<lparr>pk_length = length (column_payload c) + 4,
                   pk_data = Some (mysql_hdr (length (column_payload c)) pid @ column_payload c)\<rparr>"
proof -
  obtain b1 b2 b3 b4 b5 where b:
      "writeencstrnull (Some (col_schema c)) = Some (map Put b1)" "concat b1 = enc_str (col_schema c)"
      "writeencstrnull (Some (col_table c)) = Some (map Put b2)" "concat b2 = enc_str (col_table c)"
      "writeencstrnull (Some (col_org_table c)) = Some (map Put b3)" "concat b3 = enc_str (col_org_table c)"
      "writeencstrnull (Some (col_name c)) = Some (map Put b4)" "concat b4 = enc_str (col_name c)"
      "writeencstrnull (Some (col_org_name c)) = Some (map Put b5)" "concat b5 = enc_str (col_org_name c)"
    using assms writeencstrnull_puts by (metis insertCI)
  let ?bss = "[[0x03, 0x64, 0x65, 0x66]] @ b1 @ b2 @ b3 @ b4 @ b5
    @ [[0x0c, 0x21, 0x00], le_bytes 4 (col_length c), le_bytes 1 (col_type c),
       le_bytes 2 (col_flags c), le_bytes 1 (col_decimals c), [0, 0]]"
  have cat: "concat ?bss = column_payload c" by (simp add: column_payload_def b del: le_bytes.simps)
  have n: "4 + enc_strlen (col_schema c) + enc_strlen (col_table c) + enc_strlen (col_org_table c)
        + enc_strlen (col_name c) + enc_strlen (col_org_name c) + (1 + 2) + 4 + 1 + 2 + 1 + 2
        = length (column_payload c)"
    by (simp add: column_payload_def length_enc_str)
  have "enc_strlen s < 65545" if "length s < 65536" for s
    using that by (simp add: enc_strlen_def lencint_def)
  then have "enc_strlen (col_schema c) < 65545" "enc_strlen (col_table c) < 65545"
      "enc_strlen (col_org_table c) < 65545" "enc_strlen (col_name c) < 65545" "enc_strlen (col_org_name c) < 65545"
    using assms by auto
  then have lt: "length (column_payload c) < 2 ^ 24" unfolding n [symmetric] by simp
  have "myproto_column_def junk pid c = make_pkt (fresh junk) (length (column_payload c)) pid (map Put ?bss)"
    unfolding myproto_column_def_def n by (simp add: b)
  then show ?thesis
    using make_pkt_puts [OF _ lt refl, of ?bss junk pid] unfolding cat by simp
qed

lemma mysql_response_first:
  assumes "pk_data p = Some (mysql_hdr n i @ b # rest)"
  shows "mysql_response p = Some (if b = 0 then OK_Packet else if b = 0xff then ERR_Packet
           else if b = 0xfe \<and> pk_length p - 4 < 9 then EOF_Packet else UNKNOWN_Packet)"
proof -
  have "mem_read (mysql_hdr n i @ b # rest) hdr_size 1 = Some [b]"
    using mem_read_prefix [of hdr_size "mysql_hdr n i" 1 "[b]" rest] by (simp add: hdr_size_def)
  with assms show ?thesis by (simp add: mysql_response_def hdr_size_def)
qed

subsection \<open>The scramble\<close>

lemma rnd_char_bounds:
  assumes "fst st < rnd_max"
  shows "33 \<le> unat (rnd_char st) \<and> unat (rnd_char st) \<le> 126"
proof -
  have "fst st * 94 < 94 * rnd_max" using assms by simp
  then have "fst st * 94 div rnd_max < 94"
    by (intro less_mult_imp_div_less) (simp add: mult.commute)
  moreover from this have "unat (of_nat (fst st * 94 div rnd_max + 33) :: byte) = fst st * 94 div rnd_max + 33"
    by (simp only: unat_of_nat) simp
  ultimately show ?thesis by (simp only: rnd_char_def) simp
qed

lemma proxy_my_rnd_lt: "fst (proxy_my_rnd st) < rnd_max"
  by (simp add: proxy_my_rnd_def rnd_max_def Let_def split: prod.split)

lemma random_chars_spec:
  "random_chars n st = (cs, st') \<Longrightarrow> length cs = n \<and> (\<forall>c \<in> set cs. 33 \<le> unat c \<and> unat c \<le> 126)"
proof (induction n arbitrary: st cs st')
  case (Suc n)
  obtain cs' st'' where r: "random_chars n (proxy_my_rnd st) = (cs', st'')" by (cases "random_chars n (proxy_my_rnd st)")
  with Suc.prems have "cs = rnd_char (proxy_my_rnd st) # cs'" by (simp add: Let_def)
  with Suc.IH [OF r] rnd_char_bounds [OF proxy_my_rnd_lt, of st] show ?case by simp
qed simp

lemma replace_zeros_id:
  assumes "0 \<notin> set (take (to - from) (drop from buf))" and "from \<le> to"
  shows "replace_zeros buf from to = buf"
proof -
  have "map (\<lambda>b. if b = 0 then 97 else b) (take (to - from) (drop from buf)) = take (to - from) (drop from buf)"
    using assms(1) by (intro map_idI) auto
  then have "replace_zeros buf from to = take from buf @ take (to - from) (drop from buf) @ drop to buf"
    by (simp add: replace_zeros_def)
  also have "drop to buf = drop (to - from) (drop from buf)" using assms(2) by simp
  finally show ?thesis by (simp only: append_take_drop_id)
qed

definition handshake_payload :: "server_greeting \<Rightarrow> nat \<Rightarrow> byte list \<Rightarrow> byte list" where
  "handshake_payload glo thread_id scramble =
     [sg_protocol_version glo] @ sg_mysql_server_version glo @ [0] @ le_bytes 4 thread_id
     @ take 8 scramble @ [0] @ le_bytes 2 (sg_server_capabilities glo) @ le_bytes 1 (sg_server_language glo)
     @ le_bytes 2 (sg_server_status glo) @ [0x0f, 0x80, 0x15] @ replicate 10 0
     @ drop 8 scramble @ [0] @ str ''mysql_native_password'' @ [0]"

lemma scramble_strings:
  assumes "length buf = 21"
  shows "\<exists>cs1 cs2 st1 st2. random_chars 8 st = (cs1, st1) \<and> random_chars 12 st1 = (cs2, st2)
           \<and> proxy_create_random_string buf 0 8 st = Some (cs1 @ [0] @ drop 9 buf, st1)
           \<and> replace_zeros (cs1 @ [0] @ drop 9 buf) 0 8 = cs1 @ [0] @ drop 9 buf
           \<and> proxy_create_random_string (cs1 @ [0] @ drop 9 buf) 8 12 st1 = Some (cs1 @ cs2 @ [0], st2)
           \<and> replace_zeros (cs1 @ cs2 @ [0]) 8 20 = cs1 @ cs2 @ [0]
           \<and> length cs1 = 8 \<and> length cs2 = 12 \<and> (\<forall>c \<in> set (cs1 @ cs2). 33 \<le> unat c \<and> unat c \<le> 126)"
proof -
  obtain cs1 st1 where 1: "random_chars 8 st = (cs1, st1)" by (cases "random_chars 8 st")
  obtain cs2 st2 where 2: "random_chars 12 st1 = (cs2, st2)" by (cases "random_chars 12 st1")
  note c1 = random_chars_spec [OF 1] and c2 = random_chars_spec [OF 2]
  have z1: "0 \<notin> set cs1" using c1 by auto
  have z2: "0 \<notin> set cs2" using c2 by auto
  have "proxy_create_random_string buf 0 8 st = Some (cs1 @ [0] @ drop 9 buf, st1)"
    using 1 c1 assms by (simp add: proxy_create_random_string_def mem_write_def)
  moreover have "replace_zeros (cs1 @ [0] @ drop 9 buf) 0 8 = cs1 @ [0] @ drop 9 buf"
    using z1 c1 by (intro replace_zeros_id) simp_all
  moreover have "proxy_create_random_string (cs1 @ [0] @ drop 9 buf) 8 12 st1 = Some (cs1 @ cs2 @ [0], st2)"
    using 2 c1 c2 assms by (simp add: proxy_create_random_string_def mem_write_def)
  moreover have "replace_zeros (cs1 @ cs2 @ [0]) 8 20 = cs1 @ cs2 @ [0]"
    using z2 c1 c2 by (intro replace_zeros_id) simp_all
  ultimately show ?thesis using 1 2 c1 c2 by (auto intro!: exI)
qed

lemma create_handshake_packet_spec:
  assumes "length buf = 21" and "length (sg_mysql_server_version glo) < 2 ^ 16"
  shows "\<exists>cs. length cs = 20 \<and> (\<forall>c \<in> set cs. 33 \<le> unat c \<and> unat c \<le> 126)
           \<and> create_handshake_packet glo tid r1 r2 buf
             = Some (\<lparr>pk_length = length (handshake_payload glo tid cs) + 4,
                      pk_data = Some (mysql_hdr (length (handshake_payload glo tid cs)) 0 @ handshake_payload glo tid cs)\<rparr>,
                     cs @ [0])
           \<and> pkt_ok \<lparr>pk_length = length (handshake_payload glo tid cs) + 4,
                      pk_data = Some (mysql_hdr (length (handshake_payload glo tid cs)) 0 @ handshake_payload glo tid cs)\<rparr>"
proof -
  obtain cs1 cs2 st1 st2 where c: "proxy_create_random_string buf 0 8 (r1 mod rnd_max, r2 mod rnd_max) = Some (cs1 @ [0] @ drop 9 buf, st1)"
      "replace_zeros (cs1 @ [0] @ drop 9 buf) 0 8 = cs1 @ [0] @ drop 9 buf"
      "proxy_create_random_string (cs1 @ [0] @ drop 9 buf) 8 12 st1 = Some (cs1 @ cs2 @ [0], st2)"
      "replace_zeros (cs1 @ cs2 @ [0]) 8 20 = cs1 @ cs2 @ [0]" "length cs1 = 8" "length cs2 = 12"
      "\<forall>c \<in> set (cs1 @ cs2). 33 \<le> unat c \<and> unat c \<le> 126"
    using scramble_strings [OF assms(1), of "(r1 mod rnd_max, r2 mod rnd_max)"] by (elim exE conjE) (rule that)
  let ?v = "sg_mysql_server_version glo"
  let ?os = "[Put [sg_protocol_version glo], Put ?v, Skip 1, Put (le_bytes 4 tid),
        Put cs1, Skip 1, Put (le_bytes 2 (sg_server_capabilities glo)),
        Put (le_bytes 1 (sg_server_language glo)), Put (le_bytes 2 (sg_server_status glo)),
        Put [0x0f, 0x80, 0x15], Skip 10, Put cs2, Skip 1, Put (str ''mysql_native_password'')]"
  let ?p = "handshake_payload glo tid (cs1 @ cs2)"
  define n where "n = length ?v + 68"
  have lp: "length ?p = n" using c(5,6) by (simp add: handshake_payload_def n_def del: le_bytes.simps)
  have "1 + (length ?v + 1) + 4 + 8 + 1 + 2 + 1 + 2 + 3 + 10 + 12 + 1 + (length ''mysql_native_password'' + 1) = n"
    by (simp add: n_def)
  moreover have r: "make_pkt l_alloc0 n 0 ?os = Some \<lparr>pk_length = n + 4, pk_data = Some (mysql_hdr n 0 @ ?p)\<rparr>"
      "pkt_ok \<lparr>pk_length = n + 4, pk_data = Some (mysql_hdr n 0 @ ?p)\<rparr>"
  proof -
    have "render (drop 4 (l_alloc0 (n + 4))) ?os = ?p"
      using c(5,6) by (simp add: l_alloc0_def handshake_payload_def n_def del: le_bytes.simps)
    moreover have "outs_size ?os \<le> n" "n < 2 ^ 24" "length (l_alloc0 (n + 4)) = n + 4"
      using c(5,6) assms(2) by (simp_all add: l_alloc0_def n_def)
    ultimately show "make_pkt l_alloc0 n 0 ?os = Some \<lparr>pk_length = n + 4, pk_data = Some (mysql_hdr n 0 @ ?p)\<rparr>"
        "pkt_ok \<lparr>pk_length = n + 4, pk_data = Some (mysql_hdr n 0 @ ?p)\<rparr>"
      using make_pkt_spec [of ?os n l_alloc0 0] by simp_all
  qed
  ultimately have "create_handshake_packet glo tid r1 r2 buf
      = Some (\<lparr>pk_length = n + 4, pk_data = Some (mysql_hdr n 0 @ ?p)\<rparr>, (cs1 @ cs2) @ [0])"
    using c(1-6) by (simp add: create_handshake_packet_def Let_def)
  then show ?thesis using c(5-7) r(2) lp by (intro exI [of _ "cs1 @ cs2"]) simp
qed

lemma status_of_ok:
  assumes "pk_data p = Some (mysql_hdr n pid @ [0, a, i] @ le_bytes 2 st @ le_bytes 2 w)"
    and "unat a < 128" and "unat i < 128" and "3 \<le> length after" and "st < 65536"
  shows "status_flags after p = Some st"
proof -
  let ?data = "mysql_hdr n pid @ [0, a, i] @ le_bytes 2 st @ le_bytes 2 w"
  have "mysql_response p = Some OK_Packet"
    using mysql_response_first [of p n pid 0] assms(1) by simp
  moreover have "read_lencint (?data @ after) 5 = Some 6"
    using read_lencint_at [of "?data @ after" "mysql_hdr n pid @ [0]" a "i # le_bytes 2 st @ le_bytes 2 w @ after" 5] assms(2,4)
    by simp
  moreover have "read_lencint (?data @ after) 6 = Some 7"
    using read_lencint_at [of "?data @ after" "mysql_hdr n pid @ [0, a]" i "le_bytes 2 st @ le_bytes 2 w @ after" 6] assms(3,4)
    by simp
  moreover have "mem_read (?data @ after) 7 2 = Some (le_bytes 2 st)"
    using mem_read_prefix [of 7 "mysql_hdr n pid @ [0, a, i]" 2 "le_bytes 2 st" "le_bytes 2 w @ after"] by simp
  ultimately show ?thesis
    using assms(1,5) by (simp add: status_flags_def hdr_size_def le_nat_bytes)
qed

subsection \<open>Properties\<close>

text \<open>
  C25. Length-encoded integers: for every 64-bit value \<^verbatim>\<open>writeencint\<close> writes as many bytes as
  \<^verbatim>\<open>lencint\<close> announces, and a reader that follows the MySQL documentation reads back the value and
  finds the bytes behind it.
\<close>

theorem writeencint_roundtrip:
  assumes "v < 2 ^ 64"
  shows "lenenc_decode (writeencint v @ rest) = Some (v, rest) \<and> length (writeencint v) = lencint v"
  using assms by (simp add: lenenc_decode_writeencint)

theorem writeencint_roundtrip_witness:
  "lenenc_decode (writeencint 70000 @ [1, 2]) = Some (70000, [1, 2]) \<and> length (writeencint 70000) = lencint 70000"
  by (rule writeencint_roundtrip) simp

text \<open>
  C26. Response packets: \<^verbatim>\<open>myproto_ok_pkt\<close>, \<^verbatim>\<open>create_err_packet\<close> and \<^verbatim>\<open>myproto_eof\<close> fill their block
  completely and stay inside it (no uninitialised byte is in the packet), the header announces
  the payload, and \<^verbatim>\<open>mysql_response\<close> classifies each as what it is.
\<close>

theorem response_packets:
  assumes "length errstr < 2 ^ 24 - 3"
  shows "(\<exists>p. myproto_ok_pkt junk pid a i st w = Some p \<and> pkt_ok p \<and> mysql_response p = Some OK_Packet
           \<and> drop 4 (pkt_bytes p) = [0] @ writeencint a @ writeencint i @ le_bytes 2 st @ le_bytes 2 w)
       \<and> (\<exists>p. create_err_packet junk pid errcode errstr = Some p \<and> pkt_ok p \<and> mysql_response p = Some ERR_Packet
           \<and> drop 4 (pkt_bytes p) = [0xff] @ le_bytes 2 errcode @ errstr)
       \<and> (\<exists>p. myproto_eof junk pid w st = Some p \<and> pkt_ok p \<and> mysql_response p = Some EOF_Packet
           \<and> drop 4 (pkt_bytes p) = [0xfe] @ le_bytes 2 w @ le_bytes 2 st)"
  using myproto_ok_pkt_spec [of junk pid a i st w] create_err_packet_spec [OF assms, of junk pid errcode]
    myproto_eof_spec [of junk pid w st]
  by (simp add: mysql_response_first pkt_bytes_def del: le_bytes.simps)

theorem response_packets_witness:
  "(\<exists>p. myproto_ok_pkt (\<lambda>_. 7) 1 300 0 2 0 = Some p \<and> pkt_ok p \<and> mysql_response p = Some OK_Packet
      \<and> drop 4 (pkt_bytes p) = [0] @ writeencint 300 @ writeencint 0 @ le_bytes 2 2 @ le_bytes 2 0)
   \<and> (\<exists>p. create_err_packet (\<lambda>_. 7) 1 1045 (str ''denied'') = Some p \<and> pkt_ok p \<and> mysql_response p = Some ERR_Packet
      \<and> drop 4 (pkt_bytes p) = [0xff] @ le_bytes 2 1045 @ str ''denied'')
   \<and> (\<exists>p. myproto_eof (\<lambda>_. 7) 1 0 2 = Some p \<and> pkt_ok p \<and> mysql_response p = Some EOF_Packet
      \<and> drop 4 (pkt_bytes p) = [0xfe] @ le_bytes 2 0 @ le_bytes 2 2)"
  by (rule response_packets) simp

text \<open>
  Column definitions: when the five names are shorter than 65536 bytes,
  \<^verbatim>\<open>myproto_column_def\<close> builds a well-framed packet whose payload is the protocol's column
  definition, every byte of it determined by the arguments.
\<close>

theorem column_def_bytes:
  assumes "\<forall>s \<in> {col_schema c, col_table c, col_org_table c, col_name c, col_org_name c}. length s < 65536"
  shows "\<exists>p. myproto_column_def junk pid c = Some p \<and> pkt_ok p \<and> drop 4 (pkt_bytes p) = column_payload c
           \<and> mysql_response p = Some UNKNOWN_Packet"
proof -
  let ?p = "\<lparr>pk_length = length (column_payload c) + 4,
              pk_data = Some (mysql_hdr (length (column_payload c)) pid @ column_payload c)\<rparr>"
  have "mysql_response ?p = Some UNKNOWN_Packet"
    by (subst mysql_response_first [of _ _ _ 3]) (simp_all add: column_payload_def)
  then show ?thesis
    using myproto_column_def_spec [OF assms, of junk pid] by (intro exI [of _ ?p]) (simp add: pkt_bytes_def)
qed

theorem column_def_bytes_witness:
  "\<exists>p. myproto_column_def (\<lambda>_. 7) 2 \<lparr>col_schema = [], col_table = [], col_org_table = [], col_name = str ''id'',
        col_org_name = [], col_length = 10, col_type = 3, col_flags = 0, col_decimals = 0\<rparr> = Some p \<and> pkt_ok p
     \<and> drop 4 (pkt_bytes p) = column_payload \<lparr>col_schema = [], col_table = [], col_org_table = [], col_name = str ''id'',
        col_org_name = [], col_length = 10, col_type = 3, col_flags = 0, col_decimals = 0\<rparr>
     \<and> mysql_response p = Some UNKNOWN_Packet"
  by (rule column_def_bytes) simp

text \<open>
  A longer column name leaks memory: with a schema name of 65536 or more bytes
  \<^verbatim>\<open>writeencstrnull\<close> does not write the three bytes of the length, and the packet carries three
  bytes of whatever the allocated block held.
\<close>

theorem column_def_leaks:
  assumes "65536 \<le> length (col_schema c)" and "length (col_schema c) < 2 ^ 23"
    and "\<forall>s \<in> {col_table c, col_org_table c, col_name c, col_org_name c}. s = []"
  shows "\<exists>p. myproto_column_def junk pid c = Some p \<and> take 3 (drop 9 (pkt_bytes p)) = [junk 9, junk 10, junk 11]"
proof -
  let ?n = "4 + enc_strlen (col_schema c) + enc_strlen (col_table c) + enc_strlen (col_org_table c)
        + enc_strlen (col_name c) + enc_strlen (col_org_name c) + (1 + 2) + 4 + 1 + 2 + 1 + 2"
  define os where "os = [Put (col_schema c)] @ map Put [[0], [], [0], [], [0], [], [0], []]
        @ [Put [0x0c, 0x21, 0x00], Put (le_bytes 4 (col_length c)), Put (le_bytes 1 (col_type c)),
           Put (le_bytes 2 (col_flags c)), Put (le_bytes 1 (col_decimals c)), Put [0, 0]]"
  let ?os = "[Put [0x03, 0x64, 0x65, 0x66], Put [0xfd], Skip 3] @ os"
  have "writeencstrnull (Some (col_schema c)) = Some [Put [0xfd], Skip 3, Put (col_schema c)]"
    using assms(1,2) by (simp add: writeencstrnull_def lencint_def)
  then have "myproto_column_def junk pid c = make_pkt (fresh junk) ?n pid ?os"
    using assms(3) by (simp add: myproto_column_def_def writeencstrnull_def lencint_def os_def)
  moreover define n where "n = length (col_schema c) + 25"
  moreover have "?n = n"
    using assms by (simp add: enc_strlen_def lencint_def n_def)
  moreover have size: "outs_size ?os \<le> n" "n < 2 ^ 24" using assms(2) by (simp_all add: os_def n_def)
  ultimately have "myproto_column_def junk pid c = Some \<lparr>pk_length = n + 4,
      pk_data = Some (mysql_hdr n pid @ render (drop 4 (fresh junk (n + 4))) ?os)\<rparr>"
    using make_pkt_spec(1) [OF size, of "fresh junk" pid] by (simp only: length_fresh)
  moreover have "take 3 (drop 9 (fresh junk (n + 4))) = [junk 9, junk 10, junk 11]"
    by (simp add: fresh_def drop_map take_map upt_rec n_def eval_nat_numeral)
  ultimately show ?thesis by (simp add: pkt_bytes_def drop_Cons')
qed

theorem column_def_leaks_witness:
  "\<exists>p. myproto_column_def (\<lambda>i. of_nat (i + 1)) 2 \<lparr>col_schema = replicate 70000 65, col_table = [], col_org_table = [], col_name = [],
        col_org_name = [], col_length = 10, col_type = 3, col_flags = 0, col_decimals = 0\<rparr> = Some p
     \<and> take 3 (drop 9 (pkt_bytes p)) = [10, 11, 12]"
  using column_def_leaks [of "\<lparr>col_schema = replicate 70000 65, col_table = [], col_org_table = [], col_name = [],
        col_org_name = [], col_length = 10, col_type = 3, col_flags = 0, col_decimals = 0\<rparr>" "\<lambda>i. of_nat (i + 1)" 2]
  by simp

text \<open>
  Status of an OK packet: for a packet with fewer than 128 affected rows and a last insert id
  below 128, \<^verbatim>\<open>status_flags\<close> returns the status the packet was built with, and so
  \<^verbatim>\<open>is_transaction_active\<close> reports its transaction bit, provided at least three bytes behind the
  packet can be read.
\<close>

theorem status_roundtrip:
  assumes "a < 128" and "i < 128" and "st < 65536" and "3 \<le> length after"
  shows "\<exists>p. myproto_ok_pkt junk pid a i st w = Some p \<and> status_flags after p = Some st
           \<and> is_transaction_active after p = Some (odd st)"
proof -
  have e: "lencint a = 1" "lencint i = 1" "writeencint a = [of_nat a]" "writeencint i = [of_nat i]"
    using assms(1,2) by (simp_all add: lencint_def writeencint_def)
  let ?p = "\<lparr>pk_length = 11, pk_data = Some (mysql_hdr 7 pid @ [0, of_nat a, of_nat i] @ le_bytes 2 st @ le_bytes 2 w)\<rparr>"
  have "myproto_ok_pkt junk pid a i st w = Some ?p"
    using myproto_ok_pkt_spec [of junk pid a i st w] unfolding e by simp
  moreover have "status_flags after ?p = Some st"
    using assms by (intro status_of_ok [of _ 7 pid "of_nat a" "of_nat i"]) (simp_all add: unat_of_nat)
  ultimately show ?thesis by (intro exI [of _ ?p]) (simp add: is_transaction_active_def)
qed

theorem status_roundtrip_witness:
  "\<exists>p. myproto_ok_pkt (\<lambda>_. 7) 1 5 0 3 0 = Some p \<and> status_flags [9, 9, 9] p = Some 3
     \<and> is_transaction_active [9, 9, 9] p = Some True"
  using status_roundtrip [of 5 0 3 "[9, 9, 9]" "\<lambda>_. 7" 1 0] by simp

text \<open>
  Status misread: for 128 to 250 affected rows, which the protocol encodes in one byte, the
  signed comparison in \<^verbatim>\<open>lencint_unknown\<close> makes \<^verbatim>\<open>status_flags\<close> skip nine bytes. It then takes the
  status from memory behind the packet, so any value can come out whatever the packet says.
\<close>

theorem status_misread:
  assumes "128 \<le> a" and "a < 251" and "x < 65536"
  shows "\<exists>p. myproto_ok_pkt junk pid a 0 st w = Some p \<and> pkt_ok p
           \<and> status_flags ([0, 0, 0, 0] @ le_bytes 2 x @ replicate 8 0) p = Some x"
proof -
  have e: "lencint a = 1" "lencint 0 = 1" "writeencint a = [of_nat a]" "writeencint 0 = [0]"
    using assms(2) by (simp_all add: lencint_def writeencint_def)
  define data where "data = mysql_hdr 7 pid @ [0, of_nat a, 0] @ le_bytes 2 st @ le_bytes 2 w"
  let ?p = "\<lparr>pk_length = 11, pk_data = Some data\<rparr>"
  let ?after = "[0, 0, 0, 0] @ le_bytes 2 x @ replicate 8 0"
  have len: "length data = 11" by (simp add: data_def)
  have "myproto_ok_pkt junk pid a 0 st w = Some ?p \<and> pkt_ok ?p"
    using myproto_ok_pkt_spec [of junk pid a 0 st w] unfolding e data_def by simp
  moreover have "mysql_response ?p = Some OK_Packet"
    using mysql_response_first [of ?p 7 pid 0] by (simp add: data_def)
  moreover have "read_lencint (data @ ?after) 5 = Some 14"
    using read_lencint_at [of "data @ ?after" "mysql_hdr 7 pid @ [0]" "of_nat a"
        "0 # le_bytes 2 st @ le_bytes 2 w @ ?after" 5] assms
    by (simp add: unat_of_nat data_def)
  moreover have "read_lencint (data @ ?after) 14 = Some 15"
    using read_lencint_at [of "data @ ?after" "data @ [0, 0, 0]" 0 "le_bytes 2 x @ replicate 8 0" 14] len by simp
  moreover have "mem_read (data @ ?after) 15 2 = Some (le_bytes 2 x)"
    using mem_read_prefix [of 15 "data @ [0, 0, 0, 0]" 2 "le_bytes 2 x" "replicate 8 0"] len by simp
  ultimately show ?thesis
    using assms(3)
    by (intro exI [of _ ?p]) (simp add: status_flags_def hdr_size_def le_nat_bytes del: append_Cons append_assoc)
qed

theorem status_misread_witness:
  "\<exists>p. myproto_ok_pkt (\<lambda>_. 7) 1 200 0 2 0 = Some p \<and> pkt_ok p
     \<and> status_flags ([0, 0, 0, 0] @ le_bytes 2 1 @ replicate 8 0) p = Some 1"
  by (rule status_misread) simp_all

text \<open>
  The handshake: with a 21-byte scramble buffer and a server version shorter than 65536 bytes,
  \<^verbatim>\<open>create_handshake_packet\<close> stays inside its buffers and builds a well-framed initial handshake, the
  scramble left in the session is the one in the packet, and it consists of 20 printable
  characters (so no zero byte cuts it short) and a terminating zero.
\<close>

theorem handshake_scramble:
  assumes "length scramble_buf = 21" and "length (sg_mysql_server_version glo) < 2 ^ 16"
  shows "\<exists>p cs. create_handshake_packet glo thread_id rand1 rand2 scramble_buf = Some (p, cs @ [0]) \<and> pkt_ok p
           \<and> length cs = 20 \<and> (\<forall>c \<in> set cs. 33 \<le> unat c \<and> unat c \<le> 126)
           \<and> drop 4 (pkt_bytes p) = handshake_payload glo thread_id cs"
  using create_handshake_packet_spec [OF assms, of thread_id rand1 rand2]
  by (elim exE conjE) (auto simp: pkt_bytes_def)

theorem handshake_scramble_witness:
  "\<exists>p cs. create_handshake_packet \<lparr>sg_protocol_version = 10, sg_mysql_server_version = str ''5.1.30'',
        sg_server_capabilities = 0xa20c, sg_server_language = 33, sg_server_status = 2\<rparr> 7 1804289383 846930886 (replicate 21 0)
        = Some (p, cs @ [0]) \<and> pkt_ok p
     \<and> length cs = 20 \<and> (\<forall>c \<in> set cs. 33 \<le> unat c \<and> unat c \<le> 126)
     \<and> drop 4 (pkt_bytes p) = handshake_payload \<lparr>sg_protocol_version = 10, sg_mysql_server_version = str ''5.1.30'',
        sg_server_capabilities = 0xa20c, sg_server_language = 33, sg_server_status = 2\<rparr> 7 cs"
  by (rule handshake_scramble) simp_all

end
