(* ===== verification/Auth.thy ===== *)
theory Auth
  imports Protocol
begin

section \<open>Client authentication\<close>

text \<open>
  The authentication functions of \<^verbatim>\<open>src/mysql_protocol.c\<close>: password lookup, the scramble of the
  mysql\_native\_password method, the check of the client's handshake response, the auth
  switch of \<^verbatim>\<open>COM_CHANGE_USER\<close> and its (deliberately naive) packet parser.

  SHA-1 comes from GLib and is the parameter \<open>sha1\<close>; the properties assume that it
  returns 20 bytes. Every read of a packet is checked against the packet's length: \<open>None\<close> is a read
  outside of it.

  The session fields the functions use are the record \<open>auth_sess\<close>, which the session of the
  later theories extends.
\<close>

unbundle bit_operations_syntax

subsection \<open>Passwords\<close>

record glo_users =
  gu_admin_user :: cstr
  gu_admin_password :: cstr
  gu_monitor_user :: cstr
  gu_monitor_password :: cstr
  gu_usernames :: "cstr \<Rightarrow> cstr option"

text \<open>\<^verbatim>\<open>strncmp(s, t, n) == 0\<close> for C strings.\<close>

definition strncmp_eq :: "cstr \<Rightarrow> cstr \<Rightarrow> nat \<Rightarrow> bool" where
  "strncmp_eq s t n \<longleftrightarrow> take n s = take n t"

definition user_password :: "glo_users \<Rightarrow> cstr \<Rightarrow> int \<Rightarrow> cstr option" where
  "user_password glo username admin =
     (if admin = 1 then
        (if strncmp_eq username (gu_admin_user glo) (length (gu_admin_user glo))
         then Some (gu_admin_password glo) else None)
      else if admin = 2 then
        (if strncmp_eq username (gu_monitor_user glo) (length (gu_monitor_user glo))
         then Some (gu_monitor_password glo) else None)
      else gu_usernames glo username)"

subsection \<open>The scramble\<close>

definition proxy_compute_sha1_hash :: "(byte list \<Rightarrow> byte list) \<Rightarrow> byte list \<Rightarrow> byte list" where
  "proxy_compute_sha1_hash sha1 buf = sha1 buf"

definition proxy_compute_sha1_hash_multi ::
    "(byte list \<Rightarrow> byte list) \<Rightarrow> byte list \<Rightarrow> byte list \<Rightarrow> byte list" where
  "proxy_compute_sha1_hash_multi sha1 buf1 buf2 = sha1 (buf1 @ buf2)"

definition proxy_compute_two_stage_sha1_hash ::
    "(byte list \<Rightarrow> byte list) \<Rightarrow> cstr \<Rightarrow> byte list \<times> byte list" where
  "proxy_compute_two_stage_sha1_hash sha1 password =
     (let hash_stage1 = proxy_compute_sha1_hash sha1 password
      in (hash_stage1, proxy_compute_sha1_hash sha1 hash_stage1))"

definition proxy_my_crypt :: "byte list \<Rightarrow> byte list \<Rightarrow> byte list" where
  "proxy_my_crypt s1 s2 = map2 (XOR) s1 s2"

definition proxy_scramble :: "(byte list \<Rightarrow> byte list) \<Rightarrow> byte list \<Rightarrow> cstr \<Rightarrow> byte list" where
  "proxy_scramble sha1 message password =
     (let (hash_stage1, hash_stage2) = proxy_compute_two_stage_sha1_hash sha1 password;
          to = proxy_compute_sha1_hash_multi sha1 (take 20 message) hash_stage2
      in proxy_my_crypt to hash_stage1)"

subsection \<open>Checks\<close>

record auth_sess =
  as_admin :: int
  as_username :: "cstr option"
  as_password :: "cstr option"
  as_schema_cur :: "cstr option"
  as_scramble_buf :: "byte list"
  as_waiting_change_user_response :: bool

definition read_cstr :: "byte list \<Rightarrow> nat \<Rightarrow> cstr option" where
  "read_cstr buf off = (if 0 \<in> set (drop off buf) then Some (c_string (drop off buf)) else None)"

definition check_client_authentication_packet ::
    "(byte list \<Rightarrow> byte list) \<Rightarrow> glo_users \<Rightarrow> pkt \<Rightarrow> 'a auth_sess_scheme \<Rightarrow> (int \<times> 'a auth_sess_scheme) option" where
  "check_client_authentication_packet sha1 glo mypkt sess = do {
     data \<leftarrow> pk_data mypkt;
     let cur = hdr_size;
     capabilities \<leftarrow> mem_read data cur 4;
     let cur = cur + 32;
     username \<leftarrow> read_cstr data cur;
     let sess = sess\<lparr>as_username := Some username\<rparr>;
     let cur = cur + length username + 1;
     c \<leftarrow> mem_read data cur 1;
     let cur = cur + 1;
     let scramble_reply = (if c \<noteq> [0] then Some cur else None);
     let cur = (if c \<noteq> [0] then cur + le_nat c else cur);
     let sess = sess\<lparr>as_password := user_password glo username (as_admin sess)\<rparr>;
     case as_password sess of
       None \<Rightarrow> Some (-1, sess)
     | Some password \<Rightarrow> do {
         match \<leftarrow> (case scramble_reply of
                     Some off \<Rightarrow> do {
                       bytes \<leftarrow> mem_read data off 20;
                       Some (proxy_scramble sha1 (as_scramble_buf sess) password = bytes)
                     }
                   | None \<Rightarrow> Some (password = []));
         if match then
           (if cur \<noteq> pk_length mypkt \<and> odd (le_nat capabilities div 8)
            then do { schema \<leftarrow> read_cstr data cur; Some (0, sess\<lparr>as_schema_cur := Some schema\<rparr>) }
            else Some (0, sess))
         else Some (-1, sess)
       }
   }"

definition parse_change_user_packet ::
    "pkt \<Rightarrow> 'a auth_sess_scheme \<Rightarrow> (int \<times> 'a auth_sess_scheme) option" where
  "parse_change_user_packet mypkt sess = do {
     data \<leftarrow> pk_data mypkt;
     let cur = hdr_size + 1;
     username \<leftarrow> read_cstr data cur;
     let cur = cur + length username + 2 + 20;
     schema \<leftarrow> read_cstr data cur;
     Some (0, sess\<lparr>as_username := Some username, as_schema_cur := Some schema\<rparr>)
   }"

definition check_auth_switch_response_packet ::
    "(byte list \<Rightarrow> byte list) \<Rightarrow> glo_users \<Rightarrow> pkt \<Rightarrow> 'a auth_sess_scheme \<Rightarrow> (int \<times> 'a auth_sess_scheme) option" where
  "check_auth_switch_response_packet sha1 glo mypkt sess =
     (let sess = sess\<lparr>as_waiting_change_user_response := False\<rparr>
      in if pk_length mypkt \<noteq> hdr_size + 20 then Some (-1, sess)
         else do {
           data \<leftarrow> pk_data mypkt;
           myhdr \<leftarrow> mem_read data 0 hdr_size;
           if hdr_pkt_length myhdr \<noteq> 20 then Some (-1, sess)
           else do {
             username \<leftarrow> as_username sess;
             let sess = sess\<lparr>as_password := user_password glo username (as_admin sess)\<rparr>;
             case as_password sess of
               None \<Rightarrow> Some (-1, sess)
             | Some password \<Rightarrow> do {
                 scramble_reply \<leftarrow> mem_read data hdr_size 20;
                 Some (if proxy_scramble sha1 (as_scramble_buf sess) password = scramble_reply then 0 else -1, sess)
               }
           }
         })"

subsection \<open>Lemmas\<close>

lemma length_proxy_scramble:
  assumes "\<And>x. length (sha1 x) = 20"
  shows "length (proxy_scramble sha1 m pw) = 20"
  using assms
  by (simp add: proxy_scramble_def proxy_compute_two_stage_sha1_hash_def proxy_compute_sha1_hash_def
      proxy_compute_sha1_hash_multi_def proxy_my_crypt_def Let_def)

text \<open>Encrypting twice with the same key gives the message back.\<close>

lemma proxy_my_crypt_twice: "length s1 = length s2 \<Longrightarrow> proxy_my_crypt (proxy_my_crypt s1 s2) s2 = s1"
  by (induction s1 s2 rule: list_induct2) (simp_all add: proxy_my_crypt_def xor.assoc)

lemma proxy_my_crypt_commute: "length s1 = length s2 \<Longrightarrow> proxy_my_crypt s1 s2 = proxy_my_crypt s2 s1"
  by (induction s1 s2 rule: list_induct2) (simp_all add: proxy_my_crypt_def xor.commute)

lemma read_cstr_at: "off = length xs \<Longrightarrow> 0 \<notin> set s \<Longrightarrow> read_cstr (xs @ s @ 0 # rest) off = Some s"
  by (simp add: read_cstr_def)

text \<open>
  The handshake response of a client, as the protocol lays it out: header, capabilities, 28 bytes of
  maximum packet size, character set and filler, user name, length-prefixed reply, schema.
\<close>

definition client_response ::
    "nat \<Rightarrow> nat \<Rightarrow> byte list \<Rightarrow> cstr \<Rightarrow> byte list \<Rightarrow> byte list \<Rightarrow> byte list" where
  "client_response pid capabilities filler username reply rest =
     mysql_hdr (34 + length username + length reply + length rest) pid @ le_bytes 4 capabilities @ filler
     @ username @ [0] @ [of_nat (length reply)] @ reply @ rest"

lemma check_client_response:
  fixes sess :: "'a auth_sess_scheme"
  assumes "length filler = 28" and "0 \<notin> set username" and "length reply = 20"
    and "capabilities < 2 ^ 32"
    and "rest = [] \<or> rest = schema @ [0]" and "0 \<notin> set schema"
  shows "check_client_authentication_packet sha1 glo
           \<lparr>pk_length = length (client_response pid capabilities filler username reply rest),
            pk_data = Some (client_response pid capabilities filler username reply rest)\<rparr> sess =
     (let sess' = sess\<lparr>as_username := Some username, as_password := user_password glo username (as_admin sess)\<rparr>
      in Some (case user_password glo username (as_admin sess) of
           None \<Rightarrow> (-1, sess')
         | Some pw \<Rightarrow>
             if proxy_scramble sha1 (as_scramble_buf sess) pw = reply
             then (0, if rest \<noteq> [] \<and> odd (capabilities div 8) then sess'\<lparr>as_schema_cur := Some schema\<rparr> else sess')
             else (-1, sess')))"
proof -
  define h where "h = mysql_hdr (34 + length username + length reply + length rest) pid"
  define d where "d = client_response pid capabilities filler username reply rest"
  define b where "b = (20 :: byte)"
  have b: "b \<noteq> 0" "unat b = 20" by (simp_all add: b_def)
  have h: "length h = 4" by (simp add: h_def)
  have d: "d = h @ le_bytes 4 capabilities @ filler @ username @ 0 # b # reply @ rest"
    using assms(3) by (simp add: d_def client_response_def h_def b_def del: le_bytes.simps)
  have r1: "mem_read d 4 4 = Some (le_bytes 4 capabilities)"
    using mem_read_prefix [of 4 h 4 "le_bytes 4 capabilities" "filler @ username @ 0 # b # reply @ rest"] h
    by (simp add: d del: le_bytes.simps)
  have r2: "read_cstr d 36 = Some username"
    using read_cstr_at [of 36 "h @ le_bytes 4 capabilities @ filler" username "b # reply @ rest"] h assms(1,2)
    by (simp add: d del: le_bytes.simps)
  have r3: "mem_read d (37 + length username) 1 = Some [b]"
    using mem_read_prefix [of "37 + length username" "h @ le_bytes 4 capabilities @ filler @ username @ [0]" 1 "[b]" "reply @ rest"]
      h assms(1) by (simp add: d del: le_bytes.simps)
  have r4: "mem_read d (38 + length username) 20 = Some reply"
    using mem_read_prefix [of "38 + length username" "h @ le_bytes 4 capabilities @ filler @ username @ [0, b]" 20 reply rest]
      h assms(1,3) by (simp add: d del: le_bytes.simps)
  have len: "length d = 58 + length username + length rest"
    using h assms(1,3) by (simp add: d del: le_bytes.simps)
  have r5: "read_cstr d (58 + length username) = Some schema" if "rest = schema @ [0]"
    using read_cstr_at [of "58 + length username" "h @ le_bytes 4 capabilities @ filler @ username @ 0 # b # reply" schema "[]"]
      h assms(1,3,6) that by (simp add: d del: le_bytes.simps)
  show ?thesis
  proof (cases "user_password glo username (as_admin sess)")
    case None
    then show ?thesis
      unfolding d_def [symmetric]
      using r1 r2 r3 by (simp add: check_client_authentication_packet_def hdr_size_def Let_def)
  next
    case (Some pw)
    have c: "le_nat (le_bytes 4 capabilities) = capabilities" using assms(4) by (simp add: le_nat_bytes)
    show ?thesis
      unfolding d_def [symmetric]
      using assms(5) Some r1 r2 r3 r4 r5 len b c
      by (auto simp: check_client_authentication_packet_def hdr_size_def Let_def)
  qed
qed

subsection \<open>Properties\<close>



text \<open>
  C28. The scramble is the one of the MySQL documentation: a server that stores only
  \<open>SHA1(SHA1(password))\<close> recovers \<open>SHA1(password)\<close> from the reply, so hashing it gives the stored value.
\<close>

theorem scramble_native:
  assumes "\<And>x. length (sha1 x) = 20"
  shows "proxy_my_crypt (proxy_scramble sha1 message password) (sha1 (take 20 message @ sha1 (sha1 password))) = sha1 password"
proof -
  let ?m = "sha1 (take 20 message @ sha1 (sha1 password))"
  have s: "proxy_scramble sha1 message password = proxy_my_crypt ?m (sha1 password)"
    by (simp add: proxy_scramble_def proxy_compute_two_stage_sha1_hash_def proxy_compute_sha1_hash_def
        proxy_compute_sha1_hash_multi_def Let_def)
  have l: "length ?m = length (sha1 password)" by (simp only: assms)
  show ?thesis
    unfolding s proxy_my_crypt_commute [OF l] by (rule proxy_my_crypt_twice) (simp only: assms)
qed

theorem scramble_native_witness:
  "proxy_my_crypt (proxy_scramble (\<lambda>x. replicate 20 (of_nat (length x))) (str ''abc'') (str ''secret''))
     (replicate 20 23) = replicate 20 6"
  using scramble_native [of "\<lambda>x. replicate 20 (of_nat (length x))" "str ''abc''" "str ''secret''"] by simp

text \<open>
  The administrator's name is only compared on its own length: every user name that starts with it
  is given the administrator's password, on the admin port and likewise on the monitor port.
\<close>

theorem admin_name_prefix:
  "user_password glo (gu_admin_user glo @ suffix) 1 = Some (gu_admin_password glo)
   \<and> user_password glo (gu_monitor_user glo @ suffix) 2 = Some (gu_monitor_password glo)"
  by (simp add: user_password_def strncmp_eq_def)

text \<open>
  Change user: with a 20-byte reply \<^verbatim>\<open>parse_change_user_packet\<close> finds the user and the schema. The
  length of the reply is never looked at: with an empty reply and a schema of at most 19 bytes it
  reads outside of the packet.
\<close>

theorem change_user_reply_length:
  fixes sess :: "'a auth_sess_scheme"
  assumes "0 \<notin> set username" and "0 \<notin> set schema" and "length reply = 20" and "length schema \<le> 19"
  shows "parse_change_user_packet \<lparr>pk_length = n,
           pk_data = Some (mysql_hdr n pid @ [17] @ username @ [0, 20] @ reply @ schema @ [0])\<rparr> sess
         = Some (0, sess\<lparr>as_username := Some username, as_schema_cur := Some schema\<rparr>)
       \<and> parse_change_user_packet \<lparr>pk_length = m,
           pk_data = Some (mysql_hdr m pid @ [17] @ username @ [0, 0] @ schema @ [0])\<rparr> sess = None"
proof
  let ?d = "mysql_hdr n pid @ [17] @ username @ [0, 20] @ reply @ schema @ [0]"
  have 1: "read_cstr ?d 5 = Some username"
    using read_cstr_at [of 5 "mysql_hdr n pid @ [17]" username "20 # reply @ schema @ [0]"] assms(1) by simp
  have 2: "read_cstr ?d (5 + length username + 2 + 20) = Some schema"
    using read_cstr_at [of "5 + length username + 2 + 20" "mysql_hdr n pid @ [17] @ username @ [0, 20] @ reply" schema "[]"]
      assms(2,3) by simp
  show "parse_change_user_packet \<lparr>pk_length = n, pk_data = Some ?d\<rparr> sess
      = Some (0, sess\<lparr>as_username := Some username, as_schema_cur := Some schema\<rparr>)"
    using 1 2 by (simp add: parse_change_user_packet_def hdr_size_def Let_def del: append_Cons append_assoc)
next
  let ?d = "mysql_hdr m pid @ [17] @ username @ [0, 0] @ schema @ [0]"
  have 1: "read_cstr ?d 5 = Some username"
    using read_cstr_at [of 5 "mysql_hdr m pid @ [17]" username "0 # schema @ [0]"] assms(1) by simp
  have "length ?d \<le> 5 + length username + 2 + 20" using assms(4) by simp
  then have "drop (5 + length username + 2 + 20) ?d = []" by (simp only: drop_all)
  then have 2: "read_cstr ?d (5 + length username + 2 + 20) = None" by (simp only: read_cstr_def) simp
  show "parse_change_user_packet \<lparr>pk_length = m, pk_data = Some ?d\<rparr> sess = None"
    using 1 2 by (simp add: parse_change_user_packet_def hdr_size_def Let_def del: append_Cons append_assoc)
qed

theorem change_user_reply_length_witness:
  "parse_change_user_packet \<lparr>pk_length = 31,
       pk_data = Some (mysql_hdr 31 0 @ [17] @ str ''bob'' @ [0, 20] @ replicate 20 1 @ str ''db'' @ [0])\<rparr>
       \<lparr>as_admin = 0, as_username = None, as_password = None, as_schema_cur = None, as_scramble_buf = [],
        as_waiting_change_user_response = False\<rparr>
     = Some (0, \<lparr>as_admin = 0, as_username = Some (str ''bob''), as_password = None, as_schema_cur = Some (str ''db''),
        as_scramble_buf = [], as_waiting_change_user_response = False\<rparr>)
   \<and> parse_change_user_packet \<lparr>pk_length = 11,
       pk_data = Some (mysql_hdr 11 0 @ [17] @ str ''bob'' @ [0, 0] @ str ''db'' @ [0])\<rparr>
       \<lparr>as_admin = 0, as_username = None, as_password = None, as_schema_cur = None, as_scramble_buf = [],
        as_waiting_change_user_response = False\<rparr> = None"
  using change_user_reply_length [of "str ''bob''" "str ''db''" "replicate 20 1" 31 0
      "\<lparr>as_admin = 0, as_username = None, as_password = None, as_schema_cur = None, as_scramble_buf = [],
        as_waiting_change_user_response = False\<rparr>" 11]
  by (simp add: str_def)

end
