(* ===== verification/QueryDigest.thy ===== *)
theory QueryDigest
  imports Prelude
begin

section \<open>Query digests\<close>

text \<open>
  \<^verbatim>\<open>src/tokenizer.c\<close>: the text of a query with its literals replaced by \<^verbatim>\<open>?\<close>, comments dropped and runs
  of spaces squeezed, and the digest's MD5 text.

  \<^verbatim>\<open>mysql_query_digest\<close> is one loop over the query with two pointers into the query and the result:
  the state \<open>tok\<close> holds the indices \<open>tk_s\<close>, \<open>tk_p\<close> and \<open>tk_t\<close> for \<^verbatim>\<open>s\<close>, \<^verbatim>\<open>p_r\<close> and
  \<^verbatim>\<open>p_r_t\<close>. Every access is checked against the query and the allocated result (\<open>None\<close> outside), pointer
  subtraction below the start of the result included. \<open>digest_step\<close> is the loop body; the loop is a
  partial function whose termination is a theorem.

  The comparisons of the C code on (signed) \<^verbatim>\<open>char\<close> are on bytes below 128, where both readings
  agree.
\<close>

subsection \<open>Character classes\<close>

abbreviation ch_space :: byte where "ch_space \<equiv> 32"
abbreviation ch_dquote :: byte where "ch_dquote \<equiv> 34"
abbreviation ch_hash :: byte where "ch_hash \<equiv> 35"
abbreviation ch_quote :: byte where "ch_quote \<equiv> 39"
abbreviation ch_star :: byte where "ch_star \<equiv> 42"
abbreviation ch_slash :: byte where "ch_slash \<equiv> 47"
abbreviation ch_quest :: byte where "ch_quest \<equiv> 63"
abbreviation ch_X :: byte where "ch_X \<equiv> 88"
abbreviation ch_backslash :: byte where "ch_backslash \<equiv> 92"

definition is_normal_char :: "byte \<Rightarrow> bool" where
  "is_normal_char c \<longleftrightarrow> 97 \<le> c \<and> c \<le> 122 \<or> 65 \<le> c \<and> c \<le> 90 \<or> 48 \<le> c \<and> c \<le> 57 \<or> c = 36 \<or> c = 95"

definition is_token_char :: "byte \<Rightarrow> bool" where
  "is_token_char c \<longleftrightarrow> \<not> is_normal_char c"

definition is_space_char :: "byte \<Rightarrow> bool" where
  "is_space_char c \<longleftrightarrow> c = 32 \<or> c = 9 \<or> c = 10 \<or> c = 13"

definition is_digit_char :: "byte \<Rightarrow> bool" where
  "is_digit_char c \<longleftrightarrow> 48 \<le> c \<and> c \<le> 57"

definition is_hex_char :: "byte \<Rightarrow> bool" where
  "is_hex_char c \<longleftrightarrow> 48 \<le> c \<and> c \<le> 57 \<or> 97 \<le> c \<and> c \<le> 102 \<or> 65 \<le> c \<and> c \<le> 70"

text \<open>The loop of \<^verbatim>\<open>is_digit_string\<close> over the characters between the two pointers.\<close>

fun digit_loop :: "byte list \<Rightarrow> nat \<Rightarrow> bool \<Rightarrow> byte \<Rightarrow> bool" where
  "digit_loop [] i is_hex prev = True"
| "digit_loop (c # cs) i is_hex prev =
     (if i = 1 \<and> prev = 48 \<and> (c = 120 \<or> c = 88) then digit_loop cs (i + 1) True c
      else if \<not> is_hex \<and> \<not> is_digit_char c then False
      else if is_hex \<and> \<not> is_hex_char c then False
      else digit_loop cs (i + 1) is_hex c)"

definition is_digit_string :: "byte list \<Rightarrow> nat \<Rightarrow> nat \<Rightarrow> bool option" where
  "is_digit_string buf f t =
     (if f = t then map_option (\<lambda>c. is_digit_char (hd c)) (mem_read buf f 1)
      else if f < t then map_option (\<lambda>cs. digit_loop cs 0 False 0) (mem_read buf f (t - f))
      else None)"

subsection \<open>The digest loop\<close>

text \<open>\<^verbatim>\<open>flag\<close>: reading tokens, a comment of either kind, a string, something that starts with a digit.\<close>

datatype tok_flag = Tokens | Comment1 | Comment2 | StringLit | Digits

record tok =
  tk_i :: nat
  tk_s :: nat
  tk_r :: "byte list"
  tk_p :: nat
  tk_t :: nat
  tk_prev :: byte
  tk_qutr :: byte
  tk_flag :: tok_flag

definition put_char :: "tok \<Rightarrow> byte \<Rightarrow> tok option" where
  "put_char st c = do {
     r \<leftarrow> mem_write (tk_r st) (tk_p st) [c];
     Some (st\<lparr>tk_r := r, tk_p := tk_p st + 1\<rparr>)
   }"

text \<open>The last statements of the loop body: copy the character, white space as a space.\<close>

definition copy_char :: "tok \<Rightarrow> byte \<Rightarrow> tok option" where
  "copy_char st c = do {
     st \<leftarrow> put_char st (if is_space_char c then ch_space else c);
     Some (st\<lparr>tk_prev := c, tk_s := tk_s st + 1, tk_i := tk_i st + 1\<rparr>)
   }"

definition next_char :: "tok \<Rightarrow> tok" where
  "next_char st = st\<lparr>tk_s := tk_s st + 1, tk_i := tk_i st + 1\<rparr>"

text \<open>The part for \<^verbatim>\<open>flag == 0\<close>.\<close>

definition step_tokens :: "nat \<Rightarrow> byte \<Rightarrow> tok \<Rightarrow> tok option" where
  "step_tokens len c st =
     (let st = st\<lparr>tk_t := tk_p st\<rparr>
      in if tk_prev st = ch_slash \<and> c = ch_star then copy_char (st\<lparr>tk_flag := Comment1\<rparr>) c
         else if c = ch_hash then copy_char (st\<lparr>tk_flag := Comment2\<rparr>) c
         else if c = ch_quote \<or> c = ch_dquote then copy_char (st\<lparr>tk_flag := StringLit, tk_qutr := c\<rparr>) c
         else if is_token_char (tk_prev st) \<and> is_digit_char c
           then (if len = tk_i st + 1 then Some (st\<lparr>tk_flag := Digits\<rparr>)
                 else copy_char (st\<lparr>tk_flag := Digits\<rparr>) c)
         else if is_space_char (tk_prev st) \<and> is_space_char c
           then do {
             r \<leftarrow> mem_write (tk_r st) (tk_p st) [ch_space];
             Some (next_char (st\<lparr>tk_prev := ch_space, tk_r := r\<rparr>))
           }
         else copy_char st c)"

definition step_comment_end :: "tok \<Rightarrow> tok option" where
  "step_comment_end st = do {
     p \<leftarrow> (if tk_flag st = Comment1
           then (if 1 \<le> tk_t st then Some (tk_t st - 1) else None)
           else Some (tk_t st));
     Some (next_char (st\<lparr>tk_p := p, tk_prev := ch_space, tk_flag := Tokens\<rparr>))
   }"

text \<open>Inside a string; \<open>False\<close> is the \<^verbatim>\<open>break\<close> at the last character.\<close>

definition step_string :: "byte list \<Rightarrow> nat \<Rightarrow> byte \<Rightarrow> tok \<Rightarrow> (bool \<times> tok) option" where
  "step_string query len c st =
     (if len = tk_i st + 1
      then do { st \<leftarrow> put_char (st\<lparr>tk_p := tk_t st\<rparr>) ch_quest; Some (False, st\<lparr>tk_flag := Tokens\<rparr>) }
      else if tk_p st > tk_t st + 1 \<and>
              (tk_prev st = ch_backslash \<and> c = ch_backslash \<or> tk_prev st = ch_backslash \<and> c = tk_qutr st
               \<or> tk_prev st = tk_qutr st \<and> c = tk_qutr st)
      then Some (True, next_char (st\<lparr>tk_prev := ch_X\<rparr>))
      else do {
        nxt \<leftarrow> mem_read query (tk_s st + 1) 1;
        if c = tk_qutr st \<and> nxt \<noteq> [tk_qutr st]
        then do { st \<leftarrow> put_char (st\<lparr>tk_p := tk_t st\<rparr>) ch_quest; Some (True, next_char (st\<lparr>tk_flag := Tokens\<rparr>)) }
        else do { st \<leftarrow> copy_char st c; Some (True, st) }
      })"

definition step_digits :: "nat \<Rightarrow> byte \<Rightarrow> tok \<Rightarrow> tok option" where
  "step_digits len c st =
     (if tk_t st = tk_p st
      then do { st \<leftarrow> put_char st ch_quest; Some (st\<lparr>tk_i := tk_i st + 1\<rparr>) }
      else if is_token_char c \<or> len = tk_i st + 1
      then do {
        number \<leftarrow> is_digit_string (tk_r st) (tk_t st) (tk_p st);
        if number
        then do {
          st \<leftarrow> put_char (st\<lparr>tk_p := tk_t st\<rparr>) ch_quest;
          if len = tk_i st + 1
          then do {
            st \<leftarrow> (if is_token_char c then put_char st c else Some st);
            Some (st\<lparr>tk_i := tk_i st + 1\<rparr>)
          }
          else copy_char (st\<lparr>tk_flag := Tokens\<rparr>) c
        }
        else copy_char (st\<lparr>tk_flag := Tokens\<rparr>) c
      }
      else copy_char st c)"

definition digest_step :: "byte list \<Rightarrow> nat \<Rightarrow> tok \<Rightarrow> (bool \<times> tok) option" where
  "digest_step query len st = do {
     cs \<leftarrow> mem_read query (tk_s st) 1;
     let c = hd cs;
     if tk_flag st = Tokens then do { st \<leftarrow> step_tokens len c st; Some (True, st) }
     else if tk_flag st = Comment1 \<and> tk_prev st = ch_star \<and> c = ch_slash
             \<or> tk_flag st = Comment2 \<and> (c = 10 \<or> c = 13)
     then do { st \<leftarrow> step_comment_end st; Some (True, st) }
     else if tk_flag st = StringLit then step_string query len c st
     else if tk_flag st = Digits then do { st \<leftarrow> step_digits len c st; Some (True, st) }
     else do { st \<leftarrow> copy_char st c; Some (True, st) }
   }"

partial_function (option) digest_loop :: "byte list \<Rightarrow> nat \<Rightarrow> tok \<Rightarrow> tok option" where
  "digest_loop query len st =
     (if tk_i st < len
      then do {
        (more, st) \<leftarrow> digest_step query len st;
        if more then digest_loop query len st else Some st
      }
      else Some st)"

declare digest_loop.simps [code]

definition mysql_query_digest :: "(nat \<Rightarrow> byte) \<Rightarrow> byte list \<Rightarrow> byte list option" where
  "mysql_query_digest junk query = do {
     let len = length query;
     st \<leftarrow> digest_loop query len \<lparr>tk_i = 0, tk_s = 0, tk_r = fresh junk (len + 1), tk_p = 0, tk_t = 0,
                                 tk_prev = 0, tk_qutr = 0, tk_flag = Tokens\<rparr>;
     mem_write (tk_r st) (tk_p st) [0]
   }"

subsection \<open>Safety and termination of the loop\<close>

definition tok_inv :: "nat \<Rightarrow> tok \<Rightarrow> bool" where
  "tok_inv len st \<longleftrightarrow> length (tk_r st) = len + 1 \<and> tk_i st \<le> len \<and> tk_p st \<le> tk_i st \<and> (tk_flag st \<noteq> Tokens \<longrightarrow> tk_t st \<le> tk_p st)
     \<and> (tk_i st < len \<longrightarrow> tk_s st = tk_i st)
     \<and> (tk_flag st = Tokens \<and> tk_prev st = ch_slash \<longrightarrow> 1 \<le> tk_p st)
     \<and> (tk_flag st = Comment1 \<longrightarrow> 1 \<le> tk_t st)
     \<and> (tk_flag st = StringLit \<longrightarrow> tk_t st < tk_p st)
     \<and> (tk_flag st = Digits \<longrightarrow> tk_t st < tk_p st \<or> tk_i st + 1 = len)"

definition tok_measure :: "nat \<Rightarrow> tok \<Rightarrow> nat" where
  "tok_measure len st = 2 * (len - tk_i st) + (if tk_flag st = Tokens then 1 else 0)"

lemma mem_write_one:
  "i < length buf \<Longrightarrow> \<exists>buf'. mem_write buf i [c] = Some buf' \<and> length buf' = length buf"
  by (simp add: mem_write_def)

lemma put_char_spec:
  assumes "tk_p st < length (tk_r st)"
  shows "\<exists>r. put_char st c = Some (st\<lparr>tk_r := r, tk_p := tk_p st + 1\<rparr>) \<and> length r = length (tk_r st)"
  using mem_write_one [OF assms, of c] by (auto simp: put_char_def)

text \<open>A step that succeeds, keeps the invariant and makes progress with respect to \<open>st\<close>.\<close>

definition step_ok :: "nat \<Rightarrow> tok \<Rightarrow> tok option \<Rightarrow> bool" where
  "step_ok len st m \<longleftrightarrow> (\<exists>st'. m = Some st' \<and> tok_inv len st' \<and> tok_measure len st' < tok_measure len st)"

lemma step_ok_if:
  "(b \<Longrightarrow> step_ok len st x) \<Longrightarrow> (\<not> b \<Longrightarrow> step_ok len st y) \<Longrightarrow> step_ok len st (if b then x else y)"
  by simp

lemma step_ok_Some:
  "tok_inv len st' \<Longrightarrow> tok_measure len st' < tok_measure len st \<Longrightarrow> step_ok len st (Some st')"
  by (simp add: step_ok_def)

lemma tok_measure_next: "tk_i st < len \<Longrightarrow> tk_i st' = tk_i st + 1 \<Longrightarrow> tok_measure len st' < tok_measure len st"
  by (auto simp: tok_measure_def)

lemma copy_char_ok:
  assumes "tok_inv len st" and "tk_i st < len" and "tk_i st' = tk_i st" and "tk_s st' = tk_s st"
    and "length (tk_r st') = length (tk_r st)" and "tk_p st' \<le> tk_i st" and "tk_t st' \<le> tk_p st'"
    and "tk_flag st' = Comment1 \<Longrightarrow> 1 \<le> tk_t st'"
  shows "step_ok len st (copy_char st' c)"
proof -
  let ?c = "if is_space_char c then ch_space else c"
  obtain r where r: "put_char st' ?c = Some (st'\<lparr>tk_r := r, tk_p := tk_p st' + 1\<rparr>)" "length r = len + 1"
    using put_char_spec [of st' ?c] assms by (auto simp: tok_inv_def)
  let ?st = "st'\<lparr>tk_r := r, tk_p := tk_p st' + 1, tk_prev := c, tk_s := tk_s st' + 1, tk_i := tk_i st' + 1\<rparr>"
  have "copy_char st' c = Some ?st" using r(1) by (simp add: copy_char_def)
  moreover have "tok_inv len ?st" using assms r(2) by (simp add: tok_inv_def)
  moreover have "tok_measure len ?st < tok_measure len st" using assms(2,3) by (intro tok_measure_next) simp_all
  ultimately show ?thesis by (simp add: step_ok_def)
qed

lemma step_tokens_ok:
  assumes "tok_inv len st" and "tk_i st < len" and "tk_flag st = Tokens"
  shows "step_ok len st (step_tokens len c st)"
proof -
  have i: "length (tk_r st) = len + 1" "tk_p st \<le> tk_i st" "tk_s st = tk_i st"
      "tk_prev st = ch_slash \<Longrightarrow> 1 \<le> tk_p st"
    using assms by (auto simp: tok_inv_def)
  let ?st = "st\<lparr>tk_t := tk_p st\<rparr>"
  have d: "step_ok len st (Some (?st\<lparr>tk_flag := Digits\<rparr>))" if "len = tk_i ?st + 1"
    using that i assms(2,3) by (intro step_ok_Some) (simp_all add: tok_inv_def tok_measure_def)
  have sp: "step_ok len st (do { r \<leftarrow> mem_write (tk_r ?st) (tk_p ?st) [ch_space];
                                      Some (next_char (?st\<lparr>tk_prev := ch_space, tk_r := r\<rparr>)) })"
  proof -
    obtain r where r: "mem_write (tk_r st) (tk_p st) [ch_space] = Some r" "length r = len + 1"
      using mem_write_one [of "tk_p st" "tk_r st" ch_space] i assms(2) by auto
    have "step_ok len st (Some (next_char (?st\<lparr>tk_prev := ch_space, tk_r := r\<rparr>)))"
      using r(2) i assms(2,3) by (intro step_ok_Some) (simp_all add: tok_inv_def tok_measure_def next_char_def)
    with r(1) show ?thesis by simp
  qed
  have cp: "step_ok len st (copy_char ?st c)" "step_ok len st (copy_char (?st\<lparr>tk_flag := Comment2\<rparr>) c)"
      "step_ok len st (copy_char (?st\<lparr>tk_flag := StringLit, tk_qutr := c\<rparr>) c)"
      "step_ok len st (copy_char (?st\<lparr>tk_flag := Digits\<rparr>) c)"
    using i assms by (auto intro!: copy_char_ok)
  have c1: "step_ok len st (copy_char (?st\<lparr>tk_flag := Comment1\<rparr>) c)" if "tk_prev ?st = ch_slash \<and> c = ch_star"
    using that i assms by (intro copy_char_ok) simp_all
  show ?thesis
    unfolding step_tokens_def Let_def by (intro step_ok_if c1 cp d sp; assumption)
qed

lemma step_comment_end_ok:
  assumes "tok_inv len st" and "tk_i st < len" and "tk_flag st = Comment1 \<or> tk_flag st = Comment2"
  shows "step_ok len st (step_comment_end st)"
proof -
  let ?p = "if tk_flag st = Comment1 then tk_t st - 1 else tk_t st"
  let ?st = "next_char (st\<lparr>tk_p := ?p, tk_prev := ch_space, tk_flag := Tokens\<rparr>)"
  have "step_comment_end st = Some ?st"
    using assms by (simp add: step_comment_end_def tok_inv_def)
  moreover have "tok_inv len ?st" using assms by (auto simp: tok_inv_def next_char_def)
  moreover have "tok_measure len ?st < tok_measure len st"
    using assms(2) by (intro tok_measure_next) (simp_all add: next_char_def)
  ultimately show ?thesis by (simp add: step_ok_def)
qed

text \<open>Going back to the start of a literal and writing the question mark.\<close>

lemma put_quest:
  assumes "tok_inv len st" and "tk_i st < len" and "tk_t st < tk_p st"
  obtains r where "put_char (st\<lparr>tk_p := tk_t st\<rparr>) c = Some (st\<lparr>tk_p := tk_t st + 1, tk_r := r\<rparr>)" and "length r = len + 1"
proof -
  have "tk_p (st\<lparr>tk_p := tk_t st\<rparr>) < length (tk_r (st\<lparr>tk_p := tk_t st\<rparr>))"
    using assms by (simp add: tok_inv_def)
  from put_char_spec [OF this, of c] obtain r where
      r: "put_char (st\<lparr>tk_p := tk_t st\<rparr>) c = Some (st\<lparr>tk_p := tk_t st, tk_r := r, tk_p := tk_t st + 1\<rparr>)" "length r = length (tk_r st)"
    by (elim exE conjE) simp
  show ?thesis
  proof (rule that)
    show "put_char (st\<lparr>tk_p := tk_t st\<rparr>) c = Some (st\<lparr>tk_p := tk_t st + 1, tk_r := r\<rparr>)" using r(1) by simp
    show "length r = len + 1" using r(2) assms(1) by (simp add: tok_inv_def)
  qed
qed

lemma step_string_ok:
  assumes "tok_inv len st" and "tk_i st < len" and "tk_flag st = StringLit" and "length query = len"
  shows "\<exists>more st'. step_string query len c st = Some (more, st') \<and> tok_inv len st'
           \<and> (more \<longrightarrow> tok_measure len st' < tok_measure len st)"
proof -
  have i: "length (tk_r st) = len + 1" "tk_p st \<le> tk_i st" "tk_s st = tk_i st" "tk_t st < tk_p st"
    using assms by (auto simp: tok_inv_def)
  obtain r where r: "put_char (st\<lparr>tk_p := tk_t st\<rparr>) ch_quest = Some (st\<lparr>tk_p := tk_t st + 1, tk_r := r\<rparr>)" "length r = len + 1"
    using put_quest [OF assms(1,2) i(4)] by blast
  let ?q = "st\<lparr>tk_p := tk_t st + 1, tk_r := r, tk_flag := Tokens\<rparr>"
  consider (last) "len = tk_i st + 1"
    | (escape) "len \<noteq> tk_i st + 1" "tk_p st > tk_t st + 1 \<and>
              (tk_prev st = ch_backslash \<and> c = ch_backslash \<or> tk_prev st = ch_backslash \<and> c = tk_qutr st
               \<or> tk_prev st = tk_qutr st \<and> c = tk_qutr st)"
    | (inside) "len \<noteq> tk_i st + 1" "\<not> (tk_p st > tk_t st + 1 \<and>
              (tk_prev st = ch_backslash \<and> c = ch_backslash \<or> tk_prev st = ch_backslash \<and> c = tk_qutr st
               \<or> tk_prev st = tk_qutr st \<and> c = tk_qutr st))"
    by blast
  then show ?thesis
  proof cases
    case last
    have "step_string query len c st = Some (False, ?q)" using last r(1) by (simp add: step_string_def)
    moreover have "tok_inv len ?q" using assms i r(2) by (simp add: tok_inv_def)
    ultimately show ?thesis by blast
  next
    case escape
    let ?st = "next_char (st\<lparr>tk_prev := ch_X\<rparr>)"
    have "step_string query len c st = Some (True, ?st)" using escape by (simp only: step_string_def if_True if_False simp_thms)
    moreover have "tok_inv len ?st" using assms i by (simp add: tok_inv_def next_char_def)
    moreover have "tok_measure len ?st < tok_measure len st"
      using assms(2) by (intro tok_measure_next) (simp_all add: next_char_def)
    ultimately show ?thesis by blast
  next
    case inside
    obtain n where n: "mem_read query (tk_s st + 1) 1 = Some n" using inside(1) assms(2,4) i(3) by (simp add: mem_read_def)
    show ?thesis
    proof (cases "c = tk_qutr st \<and> n \<noteq> [tk_qutr st]")
      case True
      have "step_string query len c st = Some (True, next_char ?q)"
        using inside True n r(1) by (simp only: step_string_def if_False) simp
      moreover have "tok_inv len (next_char ?q)" using assms i r(2) by (simp add: tok_inv_def next_char_def)
      moreover have "tok_measure len (next_char ?q) < tok_measure len st"
        using assms(2) by (intro tok_measure_next) (simp_all add: next_char_def)
      ultimately show ?thesis by blast
    next
      case False
      obtain st' where "copy_char st c = Some st'" "tok_inv len st'" "tok_measure len st' < tok_measure len st"
        using copy_char_ok [of len st st c] assms i by (auto simp: step_ok_def)
      moreover from this have "step_string query len c st = Some (True, st')"
        using inside n if_not_P [OF False] by (simp only: step_string_def if_False Option.bind.simps)
      ultimately show ?thesis by blast
    qed
  qed
qed

lemma is_digit_string_Some:
  "f \<le> t \<Longrightarrow> t < length buf \<Longrightarrow> \<exists>b. is_digit_string buf f t = Some b"
  by (auto simp: is_digit_string_def mem_read_def)

lemma step_digits_ok:
  assumes "tok_inv len st" and "tk_i st < len" and "tk_flag st = Digits"
  shows "step_ok len st (step_digits len c st)"
proof (cases "tk_t st = tk_p st")
  case True
  then have i: "tk_i st + 1 = len" "tk_p st \<le> tk_i st" "length (tk_r st) = len + 1"
    using assms by (auto simp: tok_inv_def)
  then obtain r where r: "put_char st ch_quest = Some (st\<lparr>tk_r := r, tk_p := tk_p st + 1\<rparr>)" "length r = len + 1"
    using put_char_spec [of st ch_quest] by auto
  let ?st = "st\<lparr>tk_r := r, tk_p := tk_p st + 1, tk_i := tk_i st + 1\<rparr>"
  have "step_digits len c st = Some ?st" using True r(1) by (simp add: step_digits_def)
  moreover have "tok_inv len ?st" using True i r(2) assms(3) by (simp add: tok_inv_def)
  moreover have "tok_measure len ?st < tok_measure len st"
    using assms(2) by (intro tok_measure_next) simp_all
  ultimately show ?thesis by (simp add: step_ok_def)
next
  case False
  then have i: "tk_t st < tk_p st" "tk_p st \<le> tk_i st" "length (tk_r st) = len + 1" "tk_s st = tk_i st"
    using assms by (auto simp: tok_inv_def)
  obtain b where b: "is_digit_string (tk_r st) (tk_t st) (tk_p st) = Some b"
    using is_digit_string_Some [of "tk_t st" "tk_p st" "tk_r st"] i assms(2) by auto
  obtain r where r: "put_char (st\<lparr>tk_p := tk_t st\<rparr>) ch_quest = Some (st\<lparr>tk_p := tk_t st + 1, tk_r := r\<rparr>)" "length r = len + 1"
    using put_quest [OF assms(1,2) i(1)] by blast
  let ?q = "st\<lparr>tk_p := tk_t st + 1, tk_r := r\<rparr>"
  have copy: "step_ok len st (copy_char st c)" "step_ok len st (copy_char (st\<lparr>tk_flag := Tokens\<rparr>) c)"
      "step_ok len st (copy_char (?q\<lparr>tk_flag := Tokens\<rparr>) c)"
    using assms i r(2) by (auto intro!: copy_char_ok)
  have last: "step_ok len st (do { st' \<leftarrow> (if is_token_char c then put_char ?q c else Some ?q);
                                   Some (st'\<lparr>tk_i := tk_i st' + 1\<rparr>) })" if "len = tk_i st + 1"
  proof -
    obtain r' where r': "put_char ?q c = Some (?q\<lparr>tk_r := r', tk_p := tk_t st + 2\<rparr>)" "length r' = len + 1"
      using put_char_spec [of ?q c] i r(2) assms(2) by auto
    have "step_ok len st (Some (?q\<lparr>tk_r := r', tk_p := tk_t st + 2, tk_i := tk_i st + 1\<rparr>))"
      using i r'(2) that assms(3)
      by (intro step_ok_Some tok_measure_next) (simp_all add: tok_inv_def)
    moreover have "step_ok len st (Some (?q\<lparr>tk_i := tk_i st + 1\<rparr>))"
      using i r(2) that assms(3) by (intro step_ok_Some tok_measure_next) (simp_all add: tok_inv_def)
    ultimately show ?thesis using r'(1) by simp
  qed
  show ?thesis
  proof (cases "is_token_char c \<or> len = tk_i st + 1")
    case True
    show ?thesis
    proof (cases b)
      case True
      have "step_digits len c st = (if len = tk_i st + 1
          then do { st' \<leftarrow> (if is_token_char c then put_char ?q c else Some ?q); Some (st'\<lparr>tk_i := tk_i st' + 1\<rparr>) }
          else copy_char (?q\<lparr>tk_flag := Tokens\<rparr>) c)"
        using False True \<open>is_token_char c \<or> _\<close> b r(1) by (simp add: step_digits_def)
      then show ?thesis using last copy(3) by simp
    next
      case False
      with \<open>tk_t st \<noteq> tk_p st\<close> True b copy(2) show ?thesis by (simp add: step_digits_def)
    qed
  next
    case False
    with \<open>tk_t st \<noteq> tk_p st\<close> copy(1) show ?thesis by (simp add: step_digits_def)
  qed
qed

lemma digest_step_ok:
  assumes "tok_inv len st" and "tk_i st < len" and "length query = len"
  shows "\<exists>more st'. digest_step query len st = Some (more, st') \<and> tok_inv len st'
           \<and> (more \<longrightarrow> tok_measure len st' < tok_measure len st)"
proof -
  have "tk_s st = tk_i st" using assms by (simp add: tok_inv_def)
  then obtain cs where cs: "mem_read query (tk_s st) 1 = Some cs" using assms by (simp add: mem_read_def)
  have copy: "step_ok len st (copy_char st (hd cs))"
    if "tk_flag st \<noteq> Tokens" using assms that by (intro copy_char_ok) (auto simp: tok_inv_def)
  show ?thesis
  proof (cases "tk_flag st")
    case Tokens
    with step_tokens_ok [OF assms(1,2), of "hd cs"] cs show ?thesis
      by (auto simp: digest_step_def step_ok_def)
  next
    case StringLit
    with step_string_ok [OF assms(1,2) _ assms(3), of "hd cs"] cs show ?thesis
      by (simp add: digest_step_def)
  next
    case Digits
    with step_digits_ok [OF assms(1,2), of "hd cs"] cs show ?thesis
      by (auto simp: digest_step_def step_ok_def)
  qed (use step_comment_end_ok [OF assms(1,2)] copy cs in \<open>auto simp: digest_step_def step_ok_def Let_def\<close>)
qed

lemma digest_loop_ok:
  assumes "tok_inv len st" and "length query = len"
  shows "\<exists>st'. digest_loop query len st = Some st' \<and> tok_inv len st'"
  using assms(1)
proof (induction "tok_measure len st" arbitrary: st rule: less_induct)
  case less
  show ?case
  proof (cases "tk_i st < len")
    case True
    then obtain more st' where s: "digest_step query len st = Some (more, st')" "tok_inv len st'"
        "more \<longrightarrow> tok_measure len st' < tok_measure len st"
      using digest_step_ok [OF less.prems _ assms(2)] by blast
    then show ?thesis
      using True less.hyps [of st'] by (subst digest_loop.simps) auto
  next
    case False
    with less.prems show ?thesis by (subst digest_loop.simps) simp
  qed
qed

subsection \<open>Queries without literals and comments\<close>

text \<open>
  The reference for such queries: white space becomes a space, and a white-space character right behind
  another one is dropped.
\<close>

fun squeeze :: "byte \<Rightarrow> byte list \<Rightarrow> byte list" where
  "squeeze prev [] = []"
| "squeeze prev (c # cs) =
     (if is_space_char prev \<and> is_space_char c then squeeze ch_space cs
      else (if is_space_char c then ch_space else c) # squeeze c cs)"

definition plain_char :: "byte \<Rightarrow> bool" where
  "plain_char c \<longleftrightarrow> c \<noteq> ch_hash \<and> c \<noteq> ch_quote \<and> c \<noteq> ch_dquote \<and> c \<noteq> ch_star \<and> \<not> is_digit_char c"

lemma digest_step_plain:
  assumes "tk_flag st = Tokens" and "tk_s st = i" and "i < length q" and "plain_char (q ! i)"
  shows "digest_step q len st = map_option (Pair True)
           (if is_space_char (tk_prev st) \<and> is_space_char (q ! i)
            then do {
              r \<leftarrow> mem_write (tk_r st) (tk_p st) [ch_space];
              Some (next_char (st\<lparr>tk_t := tk_p st, tk_prev := ch_space, tk_r := r\<rparr>))
            }
            else copy_char (st\<lparr>tk_t := tk_p st\<rparr>) (q ! i))"
proof -
  have "mem_read q (tk_s st) 1 = Some [q ! i]"
    using assms(2,3) by (simp add: mem_read_def take_Suc hd_drop_conv_nth)
  with assms(1,4) show ?thesis
    by (auto simp: digest_step_def step_tokens_def plain_char_def Let_def split: option.split bind_splits)
qed

lemma digest_loop_plain:
  assumes "\<forall>c \<in> set q. plain_char c" and "tk_flag st = Tokens" and "tk_s st = tk_i st" and "tk_i st \<le> length q"
    and "tk_p st \<le> tk_i st" and "length (tk_r st) = length q + 1"
  shows "\<exists>st'. digest_loop q (length q) st = Some st' \<and> tk_p st' \<le> length q \<and> length (tk_r st') = length q + 1
           \<and> take (tk_p st') (tk_r st') = take (tk_p st) (tk_r st) @ squeeze (tk_prev st) (drop (tk_i st) q)"
  using assms(2-6)
proof (induction "length q - tk_i st" arbitrary: st)
  case 0
  then show ?case by (subst digest_loop.simps) simp
next
  case (Suc n)
  let ?i = "tk_i st" let ?c = "q ! ?i"
  have i: "?i < length q" using Suc.hyps(2) by simp
  have pl: "plain_char ?c" using assms(1) i by simp
  have dr: "drop ?i q = ?c # drop (?i + 1) q" using i by (simp add: Cons_nth_drop_Suc)
  show ?case
  proof (cases "is_space_char (tk_prev st) \<and> is_space_char ?c")
    case True
    obtain r where r: "mem_write (tk_r st) (tk_p st) [ch_space] = Some r" "length r = length q + 1"
        "take (tk_p st) r = take (tk_p st) (tk_r st)"
      using Suc.prems i by (simp add: mem_write_def)
    define st1 where "st1 = next_char (st\<lparr>tk_t := tk_p st, tk_prev := ch_space, tk_r := r\<rparr>)"
    have "digest_step q (length q) st = Some (True, st1)"
      using digest_step_plain [OF Suc.prems(1,2) i pl, of "length q"] True r(1) by (simp add: st1_def)
    then have loop: "digest_loop q (length q) st = digest_loop q (length q) st1"
      using i by (subst digest_loop.simps) simp
    have "\<exists>st'. digest_loop q (length q) st1 = Some st' \<and> tk_p st' \<le> length q \<and> length (tk_r st') = length q + 1
        \<and> take (tk_p st') (tk_r st') = take (tk_p st1) (tk_r st1) @ squeeze (tk_prev st1) (drop (tk_i st1) q)"
      using Suc.hyps(2) Suc.prems i r(2) by (intro Suc.hyps(1)) (simp_all add: st1_def next_char_def)
    with loop True r(3) dr show ?thesis by (simp add: st1_def next_char_def)
  next
    case False
    let ?x = "if is_space_char ?c then ch_space else ?c"
    obtain r where r: "mem_write (tk_r st) (tk_p st) [?x] = Some r" "length r = length q + 1"
        "take (tk_p st + 1) r = take (tk_p st) (tk_r st) @ [?x]"
      using Suc.prems i by (simp add: mem_write_def)
    define st1 where "st1 = st\<lparr>tk_t := tk_p st, tk_r := r, tk_p := tk_p st + 1, tk_prev := ?c, tk_s := tk_s st + 1, tk_i := tk_i st + 1\<rparr>"
    have "copy_char (st\<lparr>tk_t := tk_p st\<rparr>) ?c = Some st1"
      using r(1) by (simp add: copy_char_def put_char_def st1_def)
    then have "digest_step q (length q) st = Some (True, st1)"
      using digest_step_plain [OF Suc.prems(1,2) i pl, of "length q"] False by (simp only: if_False) simp
    then have loop: "digest_loop q (length q) st = digest_loop q (length q) st1"
      using i by (subst digest_loop.simps) simp
    have "\<exists>st'. digest_loop q (length q) st1 = Some st' \<and> tk_p st' \<le> length q \<and> length (tk_r st') = length q + 1
        \<and> take (tk_p st') (tk_r st') = take (tk_p st1) (tk_r st1) @ squeeze (tk_prev st1) (drop (tk_i st1) q)"
      using Suc.hyps(2) Suc.prems i r(2) by (intro Suc.hyps(1)) (simp_all add: st1_def)
    moreover have "squeeze (tk_prev st) (drop ?i q) = ?x # squeeze ?c (drop (?i + 1) q)"
      unfolding dr using False by auto
    ultimately show ?thesis unfolding loop using r(3) by (simp add: st1_def)
  qed
qed

subsection \<open>The MD5 text of a digest\<close>

text \<open>
  \<^verbatim>\<open>str2md5\<close> feeds the string to MD5 in pieces of at most 512 bytes and prints the 16 bytes in
  hexadecimal. MD5 itself is the parameter \<open>md5\<close>.
\<close>

function md5_pieces :: "byte list \<Rightarrow> byte list list" where
  "md5_pieces s = (if s = [] then [] else take 512 s # md5_pieces (drop 512 s))"
  by pat_completeness auto
termination
  by (relation "measure length") auto

declare md5_pieces.simps [simp del]

definition hex_digit :: "nat \<Rightarrow> byte" where
  "hex_digit n = (if n < 10 then of_nat (48 + n) else of_nat (87 + n))"

definition hex_byte :: "byte \<Rightarrow> byte list" where
  "hex_byte b = [hex_digit (unat b div 16), hex_digit (unat b mod 16)]"

definition str2md5 :: "(byte list \<Rightarrow> byte list) \<Rightarrow> cstr \<Rightarrow> cstr" where
  "str2md5 md5 s = concat (map hex_byte (md5 (concat (md5_pieces s))))"

lemma concat_md5_pieces: "concat (md5_pieces s) = s"
proof (induction s rule: md5_pieces.induct)
  case (1 s)
  then show ?case
    by (subst md5_pieces.simps) simp
qed

subsection \<open>Properties\<close>

lemma digest_result:
  "\<exists>r. mysql_query_digest junk query = Some r \<and> length r = length query + 1 \<and> c_strlen r \<le> length query"
proof -
  let ?st = "\<lparr>tk_i = 0, tk_s = 0, tk_r = fresh junk (length query + 1), tk_p = 0, tk_t = 0, tk_prev = 0, tk_qutr = 0, tk_flag = Tokens\<rparr>"
  have "tok_inv (length query) ?st" by (simp add: tok_inv_def)
  then obtain st' where st': "digest_loop query (length query) ?st = Some st'" "tok_inv (length query) st'"
    using digest_loop_ok by blast
  then have p: "tk_p st' \<le> length query" "length (tk_r st') = length query + 1" by (auto simp: tok_inv_def)
  define r where "r = take (tk_p st') (tk_r st') @ 0 # drop (tk_p st' + 1) (tk_r st')"
  have w: "mem_write (tk_r st') (tk_p st') [0] = Some r" using p by (simp add: mem_write_def r_def)
  have "c_strlen r \<le> tk_p st'"
    using p by (auto simp: r_def c_strlen_def c_string_def takeWhile_tail takeWhile_append
        intro: order_trans [OF length_takeWhile_le])
  with st'(1) w p show ?thesis
    by (intro exI [of _ r]) (simp add: mysql_query_digest_def r_def)
qed

text \<open>
  C24. Digests are memory safe: on every query \<^verbatim>\<open>mysql_query_digest\<close> ends, never reads outside the query nor
  writes outside the \<open>len + 1\<close> bytes it allocated, never moves its pointer before the start of the
  result, and leaves a C string of at most \<open>len\<close> characters.
\<close>

theorem digest_safe:
  "\<exists>r. mysql_query_digest junk query = Some r \<and> length r = length query + 1 \<and> c_strlen r \<le> length query"
  by (rule digest_result)

text \<open>
  On a query without quotes, hash signs, stars and digits the digest is the query with white space
  turned into spaces and runs of it squeezed.
\<close>

theorem digest_plain:
  assumes "\<forall>c \<in> set query. plain_char c" and "0 \<notin> set query"
  shows "\<exists>r. mysql_query_digest junk query = Some r \<and> c_string r = squeeze 0 query"
proof -
  let ?st = "\<lparr>tk_i = 0, tk_s = 0, tk_r = fresh junk (length query + 1), tk_p = 0, tk_t = 0, tk_prev = 0, tk_qutr = 0, tk_flag = Tokens\<rparr>"
  obtain st' where st': "digest_loop query (length query) ?st = Some st'" "tk_p st' \<le> length query"
      "length (tk_r st') = length query + 1" "take (tk_p st') (tk_r st') = squeeze 0 query"
    using digest_loop_plain [OF assms(1), of ?st] by auto
  have nz: "0 \<notin> set (squeeze b q)" if "0 \<notin> set q" for b q
    using that by (induction b q rule: squeeze.induct) auto
  have "mem_write (tk_r st') (tk_p st') [0] = Some (squeeze 0 query @ 0 # drop (tk_p st' + 1) (tk_r st'))"
    using st'(2,3) unfolding st'(4) [symmetric] by (simp add: mem_write_def)
  then show ?thesis
    using st'(1) nz [OF assms(2)] by (simp add: mysql_query_digest_def)
qed

theorem digest_plain_witness:
  "\<exists>r. mysql_query_digest (\<lambda>_. 7) (str ''a   b'') = Some r \<and> c_string r = str ''a b''"
proof -
  have "squeeze 0 (str ''a   b'') = str ''a b''" by code_simp
  moreover have "\<forall>c \<in> set (str ''a   b''). plain_char c" "0 \<notin> set (str ''a   b'')" by code_simp+
  ultimately show ?thesis using digest_plain [of "str ''a   b''" "\<lambda>_. 7"] by simp
qed

text \<open>
  The digest of a statement can depend on its literals: after a closing quote the last character of
  the literal is still taken for the previous character, so a literal that ends with a space swallows
  the space behind it, and the two statements below, equal up to a literal, get different digests.
\<close>

theorem digest_depends_on_literal:
  "map_option c_string (mysql_query_digest (\<lambda>_. 0) (str ''a='' @ [ch_quote] @ str ''x'' @ [ch_quote] @ str '' b'')) = Some (str ''a=? b'')
   \<and> map_option c_string (mysql_query_digest (\<lambda>_. 0) (str ''a='' @ [ch_quote] @ str ''x '' @ [ch_quote] @ str '' b'')) = Some (str ''a=?b'')"
  by code_simp

end
