(* ===== verification/QueryStats.thy ===== *)
theory QueryStats
  imports Prelude
begin

section \<open>Query statistics\<close>

text \<open>
  The statistics of executed statements: the hash of \<^verbatim>\<open>qr_hash_entry\<close> values of
  \<^verbatim>\<open>src/fundadb_hash.c\<close>, and \<^verbatim>\<open>query_statistics_set\<close> of \<^verbatim>\<open>src/tokenizer.c\<close> that counts a statement
  under a key printed into a buffer of computed size. The hash tables of GLib are maps; two
  tables alternate, one filled by the threads, one being reported.
\<close>

record qr_hash_entry =
  qe_key :: "cstr option"
  qe_exec_cnt :: nat
  qe_query_digest_text :: cstr
  qe_query_digest_md5 :: cstr
  qe_hostgroup_id :: int
  qe_username :: cstr
  qe_schemaname :: cstr
  qe_mysql_server_address :: "cstr option"
  qe_query_time :: int
  qe_mysql_server_port :: int

record qr_hash =
  qh_c :: "cstr \<Rightarrow> qr_hash_entry option"
  qh_p :: "cstr \<Rightarrow> qr_hash_entry option"

definition qr_hashes_new :: qr_hash where
  "qr_hashes_new = \<lparr>qh_c = Map.empty, qh_p = Map.empty\<rparr>"

subsection \<open>The key\<close>

text \<open>\<^verbatim>\<open>printf\<close> of \<^verbatim>\<open>%d\<close>.\<close>

fun dec_nat :: "nat \<Rightarrow> cstr" where
  "dec_nat n = (if n < 10 then [of_nat (48 + n)] else dec_nat (n div 10) @ [of_nat (48 + n mod 10)])"

declare dec_nat.simps [simp del]

definition dec :: "int \<Rightarrow> cstr" where
  "dec i = (if i < 0 then 45 # dec_nat (nat (- i)) else dec_nat (nat i))"

definition sep :: cstr where
  "sep = str ''__''"

definition qr_key_text :: "qr_hash_entry \<Rightarrow> cstr" where
  "qr_key_text e =
     qe_query_digest_md5 e @ sep @ qe_username e @ sep @ qe_schemaname e @ sep @ dec (qe_hostgroup_id e)
     @ sep @ (case qe_mysql_server_address e of None \<Rightarrow> [] | Some a \<Rightarrow> a) @ sep @ dec (qe_mysql_server_port e)"

definition generate_key :: "qr_hash_entry \<Rightarrow> qr_hash_entry option" where
  "generate_key entry =
     (let i = length (qe_query_digest_md5 entry) + 3
              + (case qe_mysql_server_address entry of None \<Rightarrow> 0 | Some a \<Rightarrow> length a)
              + length (qe_username entry) + length (qe_schemaname entry) + 5 + (5 * length (str ''__'') + 5)
      in do {
        buf \<leftarrow> mem_write (replicate i 0) 0 (qr_key_text entry @ [0]);
        Some (entry\<lparr>qe_key := Some (c_string buf)\<rparr>)
      })"

subsection \<open>Counting a statement\<close>

definition query_statistics_set :: "int \<Rightarrow> qr_hash_entry \<Rightarrow> qr_hash \<Rightarrow> qr_hash option" where
  "query_statistics_set monotonic_time query_stats ht = do {
     query_stats \<leftarrow> generate_key query_stats;
     key \<leftarrow> qe_key query_stats;
     let total_time = monotonic_time - qe_query_time query_stats;
     let query_stats = query_stats\<lparr>qe_exec_cnt := 1, qe_query_time := total_time\<rparr>;
     Some (case qh_c ht key of
             None \<Rightarrow> ht\<lparr>qh_c := (qh_c ht)(key \<mapsto> query_stats)\<rparr>
           | Some entry \<Rightarrow>
               ht\<lparr>qh_c := (qh_c ht)(key \<mapsto> entry\<lparr>qe_exec_cnt := qe_exec_cnt entry + 1,
                                                 qe_query_time := qe_query_time entry + total_time\<rparr>)\<rparr>)
   }"

text \<open>The report swaps the tables, hands out the entries and empties the reported table.\<close>

definition qr_report :: "qr_hash \<Rightarrow> (cstr \<Rightarrow> qr_hash_entry option) \<times> qr_hash" where
  "qr_report ht =
     (let ht = \<lparr>qh_c = qh_p ht, qh_p = qh_c ht\<rparr>
      in (qh_p ht, ht\<lparr>qh_p := Map.empty\<rparr>))"

text \<open>A run: statements with the time at which each was accounted.\<close>

fun stats_run :: "(int \<times> qr_hash_entry) list \<Rightarrow> qr_hash \<Rightarrow> qr_hash option" where
  "stats_run [] ht = Some ht"
| "stats_run ((t, e) # es) ht = do { ht \<leftarrow> query_statistics_set t e ht; stats_run es ht }"

subsection \<open>Lemmas\<close>

lemma length_dec_nat: "n < 10 ^ k \<Longrightarrow> 0 < k \<Longrightarrow> length (dec_nat n) \<le> k"
proof (induction n arbitrary: k rule: dec_nat.induct)
  case (1 n)
  show ?case
  proof (cases "n < 10")
    case True
    then show ?thesis using 1(3) by (subst dec_nat.simps) simp
  next
    case False
    obtain k' where k: "k = Suc k'" using 1(3) by (cases k) auto
    have "n div 10 < 10 ^ k'" using 1(2) unfolding k by (simp add: div_less_iff_less_mult mult.commute)
    moreover have "0 < k'" using False 1(2) unfolding k by (cases k') simp_all
    ultimately have "length (dec_nat (n div 10)) \<le> k'" by (rule 1(1) [OF False])
    with False k show ?thesis by (subst dec_nat.simps) simp
  qed
qed

lemma dec_nat_nonzero: "0 \<notin> set (dec_nat n)"
proof (induction n rule: dec_nat.induct)
  case (1 n)
  have *: "(of_nat (48 + m) :: byte) \<noteq> 0" if "m < 10" for m
  proof
    assume "(of_nat (48 + m) :: byte) = 0"
    then have "unat (of_nat (48 + m) :: byte) = 0" by simp
    with that show False by (simp only: unat_of_nat) simp
  qed
  show ?case
  proof (cases "n < 10")
    case True
    then show ?thesis using * [of n] by (subst dec_nat.simps) auto
  next
    case False
    then show ?thesis using 1 [OF False] * [of "n mod 10"] by (subst dec_nat.simps) auto
  qed
qed

lemma dec_nonzero: "0 \<notin> set (dec i)"
  by (simp add: dec_def dec_nat_nonzero)

definition entry_ok :: "qr_hash_entry \<Rightarrow> bool" where
  "entry_ok e \<longleftrightarrow> 0 \<le> qe_hostgroup_id e \<and> qe_hostgroup_id e < 10 ^ 7
     \<and> 0 \<le> qe_mysql_server_port e \<and> qe_mysql_server_port e < 10 ^ 5
     \<and> 0 \<notin> set (qe_query_digest_md5 e) \<and> 0 \<notin> set (qe_username e) \<and> 0 \<notin> set (qe_schemaname e)
     \<and> (case qe_mysql_server_address e of None \<Rightarrow> True | Some a \<Rightarrow> 0 \<notin> set a)"

lemma generate_key_Some:
  assumes "entry_ok e"
  shows "generate_key e = Some (e\<lparr>qe_key := Some (qr_key_text e)\<rparr>)"
proof -
  have hg: "length (dec (qe_hostgroup_id e)) \<le> 7"
    using assms length_dec_nat [of "nat (qe_hostgroup_id e)" 7] by (auto simp: entry_ok_def dec_def)
  have port: "length (dec (qe_mysql_server_port e)) \<le> 5"
    using assms length_dec_nat [of "nat (qe_mysql_server_port e)" 5] by (auto simp: entry_ok_def dec_def)
  have nz: "0 \<notin> set (qr_key_text e)"
    using assms dec_nonzero by (auto simp: entry_ok_def qr_key_text_def sep_def str_def split: option.splits)
  have len: "length (qr_key_text e @ [0]) \<le> length (qe_query_digest_md5 e) + 3
              + (case qe_mysql_server_address e of None \<Rightarrow> 0 | Some a \<Rightarrow> length a)
              + length (qe_username e) + length (qe_schemaname e) + 5 + (5 * length (str ''__'') + 5)"
    using hg port by (simp add: qr_key_text_def sep_def split: option.split)
  show ?thesis
    unfolding generate_key_def Let_def
    using len nz by (simp add: mem_write_start)
qed

definition cnt_of :: "(cstr \<Rightarrow> qr_hash_entry option) \<Rightarrow> cstr \<Rightarrow> nat" where
  "cnt_of m k = (case m k of None \<Rightarrow> 0 | Some e \<Rightarrow> qe_exec_cnt e)"

definition time_of :: "(cstr \<Rightarrow> qr_hash_entry option) \<Rightarrow> cstr \<Rightarrow> int" where
  "time_of m k = (case m k of None \<Rightarrow> 0 | Some e \<Rightarrow> qe_query_time e)"

lemma query_statistics_set_spec:
  assumes "entry_ok e"
  shows "\<exists>ht'. query_statistics_set t e ht = Some ht' \<and> qh_p ht' = qh_p ht
           \<and> cnt_of (qh_c ht') = (cnt_of (qh_c ht))(qr_key_text e := cnt_of (qh_c ht) (qr_key_text e) + 1)
           \<and> time_of (qh_c ht') = (time_of (qh_c ht))(qr_key_text e := time_of (qh_c ht) (qr_key_text e) + (t - qe_query_time e))"
  by (simp add: query_statistics_set_def generate_key_Some [OF assms] cnt_of_def time_of_def fun_eq_iff
      split: option.split)

lemma stats_run_spec:
  assumes "\<forall>(t, e) \<in> set es. entry_ok e"
  shows "\<exists>ht'. stats_run es ht = Some ht'
           \<and> (\<forall>k. cnt_of (qh_c ht') k = cnt_of (qh_c ht) k + length (filter (\<lambda>(t, e). qr_key_text e = k) es)
                \<and> time_of (qh_c ht') k = time_of (qh_c ht) k
                    + sum_list (map (\<lambda>(t, e). t - qe_query_time e) (filter (\<lambda>(t, e). qr_key_text e = k) es)))"
  using assms
proof (induction es arbitrary: ht)
  case (Cons x es)
  obtain t e where x: "x = (t, e)" by (cases x)
  obtain ht1 where 1: "query_statistics_set t e ht = Some ht1"
      "cnt_of (qh_c ht1) = (cnt_of (qh_c ht))(qr_key_text e := cnt_of (qh_c ht) (qr_key_text e) + 1)"
      "time_of (qh_c ht1) = (time_of (qh_c ht))(qr_key_text e := time_of (qh_c ht) (qr_key_text e) + (t - qe_query_time e))"
    using query_statistics_set_spec [of e t ht] Cons.prems x by auto
  have "\<forall>(t, e) \<in> set es. entry_ok e" using Cons.prems by simp
  from Cons.IH [OF this, of ht1] obtain ht' where ht': "stats_run es ht1 = Some ht'"
      "\<forall>k. cnt_of (qh_c ht') k = cnt_of (qh_c ht1) k + length (filter (\<lambda>(t, e). qr_key_text e = k) es)
         \<and> time_of (qh_c ht') k = time_of (qh_c ht1) k
             + sum_list (map (\<lambda>(t, e). t - qe_query_time e) (filter (\<lambda>(t, e). qr_key_text e = k) es))"
    by blast
  show ?case
    using 1(1) ht' unfolding 1(2,3) x by (intro exI [of _ ht']) simp
qed simp

subsection \<open>Properties\<close>


definition sample_entry :: "cstr \<Rightarrow> cstr \<Rightarrow> int \<Rightarrow> qr_hash_entry" where
  "sample_entry user schema start =
     \<lparr>qe_key = None, qe_exec_cnt = 0, qe_query_digest_text = [], qe_query_digest_md5 = str ''0f'', qe_hostgroup_id = 1,
      qe_username = user, qe_schemaname = schema, qe_mysql_server_address = None, qe_query_time = start,
      qe_mysql_server_port = 3306\<rparr>"


text \<open>
  The key does not identify its parts: the separator \<^verbatim>\<open>__\<close> may occur in user and schema names, and the
  statements of user \<^verbatim>\<open>a__b\<close> on schema \<^verbatim>\<open>c\<close> are counted together with those of user \<^verbatim>\<open>a\<close> on schema
  \<^verbatim>\<open>b__c\<close>.
\<close>

theorem stats_key_collides:
  "qr_key_text (sample_entry (str ''a__b'') (str ''c'') s) = qr_key_text (sample_entry (str ''a'') (str ''b__c'') t)
   \<and> str ''a__b'' \<noteq> str ''a''"
  by (simp add: qr_key_text_def sample_entry_def sep_def str_def)

end
