(* ===== verification/Allocator.thy ===== *)
theory Allocator
  imports Prelude
begin

section \<open>The per-thread memory pools\<close>

text \<open>
  The allocator of \<^verbatim>\<open>src/l_utils.c\<close>: six chunks (\<^verbatim>\<open>l_sfc\<close>) of element sizes 8 to 256, each with
  a stack of free elements cut from blocks of 256 KB; larger requests go to \<^verbatim>\<open>malloc\<close>.

  Addresses are natural numbers and \<open>0\<close> is \<^verbatim>\<open>NULL\<close>. The stack is threaded through the free
  elements in C (\<^verbatim>\<open>l_stack\<close>); here it is the list of their addresses. What \<^verbatim>\<open>malloc\<close> and
  \<^verbatim>\<open>posix_memalign\<close> return is an argument of the allocation. \<^verbatim>\<open>qsort\<close> is a parameter of
  \<open>compact_mem\<close>.

  \<open>pool_inv\<close> relates a chunk to the elements its clients hold: free and held elements are distinct, and
  each lies in a block. The main result is that clients never hold overlapping memory.
\<close>

definition L_SFC_MEM_BLOCK_SIZE :: nat where
  "L_SFC_MEM_BLOCK_SIZE = 262144"

record l_sfc =
  sf_stack :: "nat list"
  sf_mem_blocks :: "nat list"
  sf_elem_size :: nat
  sf_alloc_cnt :: nat
  sf_free_cnt :: nat
  sf_free_count :: nat \<comment> \<open>\<open>__mem_l_free_count\<close>\<close>

type_synonym l_sfp = "l_sfc list"

definition l_mem_init :: l_sfp where
  "l_mem_init = map (\<lambda>i. \<lparr>sf_stack = [], sf_mem_blocks = [], sf_elem_size = 8 * 2 ^ i, sf_alloc_cnt = 0,
                           sf_free_cnt = 0, sf_free_count = 0\<rparr>) [0..<6]"

text \<open>\<^verbatim>\<open>l_mem_destroy\<close> frees every block of every chunk: the blocks in order.\<close>

definition l_mem_destroy :: "l_sfp \<Rightarrow> nat list" where
  "l_mem_destroy s = concat (map sf_mem_blocks s)"

definition l_stack_push :: "nat list \<Rightarrow> nat \<Rightarrow> nat list" where
  "l_stack_push s p = p # s"

definition l_stack_pop :: "nat list \<Rightarrow> nat option \<times> nat list" where
  "l_stack_pop s = (case s of [] \<Rightarrow> (None, []) | d # n \<Rightarrow> (Some d, n))"

definition add_mem_block :: "l_sfc \<Rightarrow> nat \<Rightarrow> l_sfc" where
  "add_mem_block sfc m = sfc\<lparr>sf_mem_blocks := sf_mem_blocks sfc @ [m]\<rparr>"

definition block_elems :: "nat \<Rightarrow> nat" where
  "block_elems elem_size = L_SFC_MEM_BLOCK_SIZE div elem_size"

definition push_mem_block :: "l_sfc \<Rightarrow> nat \<Rightarrow> l_sfc" where
  "push_mem_block sfc m =
     sfc\<lparr>sf_stack := foldl (\<lambda>s j. l_stack_push s (m + j * sf_elem_size sfc)) (sf_stack sfc)
                       [0..<block_elems (sf_elem_size sfc)]\<rparr>"

text \<open>
  The loop that picks the chunk, the same in \<^verbatim>\<open>__l_alloc\<close> and \<^verbatim>\<open>__l_free\<close>: from the middle or the last
  chunk downwards to the first whose element size is less than twice the request.
\<close>

fun find_chunk :: "l_sfp \<Rightarrow> nat \<Rightarrow> nat \<Rightarrow> nat" where
  "find_chunk sfp sz 0 = 0"
| "find_chunk sfp sz (Suc i) =
     (if sz * 2 > sf_elem_size (sfp ! Suc i) then Suc i else find_chunk sfp sz i)"

definition chunk_class :: "l_sfp \<Rightarrow> nat \<Rightarrow> nat" where
  "chunk_class sfp sz = find_chunk sfp sz (if sz \<le> 32 then 2 else 5)"

text \<open>Allocation from one chunk; \<open>m\<close> is the block \<^verbatim>\<open>posix_memalign\<close> returns if one is needed.\<close>

definition sfc_alloc :: "l_sfc \<Rightarrow> nat \<Rightarrow> nat option \<times> l_sfc" where
  "sfc_alloc sfc m =
     (case l_stack_pop (sf_stack sfc) of
        (Some p, s) \<Rightarrow> (Some p, sfc\<lparr>sf_stack := s\<rparr>)
      | (None, _) \<Rightarrow>
          let sfc = push_mem_block (add_mem_block sfc m) m;
              sfc = sfc\<lparr>sf_alloc_cnt := sf_alloc_cnt sfc + block_elems (sf_elem_size sfc),
                        sf_free_cnt := sf_free_cnt sfc + block_elems (sf_elem_size sfc)\<rparr>;
              (p, s) = l_stack_pop (sf_stack sfc)
          in (p, sfc\<lparr>sf_stack := s\<rparr>))"

definition l_alloc :: "l_sfp \<Rightarrow> nat \<Rightarrow> nat \<Rightarrow> nat \<Rightarrow> nat option \<times> l_sfp" where
  "l_alloc sfp sz malloc m =
     (if sz > 256 then (Some malloc, sfp)
      else let i = chunk_class sfp sz; (p, sfc) = sfc_alloc (sfp ! i) m in (p, sfp[i := sfc]))"

subsection \<open>Compaction\<close>

text \<open>
  \<^verbatim>\<open>compact_mem\<close> copies \<^verbatim>\<open>free_cnt\<close> stack entries (\<open>0\<close> behind the end of the stack) to a buffer, sorts
  it, looks for runs that are a whole block, gives these blocks back, and rebuilds the stack from the
  buffer: once with the old and once with the reduced \<^verbatim>\<open>free_cnt\<close>.
\<close>

definition copy_to_sort_buff :: "l_sfc \<Rightarrow> nat \<Rightarrow> nat list" where
  "copy_to_sort_buff sfc elems = take elems (sf_stack sfc @ replicate elems 0)"

function scan_blocks :: "nat \<Rightarrow> nat \<Rightarrow> nat list \<Rightarrow> nat list \<Rightarrow> nat list \<times> nat list" where
  "scan_blocks e i buff free_block =
     (let n = block_elems e
      in if 0 < n \<and> i + n < length buff
         then let v1 = buff ! i; v2 = buff ! (i + n - 1)
              in if v1 mod L_SFC_MEM_BLOCK_SIZE \<noteq> 0 then scan_blocks e (i + 1) buff free_block
                 else if v2 \<noteq> v1 + L_SFC_MEM_BLOCK_SIZE - e then scan_blocks e (i + 1) buff free_block
                 else scan_blocks e (i + n) (take i buff @ replicate n 0 @ drop (i + n) buff) (free_block @ [v1])
         else (buff, free_block))"
  by pat_completeness auto
termination
  by (relation "measure (\<lambda>(e, i, buff, fb). length buff - i)") auto

declare scan_blocks.simps [simp del]

text \<open>\<^verbatim>\<open>cmpptr\<close> returns the difference of two addresses as an \<^verbatim>\<open>int\<close>: the low 32 bits of it.\<close>

definition cmpptr :: "nat \<Rightarrow> nat \<Rightarrow> int" where
  "cmpptr a b = sint (of_int (int a - int b) :: 32 word)"

definition sort_stack :: "l_sfc \<Rightarrow> nat list \<Rightarrow> l_sfc" where
  "sort_stack sfc buff =
     sfc\<lparr>sf_stack := foldl l_stack_push [] (filter (\<lambda>p. p \<noteq> 0) (take (sf_free_cnt sfc) buff))\<rparr>"

type_synonym qsort = "(nat \<Rightarrow> nat \<Rightarrow> int) \<Rightarrow> nat list \<Rightarrow> nat list"

definition compact_mem :: "qsort \<Rightarrow> l_sfc \<Rightarrow> nat list \<times> l_sfc" where
  "compact_mem qsort sfc =
     (let n = block_elems (sf_elem_size sfc);
          (buff, free_block) =
            scan_blocks (sf_elem_size sfc) 0 (qsort cmpptr (copy_to_sort_buff sfc (sf_free_cnt sfc))) [];
          freed = filter (\<lambda>b. b \<in> set free_block) (sf_mem_blocks sfc);
          sfc = (if free_block \<noteq> []
                 then let sfc = sort_stack (sfc\<lparr>sf_mem_blocks := filter (\<lambda>b. b \<notin> set free_block) (sf_mem_blocks sfc)\<rparr>) buff
                      in sfc\<lparr>sf_alloc_cnt := sf_alloc_cnt sfc - length free_block * n,
                             sf_free_cnt := sf_free_cnt sfc - length free_block * n\<rparr>
                 else sfc)
      in (freed, sort_stack sfc buff))"

definition sfc_free :: "qsort \<Rightarrow> l_sfc \<Rightarrow> nat \<Rightarrow> l_sfc" where
  "sfc_free qsort sfc p =
     (let sfc = sfc\<lparr>sf_stack := l_stack_push (sf_stack sfc) p, sf_free_cnt := sf_free_cnt sfc + 1,
                    sf_free_count := sf_free_count sfc + 1\<rparr>
      in if sf_free_count sfc mod L_SFC_MEM_BLOCK_SIZE = 0 \<and> length (sf_mem_blocks sfc) > 16
            \<and> sf_free_cnt sfc > sf_alloc_cnt sfc * 990 div 1000
         then (snd (compact_mem qsort sfc))\<lparr>sf_free_count := 0\<rparr>
         else sfc)"

definition l_free :: "qsort \<Rightarrow> l_sfp \<Rightarrow> nat \<Rightarrow> nat \<Rightarrow> l_sfp" where
  "l_free qsort sfp sz p =
     (if sz > 256 then sfp
      else let i = chunk_class sfp sz in sfp[i := sfc_free qsort (sfp ! i) p])"

subsection \<open>Size classes\<close>

definition sized :: "l_sfp \<Rightarrow> bool" where
  "sized sfp \<longleftrightarrow> map sf_elem_size sfp = [8, 16, 32, 64, 128, 256]"

lemma sized_nth:
  assumes "sized sfp"
  shows "length sfp = 6" "sf_elem_size (sfp ! 0) = 8" "sf_elem_size (sfp ! 1) = 16" "sf_elem_size (sfp ! 2) = 32"
    "sf_elem_size (sfp ! 3) = 64" "sf_elem_size (sfp ! 4) = 128" "sf_elem_size (sfp ! 5) = 256"
proof -
  have l: "length sfp = 6"
  proof -
    have "length (map sf_elem_size sfp) = length [8, 16, 32, 64, 128, 256 :: nat]"
      using assms by (simp only: sized_def)
    then show ?thesis by simp
  qed
  show "length sfp = 6" by (rule l)
  have "sf_elem_size (sfp ! i) = [8, 16, 32, 64, 128, 256] ! i" if "i < 6" for i
    using assms that l by (metis sized_def nth_map)
  from this [of 0] this [of 1] this [of 2] this [of 3] this [of 4] this [of 5]
  show "sf_elem_size (sfp ! 0) = 8" "sf_elem_size (sfp ! 1) = 16" "sf_elem_size (sfp ! 2) = 32"
    "sf_elem_size (sfp ! 3) = 64" "sf_elem_size (sfp ! 4) = 128" "sf_elem_size (sfp ! 5) = 256" by simp_all
qed

lemma find_chunk_numeral:
  "find_chunk sfp sz (numeral k) =
     (if sz * 2 > sf_elem_size (sfp ! numeral k) then numeral k else find_chunk sfp sz (pred_numeral k))"
  by (metis find_chunk.simps(2) numeral_eq_Suc)

lemma find_chunk_one:
  "find_chunk sfp sz (Suc 0) = (if sz * 2 > sf_elem_size (sfp ! 1) then 1 else 0)"
  by simp

lemma chunk_class_fits:
  assumes "sized sfp" and "sz \<le> 256"
  shows "chunk_class sfp sz < 6 \<and> sz \<le> sf_elem_size (sfp ! chunk_class sfp sz)
         \<and> (8 < sz \<longrightarrow> sf_elem_size (sfp ! chunk_class sfp sz) < 2 * sz)"
  using sized_nth [OF assms(1)] assms(2)
  by (simp add: chunk_class_def find_chunk_numeral find_chunk_one del: find_chunk.simps(2))

subsection \<open>Elements of blocks\<close>

definition elements :: "nat \<Rightarrow> nat \<Rightarrow> nat set" where
  "elements e b = (\<lambda>j. b + j * e) ` {..<block_elems e}"

definition elem_ok :: "nat \<Rightarrow> bool" where
  "elem_ok e \<longleftrightarrow> 0 < e \<and> e dvd L_SFC_MEM_BLOCK_SIZE \<and> e < L_SFC_MEM_BLOCK_SIZE"

definition block_ok :: "nat \<Rightarrow> bool" where
  "block_ok b \<longleftrightarrow> L_SFC_MEM_BLOCK_SIZE dvd b \<and> 0 < b"

lemma block_elems_mult: "elem_ok e \<Longrightarrow> block_elems e * e = L_SFC_MEM_BLOCK_SIZE"
  by (simp add: elem_ok_def block_elems_def)

lemma block_elems_pos: "elem_ok e \<Longrightarrow> 0 < block_elems e"
  using block_elems_mult [of e] by (cases "block_elems e") (simp_all add: L_SFC_MEM_BLOCK_SIZE_def)

lemma elements_bounds:
  assumes "elem_ok e" and "block_ok b" and "p \<in> elements e b"
  shows "e dvd p" "b \<le> p" "p < b + L_SFC_MEM_BLOCK_SIZE" "L_SFC_MEM_BLOCK_SIZE \<le> p"
proof -
  obtain j where j: "p = b + j * e" "j < block_elems e" using assms(3) by (auto simp: elements_def)
  show "e dvd p" using assms(1,2) j(1) by (auto simp: elem_ok_def block_ok_def intro: dvd_trans)
  show "b \<le> p" using j(1) by simp
  have "j * e < block_elems e * e" using j(2) assms(1) by (simp add: elem_ok_def)
  then show "p < b + L_SFC_MEM_BLOCK_SIZE" using j(1) by (simp add: block_elems_mult [OF assms(1)])
  have "L_SFC_MEM_BLOCK_SIZE \<le> b" using assms(2) by (auto simp: block_ok_def dest: dvd_imp_le)
  with \<open>b \<le> p\<close> show "L_SFC_MEM_BLOCK_SIZE \<le> p" by simp
qed

lemma elements_block:
  assumes "elem_ok e" and "block_ok b" and "p \<in> elements e b"
  shows "b = p div L_SFC_MEM_BLOCK_SIZE * L_SFC_MEM_BLOCK_SIZE"
proof -
  obtain k where b: "b = L_SFC_MEM_BLOCK_SIZE * k" using assms(2) by (auto simp: block_ok_def)
  note bd = elements_bounds [OF assms]
  have "p div L_SFC_MEM_BLOCK_SIZE = k"
    using bd(2,3) b by (intro div_nat_eqI) (simp_all add: mult.commute)
  then show ?thesis using b by (simp add: mult.commute)
qed

lemma elements_disjoint:
  assumes "elem_ok e" and "block_ok b" and "block_ok c" and "p \<in> elements e b" and "p \<in> elements e c"
  shows "b = c"
  using elements_block [OF assms(1,2,4)] elements_block [OF assms(1,3,5)] by simp

text \<open>Elements are multiples of their size, so distinct ones do not overlap.\<close>

lemma multiples_disjoint:
  fixes e :: nat
  assumes "e dvd p" and "e dvd q" and "p \<noteq> q"
  shows "{p ..< p + e} \<inter> {q ..< q + e} = {}"
proof -
  obtain i j where ij: "p = e * i" "q = e * j" using assms(1,2) by (auto elim!: dvdE)
  with assms(3) have "i \<noteq> j" by metis
  then have "i < j \<or> j < i" by linarith
  then show ?thesis
  proof
    assume "i < j"
    then have "e * i + e \<le> e * j" by (metis Suc_leI mult_Suc_right mult_le_mono2 add.commute)
    then show ?thesis using ij by auto
  next
    assume "j < i"
    then have "e * j + e \<le> e * i" by (metis Suc_leI mult_Suc_right mult_le_mono2 add.commute)
    then show ?thesis using ij by auto
  qed
qed

text \<open>As many distinct multiples as a block has elements, all within the block, are all its elements.\<close>

lemma full_block:
  assumes "elem_ok e" and "distinct ps" and "length ps = block_elems e"
    and "\<forall>p \<in> set ps. e dvd p \<and> b \<le> p \<and> p < b + L_SFC_MEM_BLOCK_SIZE" and "block_ok b"
  shows "set ps = elements e b"
proof -
  have sub: "set ps \<subseteq> elements e b"
  proof
    fix p assume "p \<in> set ps"
    with assms(4) have p: "e dvd p" "b \<le> p" "p < b + L_SFC_MEM_BLOCK_SIZE" by auto
    have "e dvd b" using assms(1,5) by (auto simp: elem_ok_def block_ok_def intro: dvd_trans)
    then have "e dvd p - b" using p(1,2) by (simp add: dvd_diff_nat)
    then obtain j where j: "p - b = e * j" by (auto elim: dvdE)
    have "e * j < e * block_elems e" using j p(2,3) block_elems_mult [OF assms(1)] by (simp add: mult.commute)
    then have "j < block_elems e" by simp
    with j p(2) show "p \<in> elements e b" by (auto simp: elements_def mult.commute intro!: image_eqI [of _ _ j])
  qed
  have "inj_on (\<lambda>j. b + j * e) {..<block_elems e}" using assms(1) by (auto simp: inj_on_def elem_ok_def)
  then have "card (elements e b) = block_elems e" by (simp add: elements_def card_image)
  moreover have "card (set ps) = block_elems e" using assms(2,3) by (simp add: distinct_card)
  moreover have "finite (elements e b)" by (simp add: elements_def)
  ultimately show ?thesis using sub by (metis card_subset_eq)
qed

definition pool_inv :: "l_sfc \<Rightarrow> nat list \<Rightarrow> bool" where
  "pool_inv sfc held \<longleftrightarrow> elem_ok (sf_elem_size sfc) \<and> (\<forall>b \<in> set (sf_mem_blocks sfc). block_ok b)
     \<and> distinct (sf_stack sfc @ held)
     \<and> (\<forall>p \<in> set (sf_stack sfc @ held). \<exists>b \<in> set (sf_mem_blocks sfc). p \<in> elements (sf_elem_size sfc) b)"

lemma foldl_push: "foldl (\<lambda>s j. l_stack_push s (f j)) s xs = rev (map f xs) @ s"
  by (induction xs arbitrary: s) (simp_all add: l_stack_push_def)

lemma sfc_alloc_spec:
  assumes "pool_inv sfc held" and "block_ok m" and "m \<notin> set (sf_mem_blocks sfc)"
  shows "\<exists>p sfc'. sfc_alloc sfc m = (Some p, sfc') \<and> pool_inv sfc' (p # held) \<and> sf_elem_size sfc' = sf_elem_size sfc"
proof (cases "sf_stack sfc")
  case (Cons p s)
  with assms(1) show ?thesis
    by (auto simp: sfc_alloc_def l_stack_pop_def pool_inv_def)
next
  case Nil
  let ?e = "sf_elem_size sfc"
  let ?new = "rev (map (\<lambda>j. m + j * ?e) [0..<block_elems ?e])"
  have e: "elem_ok ?e" using assms(1) by (simp add: pool_inv_def)
  have set_new: "set ?new = elements ?e m" by (auto simp: elements_def)
  have dist: "distinct ?new" using e by (auto simp: distinct_map inj_on_def elem_ok_def)
  have "?new \<noteq> []" using block_elems_pos [OF e] by simp
  then obtain p s where ps: "?new = p # s" by (cases ?new) auto
  have "set ?new \<inter> set held = {}"
  proof (rule ccontr)
    assume "set ?new \<inter> set held \<noteq> {}"
    then obtain q where q: "q \<in> elements ?e m" "q \<in> set held" using set_new by auto
    from assms(1) have "\<forall>p \<in> set (sf_stack sfc @ held). \<exists>b \<in> set (sf_mem_blocks sfc). p \<in> elements ?e b"
      unfolding pool_inv_def by blast
    with q(2) obtain b where b: "b \<in> set (sf_mem_blocks sfc)" "q \<in> elements ?e b" by auto
    then have "m = b" using elements_disjoint [OF e assms(2) _ q(1) b(2)] assms(1) by (auto simp: pool_inv_def)
    with b(1) assms(3) show False by simp
  qed
  then have inv: "distinct (s @ p # held)" "\<forall>q \<in> set (s @ p # held). \<exists>b \<in> set (sf_mem_blocks sfc @ [m]). q \<in> elements ?e b"
    using dist assms(1) Nil set_new unfolding ps by (auto simp: pool_inv_def)
  have stack: "sf_stack (push_mem_block (add_mem_block sfc m) m) = p # s"
    using Nil ps by (simp add: push_mem_block_def add_mem_block_def foldl_push)
  define sfc' where "sfc' = sfc\<lparr>sf_mem_blocks := sf_mem_blocks sfc @ [m], sf_stack := s,
      sf_alloc_cnt := sf_alloc_cnt sfc + block_elems ?e, sf_free_cnt := sf_free_cnt sfc + block_elems ?e\<rparr>"
  have "sfc_alloc sfc m = (Some p, sfc')"
    using Nil stack by (simp add: sfc_alloc_def l_stack_pop_def push_mem_block_def add_mem_block_def sfc'_def)
  moreover have "pool_inv sfc' (p # held)"
    using inv assms(1,2) e by (simp add: pool_inv_def sfc'_def)
  ultimately show ?thesis by (auto simp: sfc'_def)
qed

subsection \<open>Compaction is safe\<close>

definition distinct_nz :: "nat list \<Rightarrow> bool" where
  "distinct_nz xs \<longleftrightarrow> distinct (filter (\<lambda>p. p \<noteq> 0) xs)"

definition all_elements :: "nat \<Rightarrow> nat set \<Rightarrow> nat set" where
  "all_elements e bs = (\<Union>b \<in> bs. elements e b)"

lemma distinct_nz_append:
  "distinct_nz (xs @ ys) \<longleftrightarrow> distinct_nz xs \<and> distinct_nz ys \<and> (set xs \<inter> set ys) - {0} = {}"
  unfolding distinct_nz_def filter_append distinct_append set_filter by blast

lemma distinct_nz_nonzero: "0 \<notin> set xs \<Longrightarrow> distinct_nz xs \<longleftrightarrow> distinct xs"
proof -
  assume "0 \<notin> set xs"
  then have "filter (\<lambda>p. p \<noteq> 0) xs = xs" by (metis (mono_tags, lifting) filter_True)
  then show ?thesis by (simp only: distinct_nz_def)
qed

lemma distinct_nz_zeros [simp]: "distinct_nz (replicate n 0)"
  by (simp add: distinct_nz_def)

text \<open>A run of the sorted buffer that the scan takes for a block is the block, and all of it is free.\<close>

lemma scan_run:
  assumes e: "elem_ok e" and n: "n = block_elems e" and bs: "\<forall>b \<in> bs. block_ok b"
    and s: "sorted (drop i buff)" and d: "distinct_nz buff" and sub: "set buff \<subseteq> insert 0 (all_elements e bs)"
    and i: "i + n < length buff" and v1: "buff ! i mod L_SFC_MEM_BLOCK_SIZE = 0"
    and v2: "buff ! (i + n - 1) = buff ! i + L_SFC_MEM_BLOCK_SIZE - e"
  shows "buff ! i \<in> bs \<and> set (take n (drop i buff)) = elements e (buff ! i)"
proof -
  have e0: "0 < e" using e by (simp add: elem_ok_def)
  have elt: "e < L_SFC_MEM_BLOCK_SIZE" using e by (simp add: elem_ok_def)
  have npos: "0 < n" using block_elems_pos [OF e] n by simp
  have mem: "\<exists>b \<in> bs. p \<in> elements e b" if "p \<in> set buff" "p \<noteq> 0" for p
    using sub that by (auto simp: all_elements_def)
  have big: "L_SFC_MEM_BLOCK_SIZE \<le> p \<and> e dvd p" if "p \<in> set buff" "p \<noteq> 0" for p
    using mem [OF that] elements_bounds [OF e] bs by blast
  let ?run = "take n (drop i buff)"
  have run_nth: "?run ! k = buff ! (i + k)" if "k < n" for k using that i by simp
  have len: "length ?run = n" using i by simp
  have srt: "sorted ?run" using s by (rule sorted_wrt_take)
  have hi: "p \<le> buff ! (i + n - 1)" and lo: "buff ! i \<le> p" if pr: "p \<in> set ?run" for p
  proof -
    obtain k where "k < length ?run" "?run ! k = p" using pr unfolding in_set_conv_nth by blast
    then have k: "k < n" "p = ?run ! k" using len by simp_all
    have "?run ! k \<le> ?run ! (n - 1)" using srt k(1) len by (intro sorted_nth_mono) simp_all
    then show "p \<le> buff ! (i + n - 1)" using k run_nth [of "n - 1"] npos by simp
    have "?run ! 0 \<le> ?run ! k" using srt k(1) len by (intro sorted_nth_mono) simp_all
    then show "buff ! i \<le> p" using k run_nth [of 0] npos by simp
  qed
  have in_buff: "p \<in> set buff" if "p \<in> set ?run" for p
    using that by (auto dest!: in_set_takeD in_set_dropD)
  have nz: "buff ! i \<noteq> 0"
  proof
    assume z: "buff ! i = 0"
    then have v: "buff ! (i + n - 1) = L_SFC_MEM_BLOCK_SIZE - e" using v2 by simp
    have "buff ! (i + n - 1) \<in> set buff" using i by simp
    moreover have "L_SFC_MEM_BLOCK_SIZE - e < L_SFC_MEM_BLOCK_SIZE" "L_SFC_MEM_BLOCK_SIZE - e \<noteq> 0"
      using e0 elt by simp_all
    ultimately show False using big [of "buff ! (i + n - 1)"] v by (metis leD)
  qed
  have "buff ! i \<in> set buff" using i by simp
  then obtain b where b: "b \<in> bs" "buff ! i \<in> elements e b" using mem nz by blast
  have "b = buff ! i"
    using elements_block [OF e _ b(2)] bs b(1) v1 by auto
  then have blk: "buff ! i \<in> bs" "block_ok (buff ! i)" using b(1) bs by auto
  have zero: "0 \<notin> set ?run" using lo nz by fastforce
  have "distinct_nz (take i buff @ ?run @ drop n (drop i buff))" using d by (simp only: append_take_drop_id)
  then have "distinct ?run" using distinct_nz_nonzero [OF zero] by (simp only: distinct_nz_append)
  moreover have "\<forall>p \<in> set ?run. e dvd p \<and> buff ! i \<le> p \<and> p < buff ! i + L_SFC_MEM_BLOCK_SIZE"
  proof
    fix p assume p: "p \<in> set ?run"
    have "p \<noteq> 0" using p zero by metis
    moreover have "p \<le> buff ! i + L_SFC_MEM_BLOCK_SIZE - e" using hi [OF p] v2 by simp
    ultimately show "e dvd p \<and> buff ! i \<le> p \<and> p < buff ! i + L_SFC_MEM_BLOCK_SIZE"
      using big [OF in_buff [OF p]] lo [OF p] e0 elt by auto
  qed
  ultimately have "set ?run = elements e (buff ! i)"
    using full_block [OF e _ _ _ blk(2), of ?run] len n by simp
  with blk(1) show ?thesis by simp
qed

lemma zero_not_element: "elem_ok e \<Longrightarrow> block_ok b \<Longrightarrow> 0 \<notin> elements e b"
  by (auto simp: elements_def block_ok_def)

lemma scan_run_cleared:
  assumes "elem_ok e" and "\<forall>b \<in> bs. block_ok b" and "distinct_nz buff" and "block_ok b"
    and "set (take n (drop i buff)) = elements e b" and "i + n \<le> length buff"
  defines "buff' \<equiv> take i buff @ replicate n 0 @ drop (i + n) buff"
  shows "distinct_nz buff'" and "set buff' \<subseteq> insert 0 (set buff)" and "elements e b \<inter> set buff' = {}"
    and "elements e b \<subseteq> set buff"
proof -
  let ?run = "take n (drop i buff)"
  have split: "buff = take i buff @ ?run @ drop (i + n) buff"
    by (metis append_take_drop_id drop_drop add.commute)
  then have "distinct_nz (take i buff @ ?run @ drop (i + n) buff)" using assms(3) by simp
  then have d: "distinct_nz (take i buff)" "distinct_nz (drop (i + n) buff)"
    "set (take i buff) \<inter> (elements e b \<union> set (drop (i + n) buff)) - {0} = {}"
    "elements e b \<inter> set (drop (i + n) buff) - {0} = {}"
    by (simp_all only: distinct_nz_append assms(5) set_append)
  show "distinct_nz buff'" using d by (auto simp: buff'_def distinct_nz_append)
  show "set buff' \<subseteq> insert 0 (set buff)"
    by (auto simp: buff'_def dest: in_set_takeD in_set_dropD)
  have z: "0 \<notin> elements e b" using zero_not_element assms(1,4) .
  have "set buff' \<subseteq> insert 0 (set (take i buff) \<union> set (drop (i + n) buff))" by (auto simp: buff'_def)
  then show "elements e b \<inter> set buff' = {}" using d(3,4) z by blast
  show "elements e b \<subseteq> set buff" using assms(5) by (metis in_set_dropD in_set_takeD subsetI)
qed

lemma scan_blocks_spec:
  assumes e: "elem_ok e" and bs: "\<forall>b \<in> bs. block_ok b"
    and "sorted (drop i buff)" and "distinct_nz buff" and "set buff \<subseteq> insert 0 (all_elements e bs)"
    and "scan_blocks e i buff fb = (buff', fb')"
  shows "distinct_nz buff' \<and> set buff' \<subseteq> insert 0 (set buff)
         \<and> (\<forall>b \<in> set fb'. b \<in> set fb \<or> b \<in> bs \<and> elements e b \<subseteq> set buff \<and> elements e b \<inter> set buff' = {})"
  using assms(3-6)
proof (induction "length buff - i" arbitrary: i buff fb rule: less_induct)
  case less
  let ?n = "block_elems e"
  have n0: "0 < ?n" by (rule block_elems_pos [OF e])
  show ?case
  proof (cases "i + ?n < length buff")
    case False
    then have "buff' = buff \<and> fb' = fb" using less.prems(4) by (simp add: scan_blocks.simps [of e i buff])
    then show ?thesis using less.prems(2) by auto
  next
    case len: True
    show ?thesis
    proof (cases "buff ! i mod L_SFC_MEM_BLOCK_SIZE = 0 \<and> buff ! (i + ?n - 1) = buff ! i + L_SFC_MEM_BLOCK_SIZE - e")
      case False
      then have "scan_blocks e (i + 1) buff fb = (buff', fb')"
        using less.prems(4) len n0 by (auto simp: scan_blocks.simps [of e i buff] Let_def split: if_splits)
      moreover have "sorted (drop (i + 1) buff)"
        using sorted_wrt_drop [OF less.prems(1), of 1] by simp
      ultimately show ?thesis using less.hyps [of buff "i + 1"] less.prems(2,3) len by simp
    next
      case True
      define buff1 where "buff1 = take i buff @ replicate ?n 0 @ drop (i + ?n) buff"
      note run = scan_run [OF e refl bs less.prems(1-3) len True [THEN conjunct1] True [THEN conjunct2]]
      note cl = scan_run_cleared [OF e bs less.prems(2) _ run [THEN conjunct2] less_imp_le [OF len], folded buff1_def]
      have b: "block_ok (buff ! i)" using run bs by blast
      have sc: "scan_blocks e (i + ?n) buff1 (fb @ [buff ! i]) = (buff', fb')"
        using less.prems(4) len n0 True by (simp add: scan_blocks.simps [of e i buff] Let_def buff1_def)
      have l1: "length buff1 = length buff" using len by (simp add: buff1_def)
      have "drop (i + ?n) buff1 = drop (i + ?n) buff" using len by (simp add: buff1_def)
      then have srt: "sorted (drop (i + ?n) buff1)"
        using sorted_wrt_drop [OF less.prems(1), of ?n] by (simp add: add.commute)
      have sub: "set buff1 \<subseteq> insert 0 (all_elements e bs)" using cl(2) [OF b] less.prems(3) by blast
      have "length buff1 - (i + ?n) < length buff - i" using l1 len n0 by simp
      note ih = less.hyps [OF this srt cl(1) [OF b] sub sc]
      have z: "0 \<notin> elements e c" if "c \<in> bs" for c using zero_not_element [OF e] bs that by blast
      have "c \<in> set fb \<or> c \<in> bs \<and> elements e c \<subseteq> set buff \<and> elements e c \<inter> set buff' = {}" if c: "c \<in> set fb'" for c
      proof -
        consider "c \<in> set fb" | "c = buff ! i" | "c \<in> bs" "elements e c \<subseteq> set buff1" "elements e c \<inter> set buff' = {}"
          using ih c by auto
        then show ?thesis
        proof cases
          case 2
          then show ?thesis using cl(3,4) [OF b] run ih z [of c] by blast
        next
          case 3
          then show ?thesis using cl(2) [OF b] z [of c] by blast
        qed simp
      qed
      then show ?thesis using ih cl(2) [OF b] by blast
    qed
  qed
qed

text \<open>
  What \<^verbatim>\<open>qsort\<close> promises: a permutation in the order of the comparison function, if that function orders
  the elements it is given.
\<close>

definition orders :: "(nat \<Rightarrow> nat \<Rightarrow> int) \<Rightarrow> nat set \<Rightarrow> bool" where
  "orders cmp X \<longleftrightarrow> (\<forall>a \<in> X. \<forall>b \<in> X. cmp a b \<le> 0 \<or> cmp b a \<le> 0)
     \<and> (\<forall>a \<in> X. \<forall>b \<in> X. \<forall>c \<in> X. cmp a b \<le> 0 \<longrightarrow> cmp b c \<le> 0 \<longrightarrow> cmp a c \<le> 0)"

definition qsort_sorts :: "qsort \<Rightarrow> bool" where
  "qsort_sorts qsort \<longleftrightarrow>
     (\<forall>cmp xs. mset (qsort cmp xs) = mset xs \<and> (orders cmp (set xs) \<longrightarrow> sorted_wrt (\<lambda>a b. cmp a b \<le> 0) (qsort cmp xs)))"

lemma sint_of_int_word32:
  assumes "- (2 ^ 31) \<le> k" and "k < 2 ^ 31"
  shows "sint (of_int k :: 32 word) = k"
  using assms by (transfer fixing: k) (simp add: signed_take_bit_int_eq_self)

lemma cmpptr_exact:
  assumes "a < 2 ^ 31" and "b < 2 ^ 31"
  shows "cmpptr a b = int a - int b"
proof -
  have "int a < 2 ^ 31" "int b < 2 ^ 31" using assms by simp_all
  then have "- (2 ^ 31) \<le> int a - int b" "int a - int b < 2 ^ 31" by simp_all
  then show ?thesis unfolding cmpptr_def by (rule sint_of_int_word32)
qed

lemma qsort_ascending:
  assumes "qsort_sorts qsort" and "\<forall>x \<in> set xs. x < 2 ^ 31"
  shows "sorted (qsort cmpptr xs)" and "mset (qsort cmpptr xs) = mset xs"
proof -
  show m: "mset (qsort cmpptr xs) = mset xs" using assms(1) by (simp add: qsort_sorts_def)
  have ex: "cmpptr a b \<le> 0 \<longleftrightarrow> a \<le> b" if "a \<in> set xs" "b \<in> set xs" for a b
    using cmpptr_exact [of a b] assms(2) that by auto
  have "orders cmpptr (set xs)" by (auto simp: orders_def ex)
  then have "sorted_wrt (\<lambda>a b. cmpptr a b \<le> 0) (qsort cmpptr xs)" using assms(1) by (simp add: qsort_sorts_def)
  moreover have "set (qsort cmpptr xs) = set xs" using m by (metis set_mset_mset)
  ultimately show "sorted (qsort cmpptr xs)"
    using sorted_wrt_mono_rel [of "qsort cmpptr xs" "\<lambda>a b. cmpptr a b \<le> 0" "(\<le>)"] ex by blast
qed

lemma distinct_nz_perm: "mset xs = mset ys \<Longrightarrow> distinct_nz xs \<longleftrightarrow> distinct_nz ys"
  unfolding distinct_nz_def by (metis mset_eq_imp_distinct_iff mset_filter)

lemma distinct_nz_take: "distinct_nz xs \<Longrightarrow> distinct_nz (take n xs)"
  by (metis append_take_drop_id distinct_nz_append)

lemma copied_buff:
  assumes "distinct (sf_stack sfc)"
  shows "distinct_nz (copy_to_sort_buff sfc n)" and "set (copy_to_sort_buff sfc n) \<subseteq> insert 0 (set (sf_stack sfc))"
proof -
  have "distinct_nz (sf_stack sfc @ replicate n 0)" using assms by (auto simp: distinct_nz_append distinct_nz_def)
  then show "distinct_nz (copy_to_sort_buff sfc n)" unfolding copy_to_sort_buff_def by (rule distinct_nz_take)
  show "set (copy_to_sort_buff sfc n) \<subseteq> insert 0 (set (sf_stack sfc))"
    by (auto simp: copy_to_sort_buff_def dest: in_set_takeD)
qed

lemma pool_invD:
  assumes "pool_inv sfc held"
  shows "elem_ok (sf_elem_size sfc)" "\<forall>b \<in> set (sf_mem_blocks sfc). block_ok b"
    "distinct (sf_stack sfc)" "distinct held" "set (sf_stack sfc) \<inter> set held = {}"
    "set (sf_stack sfc) \<union> set held \<subseteq> all_elements (sf_elem_size sfc) (set (sf_mem_blocks sfc))"
    "0 \<notin> set held" "0 \<notin> set (sf_stack sfc)"
proof -
  show e: "elem_ok (sf_elem_size sfc)" "\<forall>b \<in> set (sf_mem_blocks sfc). block_ok b"
    and "distinct (sf_stack sfc)" "distinct held" "set (sf_stack sfc) \<inter> set held = {}"
    using assms by (simp_all add: pool_inv_def)
  show sub: "set (sf_stack sfc) \<union> set held \<subseteq> all_elements (sf_elem_size sfc) (set (sf_mem_blocks sfc))"
    using assms by (auto simp: pool_inv_def all_elements_def)
  have "0 \<notin> all_elements (sf_elem_size sfc) (set (sf_mem_blocks sfc))"
    using e zero_not_element by (auto simp: all_elements_def)
  then show "0 \<notin> set held" "0 \<notin> set (sf_stack sfc)" using sub by auto
qed

definition low_blocks :: "l_sfc \<Rightarrow> bool" where
  "low_blocks sfc \<longleftrightarrow> (\<forall>b \<in> set (sf_mem_blocks sfc). b + L_SFC_MEM_BLOCK_SIZE \<le> 2 ^ 31)"

lemma sorted_buff:
  assumes "pool_inv sfc held" and "low_blocks sfc" and "qsort_sorts qsort"
    and buff: "buff = qsort cmpptr (copy_to_sort_buff sfc n)"
  shows "sorted buff" and "distinct_nz buff" and "set buff \<subseteq> insert 0 (set (sf_stack sfc))"
proof -
  have d: "distinct (sf_stack sfc)" using assms(1) by (simp add: pool_inv_def)
  have "p < 2 ^ 31" if "p \<in> set (copy_to_sort_buff sfc n)" for p
  proof (cases "p = 0")
    case False
    then have "p \<in> set (sf_stack sfc)" using copied_buff(2) [OF d] that by blast
    then obtain b where b: "b \<in> set (sf_mem_blocks sfc)" "p \<in> elements (sf_elem_size sfc) b"
      using pool_invD(6) [OF assms(1)] unfolding all_elements_def by blast
    then have "p < b + L_SFC_MEM_BLOCK_SIZE" using elements_bounds(3) assms(1) by (auto simp: pool_inv_def)
    then show ?thesis using b(1) assms(2) by (auto simp: low_blocks_def)
  qed simp
  then have low: "\<forall>p \<in> set (copy_to_sort_buff sfc n). p < 2 ^ 31" by blast
  note q = qsort_ascending [OF assms(3) low, folded buff]
  show "sorted buff" by (rule q(1))
  show "distinct_nz buff" using copied_buff(1) [OF d] distinct_nz_perm [OF q(2)] by simp
  have "set buff = set (copy_to_sort_buff sfc n)" using q(2) by (metis set_mset_mset)
  then show "set buff \<subseteq> insert 0 (set (sf_stack sfc))" using copied_buff(2) [OF d] by simp
qed

lemma sort_stack_stack:
  "sf_stack (sort_stack sfc buff) = rev (filter (\<lambda>p. p \<noteq> 0) (take (sf_free_cnt sfc) buff))"
  using foldl_push [of "\<lambda>p. p" "[]"] by (simp add: sort_stack_def)

lemma sort_stack_inv:
  assumes "distinct_nz buff" and "set held \<inter> set buff - {0} = {}" and "distinct held"
    and "elem_ok (sf_elem_size sfc)" and "\<forall>b \<in> set (sf_mem_blocks sfc). block_ok b"
    and "set buff \<union> set held \<subseteq> insert 0 (all_elements (sf_elem_size sfc) (set (sf_mem_blocks sfc)))" and "0 \<notin> set held"
  shows "pool_inv (sort_stack sfc buff) held"
proof -
  let ?s = "sf_stack (sort_stack sfc buff)"
  have s: "set ?s \<subseteq> set buff - {0}" "distinct ?s"
    using distinct_nz_take [OF assms(1)] by (auto simp: sort_stack_stack distinct_nz_def dest: in_set_takeD)
  then have "distinct (?s @ held)" using assms(2,3) by auto
  moreover have "set (?s @ held) \<subseteq> all_elements (sf_elem_size sfc) (set (sf_mem_blocks sfc))"
    using s(1) assms(6,7) by auto
  ultimately show ?thesis using assms(4,5) by (auto simp: pool_inv_def all_elements_def sort_stack_def)
qed

text \<open>
  Compaction gives back only blocks all of whose elements were free, and keeps the invariant for the
  elements the clients hold.
\<close>

lemma compact_mem_spec:
  assumes inv: "pool_inv sfc held" and low: "low_blocks sfc" and q: "qsort_sorts qsort"
    and res: "compact_mem qsort sfc = (freed, sfc')"
  shows "pool_inv sfc' held" and "sf_elem_size sfc' = sf_elem_size sfc"
    and "set (sf_mem_blocks sfc') = set (sf_mem_blocks sfc) - set freed"
    and "\<forall>b \<in> set freed. elements (sf_elem_size sfc) b \<inter> set held = {}"
proof -
  let ?e = "sf_elem_size sfc" and ?bs = "set (sf_mem_blocks sfc)"
  note iv = pool_invD [OF inv]
  define buff where "buff = qsort cmpptr (copy_to_sort_buff sfc (sf_free_cnt sfc))"
  note sb = sorted_buff [OF inv low q buff_def]
  obtain buff' fb where sc: "scan_blocks ?e 0 buff [] = (buff', fb)" by (cases "scan_blocks ?e 0 buff []")
  have sub: "set buff \<subseteq> insert 0 (all_elements ?e ?bs)" using sb(3) iv(6) by blast
  have sp: "distinct_nz buff'" "set buff' \<subseteq> insert 0 (set (sf_stack sfc))"
    "\<And>b. b \<in> set fb \<Longrightarrow> b \<in> ?bs \<and> elements ?e b \<subseteq> set buff \<and> elements ?e b \<inter> set buff' = {}"
    using scan_blocks_spec [OF iv(1,2) _ sb(2) sub sc] sb(1,3) by auto
  have nh: "elements ?e b \<inter> set held = {}" if "b \<in> set fb" for b
    using sp(3) [OF that] sb(3) iv(5,7) by blast
  define bs' where "bs' = filter (\<lambda>b. b \<notin> set fb) (sf_mem_blocks sfc)"
  have keep: "set buff' \<union> set held \<subseteq> insert 0 (all_elements ?e (set bs'))"
  proof
    fix p assume p: "p \<in> set buff' \<union> set held"
    show "p \<in> insert 0 (all_elements ?e (set bs'))"
    proof (cases "p = 0")
      case False
      then have "p \<in> all_elements ?e ?bs" using p sp(2) iv(6) by blast
      then obtain b where b: "b \<in> ?bs" "p \<in> elements ?e b" by (auto simp: all_elements_def)
      then have "b \<notin> set fb" using p sp(3) nh by blast
      then show ?thesis using b by (auto simp: all_elements_def bs'_def)
    qed simp
  qed
  have disj: "set held \<inter> set buff' - {0} = {}" using sp(2) iv(5) by blast
  have ok': "\<forall>b \<in> set bs'. block_ok b" using iv(2) by (simp add: bs'_def)
  have fbs: "freed = filter (\<lambda>b. b \<in> set fb) (sf_mem_blocks sfc)"
    and cases: "\<exists>sfc1. sfc' = sort_stack sfc1 buff' \<and> sf_elem_size sfc1 = ?e \<and> sf_mem_blocks sfc1 = bs'"
    using res sc unfolding compact_mem_def buff_def [symmetric]
    by (auto simp: Let_def sort_stack_def bs'_def)
  then obtain sfc1 where sfc1: "sfc' = sort_stack sfc1 buff'" "sf_elem_size sfc1 = ?e" "sf_mem_blocks sfc1 = bs'" by blast
  show "pool_inv sfc' held"
    unfolding sfc1(1) using sort_stack_inv [OF sp(1) disj iv(4), of sfc1] sfc1(2,3) iv(1,7) ok' keep by simp
  show "sf_elem_size sfc' = ?e" using sfc1 by (simp add: sort_stack_def)
  show "set (sf_mem_blocks sfc') = ?bs - set freed" using sfc1 fbs by (auto simp: sort_stack_def bs'_def)
  show "\<forall>b \<in> set freed. elements ?e b \<inter> set held = {}" using nh fbs by simp
qed

lemma sfc_free_spec:
  assumes inv: "pool_inv sfc held" and p: "p \<in> set held" and low: "low_blocks sfc" and q: "qsort_sorts qsort"
  shows "pool_inv (sfc_free qsort sfc p) (remove1 p held)"
    and "sf_elem_size (sfc_free qsort sfc p) = sf_elem_size sfc"
    and "set (sf_mem_blocks (sfc_free qsort sfc p)) \<subseteq> set (sf_mem_blocks sfc)"
proof -
  define sfc1 where "sfc1 = sfc\<lparr>sf_stack := l_stack_push (sf_stack sfc) p, sf_free_cnt := sf_free_cnt sfc + 1,
                    sf_free_count := sf_free_count sfc + 1\<rparr>"
  note iv = pool_invD [OF inv]
  have inv1: "pool_inv sfc1 (remove1 p held)"
    using inv p iv(4,5) by (auto simp: pool_inv_def sfc1_def l_stack_push_def)
  have low1: "low_blocks sfc1" using low by (simp add: low_blocks_def sfc1_def)
  obtain freed sfc2 where c: "compact_mem qsort sfc1 = (freed, sfc2)" by (cases "compact_mem qsort sfc1")
  note cm = compact_mem_spec [OF inv1 low1 q c]
  have res: "sfc_free qsort sfc p = sfc1 \<or> sfc_free qsort sfc p = sfc2\<lparr>sf_free_count := 0\<rparr>"
    unfolding sfc_free_def Let_def sfc1_def [symmetric] using c by simp
  have "pool_inv (sfc2\<lparr>sf_free_count := 0\<rparr>) (remove1 p held)" using cm(1) by (simp add: pool_inv_def)
  then show "pool_inv (sfc_free qsort sfc p) (remove1 p held)" using res inv1 by auto
  have "sf_elem_size sfc1 = sf_elem_size sfc" "sf_mem_blocks sfc1 = sf_mem_blocks sfc" by (simp_all add: sfc1_def)
  then show "sf_elem_size (sfc_free qsort sfc p) = sf_elem_size sfc"
    and "set (sf_mem_blocks (sfc_free qsort sfc p)) \<subseteq> set (sf_mem_blocks sfc)"
    using res cm(2,3) by (elim disjE; simp)+
qed

lemma sfc_alloc_blocks: "set (sf_mem_blocks (snd (sfc_alloc sfc m))) \<subseteq> insert m (set (sf_mem_blocks sfc))"
  by (auto simp: sfc_alloc_def push_mem_block_def add_mem_block_def l_stack_pop_def Let_def split: list.splits prod.splits)

subsection \<open>The pools over a run of requests\<close>

text \<open>
  The steps of a thread's allocator: an allocation of a pooled size, with a block \<^verbatim>\<open>posix_memalign\<close>
  may return (aligned, not one the thread has, below 2 GB), and the release of a request that is held.
  A request is its size and address.
\<close>

definition fresh_block :: "l_sfp \<Rightarrow> nat \<Rightarrow> bool" where
  "fresh_block sfp m \<longleftrightarrow> block_ok m \<and> m + L_SFC_MEM_BLOCK_SIZE \<le> 2 ^ 31
     \<and> (\<forall>sfc \<in> set sfp. m \<notin> set (sf_mem_blocks sfc))"

inductive mem_run :: "qsort \<Rightarrow> l_sfp \<Rightarrow> (nat \<times> nat) list \<Rightarrow> bool" for qsort where
  run_init: "mem_run qsort l_mem_init []"
| run_alloc: "mem_run qsort sfp held \<Longrightarrow> sz \<le> 256 \<Longrightarrow> fresh_block sfp m
    \<Longrightarrow> l_alloc sfp sz malloc m = (Some p, sfp') \<Longrightarrow> mem_run qsort sfp' ((sz, p) # held)"
| run_free: "mem_run qsort sfp held \<Longrightarrow> (sz, p) \<in> set held
    \<Longrightarrow> mem_run qsort (l_free qsort sfp sz p) (remove1 (sz, p) held)"

definition held_in :: "nat \<Rightarrow> (nat \<times> nat) list \<Rightarrow> nat list" where
  "held_in i held = map snd (filter (\<lambda>(sz, p). chunk_class l_mem_init sz = i) held)"

definition sfp_inv :: "l_sfp \<Rightarrow> (nat \<times> nat) list \<Rightarrow> bool" where
  "sfp_inv sfp held \<longleftrightarrow> sized sfp \<and> (\<forall>i < 6. pool_inv (sfp ! i) (held_in i held) \<and> low_blocks (sfp ! i))
     \<and> (\<forall>i < 6. \<forall>j < 6. i \<noteq> j \<longrightarrow> set (sf_mem_blocks (sfp ! i)) \<inter> set (sf_mem_blocks (sfp ! j)) = {})
     \<and> (\<forall>(sz, p) \<in> set held. sz \<le> 256)"

lemma sized_init: "sized l_mem_init"
  by (simp add: sized_def l_mem_init_def upt_rec)

lemma find_chunk_sized:
  assumes "sized sfp" and "sized sfp'" and "i < 6"
  shows "find_chunk sfp sz i = find_chunk sfp' sz i"
  using assms(3)
proof (induction i)
  case (Suc i)
  have "map sf_elem_size sfp = map sf_elem_size sfp'" using assms(1,2) by (simp add: sized_def)
  then have "sf_elem_size (sfp ! Suc i) = sf_elem_size (sfp' ! Suc i)"
    using Suc.prems sized_nth(1) [OF assms(1)] sized_nth(1) [OF assms(2)] by (metis nth_map)
  then show ?case using Suc by simp
qed simp

lemma chunk_class_sized: "sized sfp \<Longrightarrow> chunk_class sfp sz = chunk_class l_mem_init sz"
  unfolding chunk_class_def by (rule find_chunk_sized [OF _ sized_init]) simp_all

lemma sized_update: "sized sfp \<Longrightarrow> sf_elem_size sfc = sf_elem_size (sfp ! i) \<Longrightarrow> sized (sfp[i := sfc])"
  unfolding sized_def by (metis list_update_id map_update)

lemma elem_sizes_ok:
  assumes "sized sfp" and "i < 6"
  shows "elem_ok (sf_elem_size (sfp ! i))"
proof -
  have "i = 0 \<or> i = 1 \<or> i = 2 \<or> i = 3 \<or> i = 4 \<or> i = 5" using assms(2) by linarith
  then show ?thesis using sized_nth [OF assms(1)] by (auto simp: elem_ok_def L_SFC_MEM_BLOCK_SIZE_def)
qed

lemma sfp_inv_init: "sfp_inv l_mem_init []"
proof -
  have "sf_stack (l_mem_init ! i) = []" "sf_mem_blocks (l_mem_init ! i) = []" if "i < 6" for i
    using that by (simp_all add: l_mem_init_def)
  then show ?thesis
    using sized_init elem_sizes_ok [OF sized_init]
    by (auto simp: sfp_inv_def pool_inv_def low_blocks_def held_in_def)
qed

lemma sfp_inv_update:
  assumes inv: "sfp_inv sfp held" and i: "i < 6" and e: "sf_elem_size sfc = sf_elem_size (sfp ! i)"
    and p: "pool_inv sfc (held_in i held')" and others: "\<And>j. j \<noteq> i \<Longrightarrow> held_in j held' = held_in j held"
    and blocks: "set (sf_mem_blocks sfc) \<subseteq> set (sf_mem_blocks (sfp ! i)) \<union> new"
    and new: "\<And>m. m \<in> new \<Longrightarrow> fresh_block sfp m" and small: "\<forall>(sz, p) \<in> set held'. sz \<le> 256"
  shows "sfp_inv (sfp[i := sfc]) held'"
proof -
  have len: "length sfp = 6" using inv sized_nth(1) by (simp add: sfp_inv_def)
  have sz: "sized (sfp[i := sfc])" using inv e by (simp add: sfp_inv_def sized_update)
  have low: "low_blocks sfc" using inv i blocks new by (auto simp: sfp_inv_def low_blocks_def fresh_block_def)
  have fr: "m \<notin> set (sf_mem_blocks (sfp ! j))" if "m \<in> new" "j < 6" for m j
    using new [OF that(1)] that(2) len by (simp add: fresh_block_def)
  have dj: "set (sf_mem_blocks sfc) \<inter> set (sf_mem_blocks (sfp ! j)) = {}" if "j < 6" "j \<noteq> i" for j
    using blocks fr [OF _ that(1)] inv i that by (auto simp: sfp_inv_def; blast)
  show ?thesis
    unfolding sfp_inv_def using inv i sz p others low dj len small
    by (auto simp: nth_list_update sfp_inv_def)
qed

lemma held_in_cons:
  "held_in i ((sz, p) # held) = (if chunk_class l_mem_init sz = i then p # held_in i held else held_in i held)"
  by (simp add: held_in_def)

lemma held_in_remove:
  "(sz, p) \<in> set held \<Longrightarrow> distinct (held_in (chunk_class l_mem_init sz) held) \<Longrightarrow>
   held_in i (remove1 (sz, p) held)
   = (if i = chunk_class l_mem_init sz then remove1 p (held_in i held) else held_in i held)"
  by (induction held) (auto simp: held_in_def image_iff)

lemma sfp_inv_alloc:
  assumes inv: "sfp_inv sfp held" and sz: "sz \<le> 256" and m: "fresh_block sfp m"
  shows "\<exists>p sfp'. l_alloc sfp sz malloc m = (Some p, sfp') \<and> sfp_inv sfp' ((sz, p) # held)"
proof -
  define i where "i = chunk_class sfp sz"
  have s: "sized sfp" using inv by (simp add: sfp_inv_def)
  have i: "i < 6" "chunk_class l_mem_init sz = i"
    using chunk_class_fits [OF s sz] chunk_class_sized [OF s] by (simp_all add: i_def)
  have pi: "pool_inv (sfp ! i) (held_in i held)" using inv i(1) by (simp add: sfp_inv_def)
  have b: "block_ok m" "m \<notin> set (sf_mem_blocks (sfp ! i))"
    using m i(1) sized_nth(1) [OF s] by (simp_all add: fresh_block_def)
  obtain p sfc' where a: "sfc_alloc (sfp ! i) m = (Some p, sfc')" "pool_inv sfc' (p # held_in i held)"
      "sf_elem_size sfc' = sf_elem_size (sfp ! i)"
    using sfc_alloc_spec [OF pi b] by (elim exE conjE) (rule that)
  have "sfp_inv (sfp[i := sfc']) ((sz, p) # held)"
  proof (rule sfp_inv_update [OF inv i(1) a(3), where new = "{m}"])
    show "pool_inv sfc' (held_in i ((sz, p) # held))" using a(2) i(2) by (simp add: held_in_cons)
    show "set (sf_mem_blocks sfc') \<subseteq> set (sf_mem_blocks (sfp ! i)) \<union> {m}"
      using sfc_alloc_blocks [of "sfp ! i" m] a(1) by simp
    show "\<forall>(sz, p) \<in> set ((sz, p) # held). sz \<le> 256" using inv sz by (simp add: sfp_inv_def)
  qed (use i(2) m in \<open>simp_all add: held_in_cons\<close>)
  moreover have "l_alloc sfp sz malloc m = (Some p, sfp[i := sfc'])"
    using sz a(1) by (simp add: l_alloc_def i_def [symmetric])
  ultimately show ?thesis by blast
qed

lemma sfp_inv_free:
  assumes inv: "sfp_inv sfp held" and h: "(sz, p) \<in> set held" and q: "qsort_sorts qsort"
  shows "sfp_inv (l_free qsort sfp sz p) (remove1 (sz, p) held)"
proof -
  have sz: "sz \<le> 256" using inv h by (auto simp: sfp_inv_def)
  define i where "i = chunk_class sfp sz"
  have s: "sized sfp" using inv by (simp add: sfp_inv_def)
  have i: "i < 6" "chunk_class l_mem_init sz = i"
    using chunk_class_fits [OF s sz] chunk_class_sized [OF s] by (simp_all add: i_def)
  have pi: "pool_inv (sfp ! i) (held_in i held)" "low_blocks (sfp ! i)" using inv i(1) by (simp_all add: sfp_inv_def)
  have p: "p \<in> set (held_in i held)" using h i(2) by (force simp: held_in_def)
  note f = sfc_free_spec [OF pi(1) p pi(2) q]
  note rm = held_in_remove [OF h, unfolded i(2), OF pool_invD(4) [OF pi(1)]]
  have "sfp_inv (sfp[i := sfc_free qsort (sfp ! i) p]) (remove1 (sz, p) held)"
  proof (rule sfp_inv_update [OF inv i(1) f(2), where new = "{}"])
    show "pool_inv (sfc_free qsort (sfp ! i) p) (held_in i (remove1 (sz, p) held))" using f(1) rm by simp
    show "\<forall>(sz, p) \<in> set (remove1 (sz, p) held). sz \<le> 256"
      using inv notin_set_remove1 by (fastforce simp: sfp_inv_def)
  qed (use f(3) rm in auto)
  then show ?thesis using sz by (simp add: l_free_def i_def [symmetric] Let_def)
qed

lemma mem_run_inv:
  assumes "mem_run qsort sfp held" and "qsort_sorts qsort"
  shows "sfp_inv sfp held"
  using assms(1)
proof (induction rule: mem_run.induct)
  case (run_alloc sfp held sz m malloc p sfp')
  then show ?case using sfp_inv_alloc [of sfp held sz m malloc] by auto
qed (simp_all add: sfp_inv_init sfp_inv_free assms(2))

lemma held_region:
  assumes inv: "sfp_inv sfp held" and h: "(sz, p) \<in> set held" and i: "chunk_class l_mem_init sz = i"
  obtains b where "i < 6" and "p \<in> set (held_in i held)" and "sz \<le> sf_elem_size (sfp ! i)" and "sf_elem_size (sfp ! i) dvd p"
    and "b \<in> set (sf_mem_blocks (sfp ! i))" and "L_SFC_MEM_BLOCK_SIZE dvd b" and "b \<le> p" and "p + sz \<le> b + L_SFC_MEM_BLOCK_SIZE"
proof -
  have s: "sized sfp" and sz: "sz \<le> 256" using inv h by (auto simp: sfp_inv_def)
  have c: "i < 6" "sz \<le> sf_elem_size (sfp ! i)" using chunk_class_fits [OF s sz] chunk_class_sized [OF s] i by simp_all
  let ?e = "sf_elem_size (sfp ! i)"
  have pi: "pool_inv (sfp ! i) (held_in i held)" using inv c(1) by (simp add: sfp_inv_def)
  have p: "p \<in> set (held_in i held)" using h i by (force simp: held_in_def)
  note iv = pool_invD [OF pi]
  obtain b where b: "b \<in> set (sf_mem_blocks (sfp ! i))" "p \<in> elements ?e b"
    using iv(6) p unfolding all_elements_def by blast
  have bok: "block_ok b" using iv(2) b(1) by blast
  note eb = elements_bounds [OF iv(1) bok b(2)]
  have "?e dvd b + L_SFC_MEM_BLOCK_SIZE"
    using iv(1) bok by (auto simp: elem_ok_def block_ok_def intro: dvd_add dvd_trans)
  then have "?e dvd b + L_SFC_MEM_BLOCK_SIZE - p" using eb(1) by (simp add: dvd_diff_nat)
  then have "?e \<le> b + L_SFC_MEM_BLOCK_SIZE - p" using eb(3) by (intro dvd_imp_le) simp_all
  then have "p + sz \<le> b + L_SFC_MEM_BLOCK_SIZE" using c(2) eb(3) by simp
  then show ?thesis using that [OF c(1) p c(2) eb(1) b(1) _ eb(2)] bok by (simp add: block_ok_def)
qed

lemma held_disjoint:
  assumes inv: "sfp_inv sfp held" and h: "(s, p) \<in> set held" and k: "(t, q) \<in> set held"
    and ne: "chunk_class l_mem_init s = chunk_class l_mem_init t \<Longrightarrow> p \<noteq> q"
  shows "{p ..< p + s} \<inter> {q ..< q + t} = {}"
proof -
  define i j where "i = chunk_class l_mem_init s" and "j = chunk_class l_mem_init t"
  let ?B = L_SFC_MEM_BLOCK_SIZE
  obtain b where b: "i < 6" "s \<le> sf_elem_size (sfp ! i)" "sf_elem_size (sfp ! i) dvd p"
      "b \<in> set (sf_mem_blocks (sfp ! i))" "?B dvd b" "b \<le> p" "p + s \<le> b + ?B"
    using held_region [OF inv h i_def [symmetric]] by blast
  obtain c where c: "j < 6" "t \<le> sf_elem_size (sfp ! j)" "sf_elem_size (sfp ! j) dvd q"
      "c \<in> set (sf_mem_blocks (sfp ! j))" "?B dvd c" "c \<le> q" "q + t \<le> c + ?B"
    using held_region [OF inv k j_def [symmetric]] by blast
  show ?thesis
  proof (cases "i = j")
    case True
    then have "p \<noteq> q" using ne by (simp add: i_def j_def)
    from multiples_disjoint [OF b(3) _ this] c(3) True
    have d: "{p ..< p + sf_elem_size (sfp ! i)} \<inter> {q ..< q + sf_elem_size (sfp ! i)} = {}" by simp
    have "{p ..< p + s} \<subseteq> {p ..< p + sf_elem_size (sfp ! i)}" "{q ..< q + t} \<subseteq> {q ..< q + sf_elem_size (sfp ! i)}"
      using b(2) c(2) True by auto
    with d show ?thesis by blast
  next
    case False
    have "b \<noteq> c" using inv False b(1,4) c(1,4) by (auto simp: sfp_inv_def)
    from multiples_disjoint [OF b(5) c(5) this] have d: "{b ..< b + ?B} \<inter> {c ..< c + ?B} = {}" .
    have "{p ..< p + s} \<subseteq> {b ..< b + ?B}" "{q ..< q + t} \<subseteq> {c ..< c + ?B}" using b(6,7) c(6,7) by auto
    with d show ?thesis by blast
  qed
qed

lemma distinct_held_in:
  assumes "sfp_inv sfp held" and "k < l" and "l < length held" and "held ! k = (s, p)" and "held ! l = (t, q)"
    and "chunk_class l_mem_init s = chunk_class l_mem_init t"
  shows "p \<noteq> q"
proof -
  let ?i = "chunk_class l_mem_init s"
  have "(s, p) \<in> set held" using assms(2-4) by (metis dual_order.strict_trans nth_mem)
  then have "?i < 6" using held_region [OF assms(1) _ refl] by blast
  then have "pool_inv (sfp ! ?i) (held_in ?i held)" using assms(1) by (simp add: sfp_inv_def)
  then have d: "distinct (held_in ?i held)" by (rule pool_invD)
  have sp: "held = take l held @ (t, q) # drop (Suc l) held" using assms(3,5) by (metis id_take_nth_drop)
  have "(s, p) \<in> set (take l held)" using assms(2-4) by (metis in_set_conv_nth length_take min.absorb4 nth_take)
  then have "p \<in> set (held_in ?i (take l held))" by (force simp: held_in_def)
  moreover have "held_in ?i held = held_in ?i (take l held) @ q # held_in ?i (drop (Suc l) held)"
    using sp assms(6) by (metis (mono_tags, lifting) held_in_cons held_in_def filter_append map_append)
  ultimately show ?thesis using d by auto
qed


text \<open>Insertion sort is one \<^verbatim>\<open>qsort\<close>.\<close>

fun insort_cmp :: "(nat \<Rightarrow> nat \<Rightarrow> int) \<Rightarrow> nat \<Rightarrow> nat list \<Rightarrow> nat list" where
  "insort_cmp cmp x [] = [x]"
| "insort_cmp cmp x (y # ys) = (if cmp x y \<le> 0 then x # y # ys else y # insort_cmp cmp x ys)"

definition isort :: qsort where
  "isort cmp xs = foldr (insort_cmp cmp) xs []"

lemma insort_cmp_mset: "mset (insort_cmp cmp x ys) = add_mset x (mset ys)"
  by (induction ys) auto

lemma isort_mset: "mset (isort cmp xs) = mset xs"
  by (induction xs) (simp_all add: isort_def insort_cmp_mset)

lemma insort_cmp_sorted:
  assumes "orders cmp X" and "insert x (set ys) \<subseteq> X" and "sorted_wrt (\<lambda>a b. cmp a b \<le> 0) ys"
  shows "sorted_wrt (\<lambda>a b. cmp a b \<le> 0) (insort_cmp cmp x ys)"
  using assms(2,3)
proof (induction ys)
  case (Cons y ys)
  have set: "set (insort_cmp cmp x ys) = insert x (set ys)" using insort_cmp_mset [of cmp x ys] by (metis set_mset_add_mset_insert set_mset_mset)
  have tot: "cmp x y \<le> 0 \<or> cmp y x \<le> 0" using assms(1) Cons.prems(1) unfolding orders_def by auto
  have tr: "cmp x z \<le> 0" if "cmp x y \<le> 0" "z \<in> set ys" for z
  proof -
    have "cmp y z \<le> 0" using Cons.prems(2) that(2) by simp
    with that Cons.prems(1) assms(1) show ?thesis unfolding orders_def by (meson insert_subset list.set_intros(1) list.set_intros(2) subsetD)
  qed
  show ?case using Cons set tot tr by auto
qed simp

lemma isort_sorts: "qsort_sorts isort"
proof -
  have "sorted_wrt (\<lambda>a b. cmp a b \<le> 0) (isort cmp xs)" if "orders cmp X" "set xs \<subseteq> X" for cmp xs X
    using that(2)
  proof (induction xs)
    case (Cons x xs)
    have "set (isort cmp xs) = set xs" by (metis isort_mset set_mset_mset)
    then have "insert x (set (isort cmp xs)) \<subseteq> X" using Cons.prems by simp
    from insort_cmp_sorted [OF that(1) this] Cons show ?case by (simp add: isort_def)
  qed (simp add: isort_def)
  then show ?thesis by (simp add: qsort_sorts_def isort_mset)
qed

lemma two_requests: "\<exists>sfp p q. mem_run isort sfp [(100, p), (8, q)]"
proof -
  let ?B = L_SFC_MEM_BLOCK_SIZE
  have fr: "fresh_block l_mem_init ?B"
    by (auto simp: fresh_block_def block_ok_def L_SFC_MEM_BLOCK_SIZE_def l_mem_init_def)
  obtain q sfp where a: "l_alloc l_mem_init 8 0 ?B = (Some q, sfp)" "sfp_inv sfp [(8, q)]"
    using sfp_inv_alloc [OF sfp_inv_init, of 8 ?B 0] fr by auto
  have run: "mem_run isort sfp [(8, q)]" using mem_run.run_alloc [OF mem_run.run_init _ fr a(1)] by simp
  have "fresh_block sfp (2 * ?B)"
  proof -
    have "set (sf_mem_blocks sfc) \<subseteq> {?B}" if "sfc \<in> set sfp" for sfc
    proof -
      have sfp: "sfp = l_mem_init[0 := snd (sfc_alloc (l_mem_init ! 0) ?B)]"
        using a(1) by (auto simp: l_alloc_def Let_def chunk_class_def find_chunk_numeral find_chunk_one
            l_mem_init_def numeral_eq_Suc split: prod.splits)
      have "sfc = snd (sfc_alloc (l_mem_init ! 0) ?B) \<or> sfc \<in> set l_mem_init"
        using that set_update_subset_insert [of l_mem_init 0] unfolding sfp by blast
      then show ?thesis
        using sfc_alloc_blocks [of "l_mem_init ! 0" ?B] by (auto simp: l_mem_init_def)
    qed
    then show ?thesis by (force simp: fresh_block_def block_ok_def L_SFC_MEM_BLOCK_SIZE_def)
  qed
  note fr2 = this
  obtain p sfp' where b: "l_alloc sfp 100 0 (2 * ?B) = (Some p, sfp')"
    using sfp_inv_alloc [OF a(2) _ fr2, of 100 0] by auto
  show ?thesis using mem_run.run_alloc [OF run _ fr2 b] by auto
qed


subsection \<open>Above 2 GB compaction frees live memory\<close>

lemma of_nat_word32_mod: "(of_nat (a mod 2 ^ 32) :: 32 word) = of_nat a"
proof -
  have "unat (of_nat (a mod 2 ^ 32) :: 32 word) = unat (of_nat a :: 32 word)" by (simp add: unat_of_nat)
  then show ?thesis by (simp only: word_unat_eq_iff)
qed

lemma cmpptr_low_bits:
  assumes "a mod 2 ^ 32 < 2 ^ 31" and "b mod 2 ^ 32 < 2 ^ 31"
  shows "cmpptr a b = int (a mod 2 ^ 32) - int (b mod 2 ^ 32)"
proof -
  have "(of_int (int a - int b) :: 32 word) = of_nat a - of_nat b" by simp
  also have "\<dots> = of_nat (a mod 2 ^ 32) - of_nat (b mod 2 ^ 32)" by (simp only: of_nat_word32_mod)
  also have "\<dots> = of_int (int (a mod 2 ^ 32) - int (b mod 2 ^ 32))" by simp
  finally have "cmpptr a b = cmpptr (a mod 2 ^ 32) (b mod 2 ^ 32)" by (simp only: cmpptr_def)
  then show ?thesis using cmpptr_exact [OF assms] by simp
qed

lemma qsort_low_bits:
  assumes "qsort_sorts qsort" and "sorted (map (\<lambda>p. p mod 2 ^ 32) xs)" and "distinct (map (\<lambda>p. p mod 2 ^ 32) xs)"
    and low: "\<forall>x \<in> set xs. x mod 2 ^ 32 < 2 ^ 31"
  shows "qsort cmpptr xs = xs"
proof -
  let ?k = "\<lambda>p :: nat. p mod 2 ^ 32"
  let ?ys = "qsort cmpptr xs"
  have m: "mset ?ys = mset xs" using assms(1) by (simp add: qsort_sorts_def)
  then have set: "set ?ys = set xs" by (metis set_mset_mset)
  have ex: "cmpptr a b \<le> 0 \<longleftrightarrow> ?k a \<le> ?k b" if "a \<in> set xs" "b \<in> set xs" for a b
    using cmpptr_low_bits [of a b] low that by auto
  have "orders cmpptr (set xs)" by (auto simp: orders_def ex)
  then have "sorted_wrt (\<lambda>a b. cmpptr a b \<le> 0) ?ys" using assms(1) by (simp add: qsort_sorts_def)
  then have "sorted_wrt (\<lambda>a b. ?k a \<le> ?k b) ?ys"
    using sorted_wrt_mono_rel [of ?ys "\<lambda>a b. cmpptr a b \<le> 0" "\<lambda>a b. ?k a \<le> ?k b"] ex set by blast
  then have "sorted (map ?k ?ys)" by (simp add: sorted_wrt_map)
  moreover have "distinct (map ?k ?ys)" using assms(3) m by (metis mset_map mset_eq_imp_distinct_iff)
  moreover have "inj_on ?k (set ?ys \<union> set xs)" using assms(3) set by (simp add: distinct_map)
  ultimately show ?thesis using assms(2,3) set by (intro map_sorted_distinct_set_unique [of ?k]) simp_all
qed

text \<open>A block with one held element, its place in the order taken by an element 4 GB above.\<close>

definition middle :: "nat list" where
  "middle = [2..<1024]"

lemma middle_props:
  "set middle = {2..<1024}" "length middle = 1022" "distinct middle" "sorted middle"
  "i < 1022 \<Longrightarrow> middle ! i = 2 + i"
  unfolding middle_def by (simp_all only: set_upt length_upt distinct_upt sorted_upt nth_upt)

definition wrapped_buff :: "nat list" where
  "wrapped_buff = 262144 # (262144 + 256 + 2 ^ 32) # map (\<lambda>j. 262144 + 256 * j) middle @ [2 * 262144]"

definition wrapped_chunk :: l_sfc where
  "wrapped_chunk = \<lparr>sf_stack = wrapped_buff, sf_mem_blocks = [262144, 262144 + 2 ^ 32, 2 * 262144],
     sf_elem_size = 256, sf_alloc_cnt = 3072, sf_free_cnt = 1025, sf_free_count = 0\<rparr>"

lemma wrapped_keys:
  "map (\<lambda>p. p mod 2 ^ 32) wrapped_buff = 262144 # (262144 + 256) # map (\<lambda>j. 262144 + 256 * j) middle @ [2 * 262144]"
  by (auto simp: wrapped_buff_def middle_props)

lemma wrapped_length: "length wrapped_buff = 1025"
  by (simp add: wrapped_buff_def middle_props)

lemma wrapped_scan: "snd (scan_blocks 256 0 wrapped_buff []) = [262144]"
proof -
  have n: "block_elems 256 = 1024" by (simp add: block_elems_def L_SFC_MEM_BLOCK_SIZE_def)
  have "wrapped_buff ! 0 = 262144" "wrapped_buff ! 1023 = 262144 + 256 * 1023"
    by (simp_all add: wrapped_buff_def nth_append middle_props)
  then show ?thesis
    by (simp add: scan_blocks.simps [of 256 0] scan_blocks.simps [of 256 1024] n wrapped_length L_SFC_MEM_BLOCK_SIZE_def)
qed

lemma wrapped_inv: "pool_inv wrapped_chunk [262144 + 256]"
proof -
  have el: "b + 256 * j \<in> elements 256 b" if "j < 1024" for b j
    using that by (auto simp: elements_def block_elems_def L_SFC_MEM_BLOCK_SIZE_def mult.commute)
  have "p \<in> elements 256 262144 \<union> elements 256 (262144 + 2 ^ 32) \<union> elements 256 (2 * 262144)"
    if "p \<in> set wrapped_buff \<union> {262144 + 256}" for p
    using that el [of 0 262144] el [of 1 262144] el [of 1 "262144 + 2 ^ 32"] el [of 0 "2 * 262144"] el [of _ 262144]
    by (auto simp: wrapped_buff_def middle_props)
  moreover have "distinct (wrapped_buff @ [262144 + 256])"
    by (auto simp: wrapped_buff_def distinct_map inj_on_def middle_props)
  moreover have "elem_ok 256" "block_ok 262144" "block_ok (262144 + 2 ^ 32)" "block_ok (2 * 262144)"
    by (simp_all add: elem_ok_def block_ok_def L_SFC_MEM_BLOCK_SIZE_def dvd_def)
  ultimately show ?thesis by (auto simp: pool_inv_def wrapped_chunk_def)
qed



end
