(* ===== verification/QueryCache.thy ===== *)
theory QueryCache
  imports Complex_Main Prelude
begin

section \<open>The query cache\<close>

text \<open>
  The cache of \<^verbatim>\<open>src/fundadb_hash.c\<close>: \<open>size\<close> partitions, each a hash table from keys to entries, an
  array of all its entries, and the position of the purge. A value whose key is replaced or removed
  stays in the array, its expiration set to \<open>EXPIRE_DROPIT\<close>, until the purge finds it unused.

  Entries have addresses: \<open>ht_hash\<close> and \<open>ht_array\<close> hold addresses and \<open>ht_heap\<close> maps the addresses of the
  allocated entries of the partition to their contents, so \<open>None\<close> is a use after free and every
  operation is \<open>None\<close> if it performs one. The address of a new entry is an argument of \<open>fdb_set\<close>.

  \<^verbatim>\<open>fdb_get\<close> holds the lock only while it looks up the entry and counts its reference; the rest of it is
  a second step, \<open>fdb_get_end\<close>, and other threads may run in between. The steps under the write lock are
  atomic. The theory shows that no interleaving uses freed memory, that the memory counters are exact,
  and that the cache refines a map from keys to values with an expiration time.
\<close>

record fdb_hash_entry =
  he_key :: cstr
  he_value :: "byte list"
  he_klen :: nat
  he_length :: nat
  he_expire :: int
  he_access :: int
  he_ref_count :: int

record fdb_hash =
  ht_hash :: "(cstr \<times> nat) list"
  ht_array :: "nat list"
  ht_heap :: "nat \<Rightarrow> fdb_hash_entry option"
  ht_purgeChunkSize :: int
  ht_purgeIdx :: nat

record fdb_hashes_group =
  hg_fdb_hashes :: "fdb_hash list"
  hg_size :: nat
  hg_now :: int
  hg_hash_expire_default :: nat
  hg_max_memory_size :: int
  hg_cntDel :: "64 word"
  hg_cntGet :: "64 word"
  hg_cntGetOK :: "64 word"
  hg_cntSet :: "64 word"
  hg_cntSetERR :: "64 word"
  hg_cntPurge :: "64 word"
  hg_size_keys :: "64 word"
  hg_size_values :: "64 word"
  hg_size_metas :: "64 word"
  hg_dataIN :: "64 word"
  hg_dataOUT :: "64 word"

record fdb_system_var =
  sv_hash_purge_time :: int
  sv_hash_purge_loop :: int
  sv_hash_expire_max :: nat
  sv_purge_threshold_pct_min :: int

definition EXPIRE_DROPIT :: int where
  "EXPIRE_DROPIT = 0"

text \<open>\<^verbatim>\<open>sizeof(fdb_hash_entry)+sizeof(fdb_hash_entry *)\<close> on a 64-bit machine.\<close>

definition entry_meta :: nat where
  "entry_meta = 72"

subsection \<open>Operations\<close>

definition new_partition :: fdb_hash where
  "new_partition = \<lparr>ht_hash = [], ht_array = [], ht_heap = Map.empty, ht_purgeChunkSize = 0, ht_purgeIdx = 0\<rparr>"

text \<open>\<^verbatim>\<open>cntPurge\<close> is the only counter that is not set; the group is a global variable, so it is zero.\<close>

definition fdb_hashes_new :: "nat \<Rightarrow> nat \<Rightarrow> int \<Rightarrow> int \<Rightarrow> fdb_hashes_group" where
  "fdb_hashes_new sz expire_default max_memory time =
     \<lparr>hg_fdb_hashes = replicate sz new_partition, hg_size = sz, hg_now = time,
      hg_hash_expire_default = expire_default, hg_max_memory_size = max_memory,
      hg_cntDel = 0, hg_cntGet = 0, hg_cntGetOK = 0, hg_cntSet = 0, hg_cntSetERR = 0, hg_cntPurge = 0,
      hg_size_keys = 0, hg_size_values = 0, hg_size_metas = 0, hg_dataIN = 0, hg_dataOUT = 0\<rparr>"

text \<open>The character at a position of a C string: its terminating zero behind the end.\<close>

definition char_at :: "cstr \<Rightarrow> nat \<Rightarrow> byte" where
  "char_at s i = (if i < length s then s ! i else 0)"

text \<open>The partition of a key: the sum of its first characters in an \<^verbatim>\<open>unsigned char\<close>.\<close>

definition key_partition :: "cstr \<Rightarrow> nat \<Rightarrow> nat \<Rightarrow> nat" where
  "key_partition kp kl sz =
     (let i = char_at kp 0;
          i = (if kl > 2 then i + char_at kp 1 + char_at kp 2 else i)
      in unat i mod sz)"

definition hash_value_destroy_func :: "nat \<Rightarrow> fdb_hash \<Rightarrow> fdb_hash option" where
  "hash_value_destroy_func a p =
     do { e \<leftarrow> ht_heap p a; Some (p\<lparr>ht_heap := (ht_heap p)(a \<mapsto> e\<lparr>he_expire := EXPIRE_DROPIT\<rparr>)\<rparr>) }"

text \<open>
  The hash table of glib, as the list of its associations: removing or replacing a key calls the
  destroy function on the value that leaves the table.
\<close>

definition hash_remove :: "cstr \<Rightarrow> fdb_hash \<Rightarrow> fdb_hash option" where
  "hash_remove k p =
     (case map_of (ht_hash p) k of
        None \<Rightarrow> Some p
      | Some a \<Rightarrow> hash_value_destroy_func a (p\<lparr>ht_hash := filter (\<lambda>(k', _). k' \<noteq> k) (ht_hash p)\<rparr>))"

definition hash_replace :: "cstr \<Rightarrow> nat \<Rightarrow> fdb_hash \<Rightarrow> fdb_hash option" where
  "hash_replace k a p = do { p \<leftarrow> hash_remove k p; Some (p\<lparr>ht_hash := (k, a) # ht_hash p\<rparr>) }"

definition with_partition :: "nat \<Rightarrow> (fdb_hash \<Rightarrow> fdb_hash option) \<Rightarrow> fdb_hashes_group \<Rightarrow> fdb_hashes_group option" where
  "with_partition i f hg =
     (if i < length (hg_fdb_hashes hg)
      then do { p \<leftarrow> f (hg_fdb_hashes hg ! i); Some (hg\<lparr>hg_fdb_hashes := (hg_fdb_hashes hg)[i := p]\<rparr>) }
      else None)"

text \<open>The entry of \<^verbatim>\<open>fdb_set\<close>. It owns its key and value in both cases of \<^verbatim>\<open>copy\<close>.\<close>

definition new_entry :: "fdb_system_var \<Rightarrow> fdb_hashes_group \<Rightarrow> cstr \<Rightarrow> nat \<Rightarrow> byte list \<Rightarrow> int \<Rightarrow> fdb_hash_entry" where
  "new_entry sv hg kp kl vp expire =
     \<lparr>he_key = kp, he_value = vp, he_klen = kl, he_length = length vp,
      he_expire = (if expire > 0
                   then if expire > int (sv_hash_expire_max sv) then expire else hg_now hg + expire
                   else hg_now hg + int (hg_hash_expire_default hg)),
      he_access = hg_now hg, he_ref_count = 0\<rparr>"

definition insert_entry :: "nat \<Rightarrow> fdb_hash_entry \<Rightarrow> fdb_hash \<Rightarrow> fdb_hash option" where
  "insert_entry a e p =
     hash_replace (he_key e) a (p\<lparr>ht_heap := (ht_heap p)(a \<mapsto> e), ht_array := ht_array p @ [a]\<rparr>)"

definition fdb_set ::
  "fdb_system_var \<Rightarrow> nat \<Rightarrow> cstr \<Rightarrow> nat \<Rightarrow> byte list \<Rightarrow> int \<Rightarrow> fdb_hashes_group \<Rightarrow> fdb_hashes_group option" where
  "fdb_set sv a kp kl vp expire hg =
     do {
       hg \<leftarrow> with_partition (key_partition kp kl (hg_size hg)) (insert_entry a (new_entry sv hg kp kl vp expire)) hg;
       Some (hg\<lparr>hg_cntSet := hg_cntSet hg + 1, hg_size_keys := hg_size_keys hg + of_nat kl,
                hg_size_values := hg_size_values hg + of_nat (length vp), hg_dataIN := hg_dataIN hg + of_nat (length vp),
                hg_size_metas := hg_size_metas hg + of_nat entry_meta\<rparr>)
     }"

definition entry_update :: "nat \<Rightarrow> (fdb_hash_entry \<Rightarrow> fdb_hash_entry) \<Rightarrow> fdb_hash \<Rightarrow> fdb_hash option" where
  "entry_update a f p = do { e \<leftarrow> ht_heap p a; Some (p\<lparr>ht_heap := (ht_heap p)(a \<mapsto> f e)\<rparr>) }"

text \<open>\<^verbatim>\<open>fdb_get\<close> up to the unlock: the partition and address of the entry, its references counted.\<close>

definition fdb_get_begin :: "cstr \<Rightarrow> fdb_hashes_group \<Rightarrow> ((nat \<times> nat) option \<times> fdb_hashes_group) option" where
  "fdb_get_begin kp hg =
     (let i = key_partition kp (length kp) (hg_size hg)
      in if i < length (hg_fdb_hashes hg)
         then case map_of (ht_hash (hg_fdb_hashes hg ! i)) kp of
                None \<Rightarrow> Some (None, hg)
              | Some a \<Rightarrow>
                  do {
                    hg \<leftarrow> with_partition i (entry_update a (\<lambda>e. e\<lparr>he_ref_count := he_ref_count e + 1\<rparr>)) hg;
                    Some (Some (i, a), hg)
                  }
         else None)"

definition fdb_get_entry :: "nat \<times> nat \<Rightarrow> fdb_hashes_group \<Rightarrow> (byte list option \<times> fdb_hashes_group) option" where
  "fdb_get_entry = (\<lambda>(i, a) hg.
     do {
       e \<leftarrow> (if i < length (hg_fdb_hashes hg) then ht_heap (hg_fdb_hashes hg ! i) a else None);
       if he_expire e > hg_now hg
       then do {
              data \<leftarrow> mem_read (he_value e) 0 (he_length e);
              hg \<leftarrow> with_partition i (entry_update a (\<lambda>e. if hg_now hg > he_access e then e\<lparr>he_access := hg_now hg\<rparr> else e)) hg;
              Some (Some data, hg\<lparr>hg_cntGetOK := hg_cntGetOK hg + 1, hg_dataOUT := hg_dataOUT hg + of_nat (length data)\<rparr>)
            }
       else Some (None, hg)
     })"

definition fdb_get_end :: "(nat \<times> nat) option \<Rightarrow> fdb_hashes_group \<Rightarrow> (byte list option \<times> fdb_hashes_group) option" where
  "fdb_get_end h hg =
     (case h of
        None \<Rightarrow> Some (None, hg\<lparr>hg_cntGet := hg_cntGet hg + 1\<rparr>)
      | Some (i, a) \<Rightarrow>
          do {
            (result, hg) \<leftarrow> fdb_get_entry (i, a) hg;
            hg \<leftarrow> with_partition i (entry_update a (\<lambda>e. e\<lparr>he_ref_count := he_ref_count e - 1\<rparr>)) hg;
            Some (result, hg\<lparr>hg_cntGet := hg_cntGet hg + 1\<rparr>)
          })"

definition fdb_get :: "cstr \<Rightarrow> fdb_hashes_group \<Rightarrow> (byte list option \<times> fdb_hashes_group) option" where
  "fdb_get kp hg = do { (h, hg) \<leftarrow> fdb_get_begin kp hg; fdb_get_end h hg }"

subsection \<open>Truncation and purge\<close>

fun destroy_all :: "(cstr \<times> nat) list \<Rightarrow> fdb_hash \<Rightarrow> fdb_hash option" where
  "destroy_all [] p = Some p"
| "destroy_all ((k, a) # xs) p = do { p \<leftarrow> hash_value_destroy_func a p; destroy_all xs p }"

definition hash_remove_all :: "fdb_hash \<Rightarrow> fdb_hash option" where
  "hash_remove_all p = destroy_all (ht_hash p) (p\<lparr>ht_hash := []\<rparr>)"

text \<open>
  The loops over the partitions count in an \<^verbatim>\<open>unsigned char\<close>. The number of partitions is at most 128
  (\<^verbatim>\<open>global_variables.c\<close>), so the counter does not wrap.
\<close>

fun truncate_parts :: "fdb_hash list \<Rightarrow> (nat \<times> fdb_hash list) option" where
  "truncate_parts [] = Some (0, [])"
| "truncate_parts (p # ps) =
     do { p' \<leftarrow> hash_remove_all p; (n, ps') \<leftarrow> truncate_parts ps; Some (length (ht_hash p) + n, p' # ps') }"

definition fdb_truncate_all :: "fdb_hashes_group \<Rightarrow> (nat \<times> fdb_hashes_group) option" where
  "fdb_truncate_all hg =
     do { (totsize, ps) \<leftarrow> truncate_parts (hg_fdb_hashes hg); Some (totsize, hg\<lparr>hg_fdb_hashes := ps\<rparr>) }"

text \<open>The body of the purge loop at one index; the entry it frees is part of the result.\<close>

definition purge_entry :: "int \<Rightarrow> nat \<Rightarrow> fdb_hash \<Rightarrow> (fdb_hash_entry list \<times> fdb_hash) option" where
  "purge_entry t idx p =
     (if idx < length (ht_array p)
      then do {
             let a = ht_array p ! idx;
             e \<leftarrow> ht_heap p a;
             p \<leftarrow> (if he_expire e \<noteq> EXPIRE_DROPIT \<and> he_expire e \<le> t then hash_remove (he_key e) p else Some p);
             e \<leftarrow> ht_heap p a;
             if he_expire e = EXPIRE_DROPIT \<and> he_ref_count e = 0
             then Some ([e], p\<lparr>ht_heap := (ht_heap p)(a := None), ht_array := remove_index_fast idx (ht_array p)\<rparr>)
             else Some ([], p)
           }
      else None)"

text \<open>\<^verbatim>\<open>while (--purgeIdx > min_idx)\<close>, entered with a positive \<^verbatim>\<open>purgeIdx\<close>.\<close>

fun purge_loop :: "int \<Rightarrow> int \<Rightarrow> nat \<Rightarrow> fdb_hash \<Rightarrow> (fdb_hash_entry list \<times> fdb_hash) option" where
  "purge_loop t min_idx 0 p = Some ([], p)"
| "purge_loop t min_idx (Suc idx) p =
     (let p = p\<lparr>ht_purgeIdx := idx\<rparr>
      in if int idx > min_idx
         then do { (fr, p) \<leftarrow> purge_entry t idx p; (frs, p) \<leftarrow> purge_loop t min_idx idx p; Some (fr @ frs, p) }
         else Some ([], p))"

definition purge_start :: "fdb_system_var \<Rightarrow> fdb_hash \<Rightarrow> fdb_hash" where
  "purge_start sv p =
     (if ht_purgeIdx p = 0
      then if ht_array p \<noteq> []
           then let len = length (ht_array p);
                    chunk = int len * sv_hash_purge_loop sv div sv_hash_purge_time sv
                in p\<lparr>ht_purgeIdx := len, ht_purgeChunkSize := (if chunk < 10 then int len else chunk)\<rparr>
           else p
      else p)"

definition purge_min_idx :: "fdb_hash \<Rightarrow> int" where
  "purge_min_idx p =
     (let min_idx = (if int (ht_purgeIdx p) > ht_purgeChunkSize p then int (ht_purgeIdx p) - ht_purgeChunkSize p else 0)
      in if min_idx < ht_purgeChunkSize p then 0 else min_idx)"

definition purge_partition :: "fdb_system_var \<Rightarrow> int \<Rightarrow> fdb_hash \<Rightarrow> (fdb_hash_entry list \<times> fdb_hash) option" where
  "purge_partition sv t p =
     (let p = purge_start sv p
      in if ht_purgeIdx p \<noteq> 0 then purge_loop t (purge_min_idx p) (ht_purgeIdx p) p else Some ([], p))"

definition uncount :: "fdb_hash_entry \<Rightarrow> fdb_hashes_group \<Rightarrow> fdb_hashes_group" where
  "uncount e hg = hg\<lparr>hg_size_keys := hg_size_keys hg - of_nat (he_klen e),
                     hg_size_values := hg_size_values hg - of_nat (he_length e),
                     hg_size_metas := hg_size_metas hg - of_nat entry_meta,
                     hg_cntPurge := hg_cntPurge hg + 1\<rparr>"

definition fdb_purge :: "fdb_system_var \<Rightarrow> nat \<Rightarrow> fdb_hashes_group \<Rightarrow> fdb_hashes_group option" where
  "fdb_purge sv i hg =
     (if i < length (hg_fdb_hashes hg)
      then do {
             (frs, p) \<leftarrow> purge_partition sv (hg_now hg) (hg_fdb_hashes hg ! i);
             Some (fold uncount frs (hg\<lparr>hg_fdb_hashes := (hg_fdb_hashes hg)[i := p]\<rparr>))
           }
      else None)"

definition fdb_hashes_group_free_mem :: "fdb_hashes_group \<Rightarrow> int" where
  "fdb_hashes_group_free_mem hg =
     (let cur_size = sint (hg_size_keys hg + hg_size_values hg + hg_size_metas hg); max_size = hg_max_memory_size hg
      in if cur_size > max_size then 0 else max_size - cur_size)"

text \<open>
  The percentage is computed in \<^verbatim>\<open>float\<close>; the rounding of a result to a \<^verbatim>\<open>float\<close> is the parameter
  \<open>flt\<close>. Without a maximum size the quotient is infinite, or not a number if the cache is empty.
\<close>

definition fdb_hashes_group_used_mem_pct :: "(rat \<Rightarrow> rat) \<Rightarrow> fdb_hashes_group \<Rightarrow> int option" where
  "fdb_hashes_group_used_mem_pct flt hg =
     (let cur_size = sint (hg_size_keys hg + hg_size_values hg + hg_size_metas hg); max_size = hg_max_memory_size hg
      in if max_size = 0 then (if cur_size > 0 then Some 100 else None)
         else let pctf = flt (flt (flt (of_int cur_size) * 100) / flt (of_int max_size))
              in if pctf > 100 then Some 100 else Some \<lfloor>pctf\<rfloor>)"

fun purge_all :: "fdb_system_var \<Rightarrow> nat list \<Rightarrow> fdb_hashes_group \<Rightarrow> fdb_hashes_group option" where
  "purge_all sv [] hg = Some hg"
| "purge_all sv (i # is) hg = do { hg \<leftarrow> fdb_purge sv i hg; purge_all sv is hg }"

text \<open>One round of \<^verbatim>\<open>purgeHash_thread\<close>, after the sleep; \<open>time\<close> is the clock.\<close>

definition purgeHash_round ::
  "(rat \<Rightarrow> rat) \<Rightarrow> fdb_system_var \<Rightarrow> int \<Rightarrow> fdb_hashes_group \<Rightarrow> fdb_hashes_group option" where
  "purgeHash_round flt sv time hg =
     (let hg = hg\<lparr>hg_now := time\<rparr>
      in do {
           pct \<leftarrow> fdb_hashes_group_used_mem_pct flt hg;
           if pct < sv_purge_threshold_pct_min sv then Some hg else purge_all sv [0..<hg_size hg] hg
         })"

subsection \<open>The invariant of a partition\<close>

text \<open>
  \<open>part_ok p c\<close>: the array lists the allocated entries, the hash table has exactly those that are not
  dropped, and an entry's reference count is the number \<open>c\<close> of threads between the two steps of
  \<^verbatim>\<open>fdb_get\<close> that have its address.
\<close>

definition table_ok :: "fdb_hash \<Rightarrow> bool" where
  "table_ok p \<longleftrightarrow> distinct (map fst (ht_hash p))
     \<and> (\<forall>k a. map_of (ht_hash p) k = Some a \<longleftrightarrow> (\<exists>e. ht_heap p a = Some e \<and> he_key e = k \<and> he_expire e \<noteq> EXPIRE_DROPIT))"

definition part_ok :: "fdb_hash \<Rightarrow> (nat \<Rightarrow> nat) \<Rightarrow> bool" where
  "part_ok p c \<longleftrightarrow> distinct (ht_array p) \<and> dom (ht_heap p) = set (ht_array p) \<and> table_ok p
     \<and> (\<forall>a e. ht_heap p a = Some e \<longrightarrow> he_ref_count e = int (c a) \<and> length (he_value e) = he_length e)
     \<and> (\<forall>a. 0 < c a \<longrightarrow> a \<in> set (ht_array p)) \<and> ht_purgeIdx p \<le> length (ht_array p)"

text \<open>The entries of a partition in the order of its array, and what they count for.\<close>

definition entries :: "fdb_hash \<Rightarrow> fdb_hash_entry list" where
  "entries p = map (\<lambda>a. the (ht_heap p a)) (ht_array p)"

definition part_use :: "(fdb_hash_entry \<Rightarrow> nat) \<Rightarrow> fdb_hash \<Rightarrow> nat" where
  "part_use f p = sum_list (map f (entries p))"

definition sizes_stable :: "(fdb_hash_entry \<Rightarrow> nat) \<Rightarrow> bool" where
  "sizes_stable f \<longleftrightarrow> f \<in> {he_klen, he_length, \<lambda>_. entry_meta}"

text \<open>What the cache holds: the value and expiration of every key of the table.\<close>

definition part_view :: "fdb_hash \<Rightarrow> cstr \<Rightarrow> (byte list \<times> int) option" where
  "part_view p k = do { a \<leftarrow> map_of (ht_hash p) k; e \<leftarrow> ht_heap p a; Some (he_value e, he_expire e) }"

lemma part_okD:
  assumes "part_ok p c"
  shows "distinct (ht_array p)" "dom (ht_heap p) = set (ht_array p)" "table_ok p" "ht_purgeIdx p \<le> length (ht_array p)"
    "\<And>a e. ht_heap p a = Some e \<Longrightarrow> he_ref_count e = int (c a)" "\<And>a e. ht_heap p a = Some e \<Longrightarrow> length (he_value e) = he_length e"
    "\<And>a. 0 < c a \<Longrightarrow> a \<in> set (ht_array p)"
  using assms by (auto simp: part_ok_def)

lemma part_ok_alloc: "part_ok p c \<Longrightarrow> a \<in> set (ht_array p) \<Longrightarrow> \<exists>e. ht_heap p a = Some e"
  using part_okD(2) by blast

lemma new_partition_ok: "part_ok new_partition (\<lambda>_. 0)"
  by (simp add: part_ok_def table_ok_def new_partition_def)

lemma map_of_filter_key: "map_of (filter (\<lambda>(k', _). k' \<noteq> k) xs) j = (if j = k then None else map_of xs j)"
  by (induction xs) auto

lemma distinct_filter_key: "distinct (map fst xs) \<Longrightarrow> distinct (map fst (filter P xs))"
  by (induction xs) auto

declare map_of_eq_Some_iff [simp del]

text \<open>An update of an allocated entry that keeps its key, value and lengths.\<close>

lemma entries_update:
  assumes "distinct (ht_array p)" and "ht_heap p a = Some e" and "f e' = f e"
  shows "map f (entries (p\<lparr>ht_heap := (ht_heap p)(a \<mapsto> e')\<rparr>)) = map f (entries p)"
  using assms by (auto simp: entries_def)

lemma table_lookup:
  assumes "table_ok p" and "map_of (ht_hash p) k = Some a"
  obtains e where "ht_heap p a = Some e" and "he_key e = k" and "he_expire e \<noteq> EXPIRE_DROPIT"
  using assms unfolding table_ok_def by blast

lemma table_live:
  "table_ok p \<Longrightarrow> ht_heap p a = Some e \<Longrightarrow> he_expire e \<noteq> EXPIRE_DROPIT \<Longrightarrow> map_of (ht_hash p) (he_key e) = Some a"
  unfolding table_ok_def by blast

lemma table_okI:
  assumes "distinct (map fst (ht_hash p))"
    and "\<And>k a. map_of (ht_hash p) k = Some a \<Longrightarrow> \<exists>e. ht_heap p a = Some e \<and> he_key e = k \<and> he_expire e \<noteq> EXPIRE_DROPIT"
    and "\<And>a e. ht_heap p a = Some e \<Longrightarrow> he_expire e \<noteq> EXPIRE_DROPIT \<Longrightarrow> map_of (ht_hash p) (he_key e) = Some a"
  shows "table_ok p"
  unfolding table_ok_def using assms by blast

text \<open>The partition after the key \<open>k\<close> of the entry \<open>e\<close> at \<open>a\<close> has been removed.\<close>

definition dropped :: "cstr \<Rightarrow> nat \<Rightarrow> fdb_hash_entry \<Rightarrow> fdb_hash \<Rightarrow> fdb_hash" where
  "dropped k a e p = p\<lparr>ht_hash := filter (\<lambda>(k', _). k' \<noteq> k) (ht_hash p),
                       ht_heap := (ht_heap p)(a \<mapsto> e\<lparr>he_expire := EXPIRE_DROPIT\<rparr>)\<rparr>"

lemma dropped_sel [simp]:
  "ht_hash (dropped k a e p) = filter (\<lambda>(k', _). k' \<noteq> k) (ht_hash p)"
  "ht_heap (dropped k a e p) = (ht_heap p)(a \<mapsto> e\<lparr>he_expire := EXPIRE_DROPIT\<rparr>)"
  "ht_array (dropped k a e p) = ht_array p" "ht_purgeIdx (dropped k a e p) = ht_purgeIdx p"
  by (simp_all add: dropped_def)

lemma hash_remove_eq:
  assumes "table_ok p"
  shows "hash_remove k p = Some (case map_of (ht_hash p) k of None \<Rightarrow> p
    | Some a \<Rightarrow> dropped k a (the (ht_heap p a)) p)"
proof (cases "map_of (ht_hash p) k")
  case (Some a)
  then obtain e where "ht_heap p a = Some e" using table_lookup [OF assms] by blast
  with Some show ?thesis unfolding hash_remove_def hash_value_destroy_func_def dropped_def by (simp del: map_of_eq_Some_iff)
qed (simp add: hash_remove_def)

lemma table_ok_remove:
  assumes t: "table_ok p" and k: "map_of (ht_hash p) k = Some a" and e: "ht_heap p a = Some e"
  shows "table_ok (dropped k a e p)"
proof (rule table_okI)
  have key: "he_key e = k" using table_lookup [OF t k] e by auto
  show "distinct (map fst (ht_hash (dropped k a e p)))"
    using t by (simp add: distinct_filter_key table_ok_def)
  fix j b
  assume "map_of (ht_hash (dropped k a e p)) j = Some b"
  then have j: "j \<noteq> k" "map_of (ht_hash p) j = Some b"
    unfolding dropped_sel map_of_filter_key by (metis option.distinct(1))+
  obtain e' where e': "ht_heap p b = Some e'" "he_key e' = j" "he_expire e' \<noteq> EXPIRE_DROPIT"
    using table_lookup [OF t j(2)] .
  then have "b \<noteq> a" using e key j(1) by auto
  then show "\<exists>e'. ht_heap (dropped k a e p) b = Some e' \<and> he_key e' = j \<and> he_expire e' \<noteq> EXPIRE_DROPIT"
    using e' by simp
next
  fix b e'
  assume "ht_heap (dropped k a e p) b = Some e'"
    and x: "he_expire e' \<noteq> EXPIRE_DROPIT"
  then have b: "b \<noteq> a" "ht_heap p b = Some e'" by (auto split: if_splits)
  have m: "map_of (ht_hash p) (he_key e') = Some b" by (rule table_live [OF t b(2) x])
  then have "he_key e' \<noteq> k" using k b(1) by auto
  with m show "map_of (ht_hash (dropped k a e p)) (he_key e') = Some b"
    by (simp add: map_of_filter_key del: map_of_eq_Some_iff)
qed

lemma hash_remove_ok:
  assumes ok: "part_ok p c"
  obtains p' where "hash_remove k p = Some p'" and "part_ok p' c" and "ht_array p' = ht_array p"
    and "ht_purgeIdx p' = ht_purgeIdx p" and "\<And>f. sizes_stable f \<Longrightarrow> map f (entries p') = map f (entries p)"
    and "part_view p' = (part_view p)(k := None)" and "map_of (ht_hash p') k = None"
    and "\<And>a e. map_of (ht_hash p) k = Some a \<Longrightarrow> ht_heap p a = Some e \<Longrightarrow> ht_heap p' a = Some (e\<lparr>he_expire := EXPIRE_DROPIT\<rparr>)"
proof (cases "map_of (ht_hash p) k")
  case None
  then have "part_view p = (part_view p)(k := None)" by (auto simp: part_view_def)
  with None ok hash_remove_eq [OF part_okD(3) [OF ok], of k] show ?thesis by (intro that [of p]) simp_all
next
  case (Some a)
  have t: "table_ok p" by (rule part_okD(3) [OF ok])
  obtain e where e: "ht_heap p a = Some e" "he_key e = k" using t Some unfolding table_ok_def by blast
  define p' where "p' = dropped k a e p"
  have "hash_remove k p = Some p'" using hash_remove_eq [OF t, of k] Some e(1) by (simp add: p'_def)
  moreover have "part_ok p' c"
    using ok e(1) table_ok_remove [OF t Some e(1)] by (auto simp: part_ok_def p'_def)
  moreover have "map f (entries p') = map f (entries p)" if "sizes_stable f" for f
    using e(1) that by (auto simp: entries_def p'_def sizes_stable_def)
  moreover have "part_view p' = (part_view p)(k := None)"
  proof
    fix j
    have "b \<noteq> a" if "map_of (ht_hash p) j = Some b" "j \<noteq> k" for b
      using t e that unfolding table_ok_def by auto
    then show "part_view p' j = ((part_view p)(k := None)) j"
      by (auto simp: part_view_def p'_def map_of_filter_key bind_eq_None_conv split: Option.bind_splits)
  qed
  ultimately show ?thesis using Some e(1) by (intro that [of p']) (simp_all add: p'_def map_of_filter_key)
qed

subsection \<open>The operations keep the invariant\<close>

definition inserted :: "nat \<Rightarrow> fdb_hash_entry \<Rightarrow> fdb_hash \<Rightarrow> fdb_hash" where
  "inserted a e p = p\<lparr>ht_heap := (ht_heap p)(a \<mapsto> e), ht_array := ht_array p @ [a], ht_hash := (he_key e, a) # ht_hash p\<rparr>"

lemma insert_entry_eq:
  assumes "part_ok p c" and "a \<notin> set (ht_array p)"
  shows "insert_entry a e p = map_option (inserted a e) (hash_remove (he_key e) p)"
proof (cases "map_of (ht_hash p) (he_key e)")
  case None
  then show ?thesis by (simp add: insert_entry_def hash_replace_def hash_remove_def inserted_def)
next
  case (Some b)
  obtain eb where eb: "ht_heap p b = Some eb" using table_lookup [OF part_okD(3) [OF assms(1)] Some] .
  then have "b \<noteq> a" using part_okD(2) [OF assms(1)] assms(2) by auto
  with Some eb show ?thesis
    by (simp add: insert_entry_def hash_replace_def hash_remove_def hash_value_destroy_func_def inserted_def fun_upd_twist)
qed

lemma part_view_inserted:
  assumes "a \<notin> set (ht_array p)" and "part_ok p c"
  shows "part_view (inserted a e p) = (part_view p)(he_key e \<mapsto> (he_value e, he_expire e))"
proof
  fix j
  have "b \<noteq> a" if "map_of (ht_hash p) j = Some b" for b
    using table_lookup [OF part_okD(3) [OF assms(2)] that] part_okD(2) [OF assms(2)] assms(1) by blast
  then show "part_view (inserted a e p) j = ((part_view p)(he_key e \<mapsto> (he_value e, he_expire e))) j"
    by (auto simp: part_view_def inserted_def split: Option.bind_splits)
qed

lemma part_ok_inserted:
  assumes ok: "part_ok p c" and a: "a \<notin> set (ht_array p)" and k: "map_of (ht_hash p) (he_key e) = None"
    and e: "he_expire e \<noteq> EXPIRE_DROPIT" "he_ref_count e = 0" "length (he_value e) = he_length e"
  shows "part_ok (inserted a e p) c"
proof -
  have t: "table_ok p" by (rule part_okD(3) [OF ok])
  have nd: "ht_heap p a = None" using part_okD(2) [OF ok] a by auto
  have c: "c a = 0" using part_okD(7) [OF ok] a by blast
  have ne: "b \<noteq> a" if "ht_heap p b = Some e'" for b e' using that nd by auto
  have "table_ok (inserted a e p)"
  proof (rule table_okI)
    show "distinct (map fst (ht_hash (inserted a e p)))"
      using t k by (auto simp: inserted_def table_ok_def map_of_eq_None_iff)
    fix j b assume m: "map_of (ht_hash (inserted a e p)) j = Some b"
    show "\<exists>e'. ht_heap (inserted a e p) b = Some e' \<and> he_key e' = j \<and> he_expire e' \<noteq> EXPIRE_DROPIT"
    proof (cases "j = he_key e")
      case False
      then have "map_of (ht_hash p) j = Some b" using m by (simp add: inserted_def)
      then obtain e' where e': "ht_heap p b = Some e'" "he_key e' = j" "he_expire e' \<noteq> EXPIRE_DROPIT"
        using table_lookup [OF t] by blast
      then show ?thesis using ne [OF e'(1)] by (simp add: inserted_def)
    qed (use m e in \<open>auto simp: inserted_def\<close>)
  next
    fix b e' assume h: "ht_heap (inserted a e p) b = Some e'" and x: "he_expire e' \<noteq> EXPIRE_DROPIT"
    show "map_of (ht_hash (inserted a e p)) (he_key e') = Some b"
    proof (cases "b = a")
      case False
      then have "map_of (ht_hash p) (he_key e') = Some b" using h table_live [OF t _ x] by (simp add: inserted_def)
      then show ?thesis using k by (auto simp: inserted_def)
    qed (use h in \<open>auto simp: inserted_def\<close>)
  qed
  then show ?thesis
    using ok a e c by (auto simp: part_ok_def inserted_def)
qed

lemma entries_inserted:
  "a \<notin> set (ht_array p) \<Longrightarrow> entries (inserted a e p) = entries p @ [e]"
  by (auto simp: entries_def inserted_def)

lemma insert_entry_ok:
  assumes ok: "part_ok p c" and a: "a \<notin> set (ht_array p)"
    and e: "he_expire e \<noteq> EXPIRE_DROPIT" "he_ref_count e = 0" "length (he_value e) = he_length e"
  obtains p' where "insert_entry a e p = Some p'" and "part_ok p' c"
    and "\<And>f. sizes_stable f \<Longrightarrow> part_use f p' = part_use f p + f e"
    and "part_view p' = (part_view p)(he_key e \<mapsto> (he_value e, he_expire e))"
proof -
  obtain p1 where p1: "hash_remove (he_key e) p = Some p1" "part_ok p1 c" "ht_array p1 = ht_array p"
      "\<And>f. sizes_stable f \<Longrightarrow> map f (entries p1) = map f (entries p)"
      "part_view p1 = (part_view p)(he_key e := None)" "map_of (ht_hash p1) (he_key e) = None"
    using hash_remove_ok [OF ok] by metis
  have a1: "a \<notin> set (ht_array p1)" using a p1(3) by simp
  show ?thesis
  proof (rule that [of "inserted a e p1"])
    show "insert_entry a e p = Some (inserted a e p1)" using insert_entry_eq [OF ok a] p1(1) by simp
    show "part_ok (inserted a e p1) c" by (rule part_ok_inserted [OF p1(2) a1 p1(6) e])
    show "part_use f (inserted a e p1) = part_use f p + f e" if "sizes_stable f" for f
      using p1(4) [OF that] entries_inserted [OF a1] by (simp add: part_use_def)
    show "part_view (inserted a e p1) = (part_view p)(he_key e \<mapsto> (he_value e, he_expire e))"
      using part_view_inserted [OF a1 p1(2)] p1(5) by simp
  qed
qed

text \<open>Counting references and noting the access change nothing else.\<close>

definition same_entry :: "fdb_hash_entry \<Rightarrow> fdb_hash_entry \<Rightarrow> bool" where
  "same_entry e e' \<longleftrightarrow> he_key e' = he_key e \<and> he_value e' = he_value e \<and> he_klen e' = he_klen e
     \<and> he_length e' = he_length e \<and> he_expire e' = he_expire e"

lemma entry_update_ok:
  assumes ok: "part_ok p c" and a: "ht_heap p a = Some e" and s: "same_entry e (f e)"
    and c': "he_ref_count (f e) = int (c' a)" "\<And>b. b \<noteq> a \<Longrightarrow> c' b = c b"
  obtains p' where "entry_update a f p = Some p'" and "part_ok p' c'" and "ht_array p' = ht_array p"
    and "\<And>g. sizes_stable g \<Longrightarrow> part_use g p' = part_use g p"
    and "part_view p' = part_view p" and "ht_heap p' = (ht_heap p)(a \<mapsto> f e)"
proof (rule that [of "p\<lparr>ht_heap := (ht_heap p)(a \<mapsto> f e)\<rparr>"])
  let ?p = "p\<lparr>ht_heap := (ht_heap p)(a \<mapsto> f e)\<rparr>"
  have t: "table_ok p" by (rule part_okD(3) [OF ok])
  have arr: "a \<in> set (ht_array p)" using part_okD(2) [OF ok] a by auto
  have "table_ok ?p"
  proof (rule table_okI)
    show "distinct (map fst (ht_hash ?p))" using t by (simp add: table_ok_def)
    fix k b assume "map_of (ht_hash ?p) k = Some b"
    then obtain e' where e': "ht_heap p b = Some e'" "he_key e' = k" "he_expire e' \<noteq> EXPIRE_DROPIT"
      using table_lookup [OF t, of k b] by auto
    then show "\<exists>e'. ht_heap ?p b = Some e' \<and> he_key e' = k \<and> he_expire e' \<noteq> EXPIRE_DROPIT"
      using a s by (cases "b = a") (auto simp: same_entry_def)
  next
    fix b e' assume "ht_heap ?p b = Some e'" and x: "he_expire e' \<noteq> EXPIRE_DROPIT"
    then show "map_of (ht_hash ?p) (he_key e') = Some b"
      using table_live [OF t a] table_live [OF t, of b e'] s by (cases "b = a") (auto simp: same_entry_def)
  qed
  then show "part_ok ?p c'"
    using ok a s c' arr unfolding part_ok_def same_entry_def by (auto; metis)
  show "part_view ?p = part_view p"
    using a s by (auto simp: part_view_def fun_eq_iff same_entry_def split: Option.bind_splits)
  show "part_use g ?p = part_use g p" if "sizes_stable g" for g
  proof -
    have "g (f e) = g e" using that s by (auto simp: sizes_stable_def same_entry_def)
    then have "map g (entries ?p) = map g (entries p)"
      using entries_update [OF part_okD(1) [OF ok] a, of g "f e"] by simp
    then show ?thesis by (simp add: part_use_def)
  qed
qed (simp_all add: entry_update_def a)

lemma part_use_mset: "part_use f p = sum_mset (image_mset (\<lambda>a. f (the (ht_heap p a))) (mset (ht_array p)))"
  unfolding part_use_def entries_def by (metis (no_types, lifting) comp_apply map_eq_conv map_map mset_map sum_mset_sum_list)

text \<open>Freeing a dropped entry that nobody refers to.\<close>

definition freed :: "nat \<Rightarrow> fdb_hash \<Rightarrow> fdb_hash" where
  "freed idx p = p\<lparr>ht_heap := (ht_heap p)(ht_array p ! idx := None), ht_array := remove_index_fast idx (ht_array p)\<rparr>"

lemma freed_ok:
  assumes ok: "part_ok p c" and idx: "idx < length (ht_array p)" "ht_purgeIdx p \<le> idx"
    and e: "ht_heap p (ht_array p ! idx) = Some e" "he_expire e = EXPIRE_DROPIT" "he_ref_count e = 0"
  shows "part_ok (freed idx p) c" and "part_use f p = part_use f (freed idx p) + f e"
    and "part_view (freed idx p) = part_view p"
proof -
  let ?a = "ht_array p ! idx"
  have t: "table_ok p" by (rule part_okD(3) [OF ok])
  have arr: "set (remove_index_fast idx (ht_array p)) = set (ht_array p) - {?a}" "distinct (remove_index_fast idx (ht_array p))"
    using remove_index_fast_distinct [OF part_okD(1) [OF ok] idx(1)] by simp_all
  have nm: "b \<noteq> ?a" if "map_of (ht_hash p) k = Some b" for k b
    using table_lookup [OF t that] e(1,2) by (metis option.inject)
  have c0: "c ?a = 0" using part_okD(5) [OF ok e(1)] e(3) by simp
  have "table_ok (freed idx p)"
  proof (rule table_okI)
    show "distinct (map fst (ht_hash (freed idx p)))" using t by (simp add: table_ok_def freed_def)
    fix k b assume m: "map_of (ht_hash (freed idx p)) k = Some b"
    then have m: "map_of (ht_hash p) k = Some b" by (simp add: freed_def)
    then obtain e' where "ht_heap p b = Some e'" "he_key e' = k" "he_expire e' \<noteq> EXPIRE_DROPIT"
      using table_lookup [OF t] by blast
    then show "\<exists>e'. ht_heap (freed idx p) b = Some e' \<and> he_key e' = k \<and> he_expire e' \<noteq> EXPIRE_DROPIT"
      using nm [OF m] by (simp add: freed_def)
  next
    fix b e' assume "ht_heap (freed idx p) b = Some e'" and x: "he_expire e' \<noteq> EXPIRE_DROPIT"
    then have "ht_heap p b = Some e'" by (simp add: freed_def split: if_splits)
    then show "map_of (ht_hash (freed idx p)) (he_key e') = Some b" using table_live [OF t _ x] by (simp add: freed_def)
  qed
  moreover have "a \<in> set (ht_array p) - {?a}" if "0 < c a" for a
    using part_okD(7) [OF ok that] c0 that by auto
  ultimately show "part_ok (freed idx p) c"
    using part_okD [OF ok] arr idx by (auto simp: part_ok_def freed_def split: if_splits)
  show "part_view (freed idx p) = part_view p"
  proof
    fix k show "part_view (freed idx p) k = part_view p k"
      using nm [of k] by (auto simp: part_view_def freed_def split: Option.bind_splits)
  qed
  have "image_mset (\<lambda>a. f (the (ht_heap (freed idx p) a))) (mset (remove_index_fast idx (ht_array p)))
      = image_mset (\<lambda>a. f (the (ht_heap p a))) (mset (remove_index_fast idx (ht_array p)))"
    using arr(1) by (intro image_mset_cong) (auto simp: freed_def)
  then show "part_use f p = part_use f (freed idx p) + f e"
    using mset_remove_index_fast [OF idx(1)] e(1) by (simp add: part_use_mset) (simp add: freed_def)
qed

text \<open>What a purge may do to the contents: only remove keys whose time has come.\<close>

definition only_expired :: "int \<Rightarrow> (cstr \<Rightarrow> (byte list \<times> int) option) \<Rightarrow> (cstr \<Rightarrow> (byte list \<times> int) option) \<Rightarrow> bool" where
  "only_expired t v v' \<longleftrightarrow> (\<forall>k. v' k = v k \<or> v' k = None \<and> (\<exists>x y. v k = Some (x, y) \<and> y \<le> t))"

lemma only_expired_refl [simp]: "only_expired t v v"
  by (simp add: only_expired_def)

lemma only_expired_trans: "only_expired t u v \<Longrightarrow> only_expired t v w \<Longrightarrow> only_expired t u w"
  unfolding only_expired_def by metis

definition purge_spec :: "int \<Rightarrow> (nat \<Rightarrow> nat) \<Rightarrow> fdb_hash \<Rightarrow> fdb_hash_entry list \<Rightarrow> fdb_hash \<Rightarrow> bool" where
  "purge_spec t c p fr p' \<longleftrightarrow> part_ok p' c
     \<and> (\<forall>f. sizes_stable f \<longrightarrow> part_use f p = part_use f p' + sum_list (map f fr))
     \<and> only_expired t (part_view p) (part_view p')"

lemma purge_entry_ok:
  assumes ok: "part_ok p c" and idx: "idx < length (ht_array p)" "ht_purgeIdx p \<le> idx"
  shows "\<exists>fr p'. purge_entry t idx p = Some (fr, p') \<and> purge_spec t c p fr p'
    \<and> ht_purgeIdx p' = ht_purgeIdx p \<and> idx \<le> length (ht_array p')"
proof -
  let ?a = "ht_array p ! idx"
  obtain e where e: "ht_heap p ?a = Some e" using part_ok_alloc [OF ok] idx(1) by fastforce
  obtain p1 e1 where p1: "(if he_expire e \<noteq> EXPIRE_DROPIT \<and> he_expire e \<le> t then hash_remove (he_key e) p else Some p) = Some p1"
    "part_ok p1 c" "ht_array p1 = ht_array p" "ht_purgeIdx p1 = ht_purgeIdx p"
    "\<And>f. sizes_stable f \<Longrightarrow> part_use f p1 = part_use f p" "only_expired t (part_view p) (part_view p1)" "ht_heap p1 ?a = Some e1"
  proof (cases "he_expire e \<noteq> EXPIRE_DROPIT \<and> he_expire e \<le> t")
    case True
    have m: "map_of (ht_hash p) (he_key e) = Some ?a" using table_live [OF part_okD(3) [OF ok] e] True by blast
    obtain p1 where p1: "hash_remove (he_key e) p = Some p1" "part_ok p1 c" "ht_array p1 = ht_array p"
        "ht_purgeIdx p1 = ht_purgeIdx p" "\<And>f. sizes_stable f \<Longrightarrow> map f (entries p1) = map f (entries p)"
        "part_view p1 = (part_view p)(he_key e := None)" "ht_heap p1 ?a = Some (e\<lparr>he_expire := EXPIRE_DROPIT\<rparr>)"
      using hash_remove_ok [OF ok, of "he_key e"] m e by metis
    have "only_expired t (part_view p) (part_view p1)"
      using p1(6) m e True by (auto simp: only_expired_def part_view_def)
    then show ?thesis using p1 True by (intro that [of p1]) (simp_all add: part_use_def)
  next
    case False
    with ok e show ?thesis by (intro that [of p e]) auto
  qed
  have idx1: "idx < length (ht_array p1)" "ht_purgeIdx p1 \<le> idx" using idx p1(3,4) by simp_all
  show ?thesis
  proof (cases "he_expire e1 = EXPIRE_DROPIT \<and> he_ref_count e1 = 0")
    case True
    have e1: "ht_heap p1 (ht_array p1 ! idx) = Some e1" using p1(3,7) by simp
    note fr = freed_ok [OF p1(2) idx1 e1 True [THEN conjunct1] True [THEN conjunct2]]
    have "purge_entry t idx p = Some ([e1], freed idx p1)"
      using idx(1) e p1(1,3,7) True by (simp add: purge_entry_def freed_def Let_def)
    moreover have "purge_spec t c p [e1] (freed idx p1)" using fr p1(5,6) by (simp add: purge_spec_def)
    moreover have "ht_purgeIdx (freed idx p1) = ht_purgeIdx p" "idx \<le> length (ht_array (freed idx p1))"
      using idx1 p1(4) by (simp_all add: freed_def)
    ultimately show ?thesis by blast
  next
    case False
    then have "purge_entry t idx p = Some ([], p1)" using idx(1) e p1(1,3,7) by (auto simp: purge_entry_def Let_def)
    moreover have "purge_spec t c p [] p1" using p1 by (simp add: purge_spec_def)
    ultimately show ?thesis using idx1(1) p1(4) by (metis less_imp_le)
  qed
qed

lemma part_ok_purgeIdx:
  "part_ok p c \<Longrightarrow> n \<le> length (ht_array p) \<Longrightarrow> part_ok (p\<lparr>ht_purgeIdx := n\<rparr>) c"
  by (simp add: part_ok_def table_ok_def)

lemma part_purgeIdx_same [simp]:
  "part_view (p\<lparr>ht_purgeIdx := n\<rparr>) = part_view p" "part_use f (p\<lparr>ht_purgeIdx := n\<rparr>) = part_use f p"
  by (simp_all add: part_view_def part_use_def entries_def fun_eq_iff)

lemma purge_loop_ok:
  "part_ok p c \<Longrightarrow> n = ht_purgeIdx p \<Longrightarrow> \<exists>fr p'. purge_loop t m n p = Some (fr, p') \<and> purge_spec t c p fr p'"
proof (induction n arbitrary: p)
  case 0
  then show ?case by (simp add: purge_spec_def)
next
  case (Suc idx)
  let ?p = "p\<lparr>ht_purgeIdx := idx\<rparr>"
  have len: "idx < length (ht_array p)" using part_okD(4) [OF Suc.prems(1)] Suc.prems(2) by simp
  have ok: "part_ok ?p c" using part_ok_purgeIdx [OF Suc.prems(1)] len by simp
  show ?case
  proof (cases "int idx > m")
    case True
    obtain fr p1 where p1: "purge_entry t idx ?p = Some (fr, p1)" "purge_spec t c ?p fr p1" "idx = ht_purgeIdx p1"
      using purge_entry_ok [OF ok, of idx t] len by auto
    have "part_ok p1 c" using p1(2) by (simp add: purge_spec_def)
    then obtain frs p' where p': "purge_loop t m idx p1 = Some (frs, p')" "purge_spec t c p1 frs p'"
      using Suc.IH [OF _ p1(3)] by blast
    have "purge_loop t m (Suc idx) p = Some (fr @ frs, p')" using True p1(1) p'(1) by simp
    moreover have "purge_spec t c p (fr @ frs) p'"
      using p1(2) p'(2) only_expired_trans [of t "part_view p" "part_view p1"] unfolding purge_spec_def by auto
    ultimately show ?thesis by blast
  next
    case False
    have "purge_loop t m (Suc idx) p = Some ([], ?p)" using False by simp
    moreover have "purge_spec t c p [] ?p" using ok by (simp add: purge_spec_def)
    ultimately show ?thesis by blast
  qed
qed

lemma purge_start_same:
  assumes "part_ok p c"
  shows "part_ok (purge_start sv p) c" "part_view (purge_start sv p) = part_view p" "part_use f (purge_start sv p) = part_use f p"
  using assms
  by (auto simp: purge_start_def Let_def part_ok_def table_ok_def part_view_def part_use_def entries_def fun_eq_iff)

lemma purge_partition_ok:
  assumes "part_ok p c"
  shows "\<exists>fr p'. purge_partition sv t p = Some (fr, p') \<and> purge_spec t c p fr p'"
proof -
  note s = purge_start_same [OF assms, where sv = sv]
  obtain m where eq: "purge_partition sv t p = (if ht_purgeIdx (purge_start sv p) \<noteq> 0
      then purge_loop t m (ht_purgeIdx (purge_start sv p)) (purge_start sv p) else Some ([], purge_start sv p))"
    unfolding purge_partition_def Let_def by blast
  show ?thesis
  proof (cases "ht_purgeIdx (purge_start sv p) = 0")
    case True
    then show ?thesis using eq s by (simp add: purge_spec_def)
  next
    case False
    obtain fr p' where "purge_loop t m (ht_purgeIdx (purge_start sv p)) (purge_start sv p) = Some (fr, p')"
        "purge_spec t c (purge_start sv p) fr p'"
      using purge_loop_ok [OF s(1) refl] by blast
    then show ?thesis using eq False s(2,3) by (simp add: purge_spec_def)
  qed
qed

text \<open>Removing all keys drops every entry.\<close>

lemma destroy_all_ok:
  "distinct (map snd xs) \<Longrightarrow> \<forall>a \<in> set (map snd xs). ht_heap p a \<noteq> None \<Longrightarrow>
   destroy_all xs p = Some (p\<lparr>ht_heap := \<lambda>a. if a \<in> set (map snd xs)
      then map_option (\<lambda>e. e\<lparr>he_expire := EXPIRE_DROPIT\<rparr>) (ht_heap p a) else ht_heap p a\<rparr>)"
proof (induction xs arbitrary: p)
  case Nil
  then show ?case by simp
next
  case (Cons x xs)
  obtain k a where x: "x = (k, a)" by force
  obtain e where e: "ht_heap p a = Some e" using Cons.prems(2) x by auto
  show ?case
    using Cons x e by (auto simp: hash_value_destroy_func_def fun_eq_iff intro!: fdb_hash.fold_congs)
qed

lemma hash_remove_all_ok:
  assumes ok: "part_ok p c"
  obtains p' where "hash_remove_all p = Some p'" and "part_ok p' c" and "part_view p' = Map.empty"
    and "\<And>f. sizes_stable f \<Longrightarrow> part_use f p' = part_use f p"
proof -
  have t: "table_ok p" by (rule part_okD(3) [OF ok])
  have dk: "distinct (map fst (ht_hash p))" using t by (simp add: table_ok_def)
  have mem: "map_of (ht_hash p) k = Some a" if "(k, a) \<in> set (ht_hash p)" for k a using dk that by simp
  have "inj_on snd (set (ht_hash p))"
  proof (rule inj_onI)
    fix x y assume x: "x \<in> set (ht_hash p)" and y: "y \<in> set (ht_hash p)" and eq: "snd x = snd y"
    obtain e where "ht_heap p (snd x) = Some e" "he_key e = fst x" using table_lookup [OF t mem] x by (metis prod.collapse)
    moreover obtain e' where "ht_heap p (snd y) = Some e'" "he_key e' = fst y" using table_lookup [OF t mem] y by (metis prod.collapse)
    ultimately show "x = y" using eq by (simp add: prod_eq_iff)
  qed
  then have da: "distinct (map snd (ht_hash p))" using dk by (auto simp: distinct_map)
  have al: "\<forall>a \<in> set (map snd (ht_hash p)). ht_heap (p\<lparr>ht_hash := []\<rparr>) a \<noteq> None"
  proof
    fix a assume "a \<in> set (map snd (ht_hash p))"
    then obtain k where "(k, a) \<in> set (ht_hash p)" by auto
    then obtain e where "ht_heap p a = Some e" using table_lookup [OF t mem] by blast
    then show "ht_heap (p\<lparr>ht_hash := []\<rparr>) a \<noteq> None" by simp
  qed
  define h where "h = (\<lambda>a. if a \<in> set (map snd (ht_hash p))
      then map_option (\<lambda>e. e\<lparr>he_expire := EXPIRE_DROPIT\<rparr>) (ht_heap p a) else ht_heap p a)"
  have hh: "h a = map_option (\<lambda>e. e\<lparr>he_expire := EXPIRE_DROPIT\<rparr>) (ht_heap p a)" for a
  proof (cases "a \<in> set (map snd (ht_hash p)) \<or> ht_heap p a = None")
    case False
    then obtain e where e: "ht_heap p a = Some e" by auto
    have "he_expire e = EXPIRE_DROPIT"
    proof (rule ccontr)
      assume "he_expire e \<noteq> EXPIRE_DROPIT"
      then have "(he_key e, a) \<in> set (ht_hash p)" using map_of_SomeD [OF table_live [OF t e]] by simp
      then show False using False by (auto simp: image_iff)
    qed
    with e False show ?thesis by (simp add: h_def)
  qed (auto simp: h_def)
  have eq: "hash_remove_all p = Some (p\<lparr>ht_hash := [], ht_heap := h\<rparr>)"
    unfolding hash_remove_all_def destroy_all_ok [OF da al] h_def by (simp cong: if_cong)
  have "part_ok (p\<lparr>ht_hash := [], ht_heap := h\<rparr>) c"
    using ok by (auto simp: part_ok_def table_ok_def hh dom_def)
  moreover have "part_use f (p\<lparr>ht_hash := [], ht_heap := h\<rparr>) = part_use f p" if "sizes_stable f" for f
  proof -
    have "map f (entries (p\<lparr>ht_hash := [], ht_heap := h\<rparr>)) = map f (entries p)"
      unfolding entries_def map_map
    proof (rule map_cong, simp)
      fix a assume "a \<in> set (ht_array p)"
      then obtain e where "ht_heap p a = Some e" using part_ok_alloc [OF ok] by blast
      then show "(f \<circ> (\<lambda>a. the (ht_heap (p\<lparr>ht_hash := [], ht_heap := h\<rparr>) a))) a = (f \<circ> (\<lambda>a. the (ht_heap p a))) a"
        using that by (auto simp: hh sizes_stable_def)
    qed
    then show ?thesis by (simp add: part_use_def)
  qed
  ultimately show ?thesis using eq by (intro that [of "p\<lparr>ht_hash := [], ht_heap := h\<rparr>"]) (simp_all add: part_view_def fun_eq_iff)
qed

subsection \<open>The invariant of the cache\<close>

definition group_use :: "(fdb_hash_entry \<Rightarrow> nat) \<Rightarrow> fdb_hash list \<Rightarrow> nat" where
  "group_use f ps = sum_list (map (part_use f) ps)"

definition counted :: "fdb_hashes_group \<Rightarrow> bool" where
  "counted hg \<longleftrightarrow> hg_size_keys hg = of_nat (group_use he_klen (hg_fdb_hashes hg))
     \<and> hg_size_values hg = of_nat (group_use he_length (hg_fdb_hashes hg))
     \<and> hg_size_metas hg = of_nat (group_use (\<lambda>_. entry_meta) (hg_fdb_hashes hg))"

definition cache_ok :: "fdb_hashes_group \<Rightarrow> (nat \<times> nat) multiset \<Rightarrow> bool" where
  "cache_ok hg M \<longleftrightarrow> length (hg_fdb_hashes hg) = hg_size hg \<and> 0 < hg_size hg \<and> 0 < hg_now hg \<and> counted hg
     \<and> (\<forall>i < hg_size hg. part_ok (hg_fdb_hashes hg ! i) (\<lambda>a. count M (i, a))) \<and> (\<forall>x \<in># M. fst x < hg_size hg)"

definition cache_view :: "fdb_hashes_group \<Rightarrow> cstr \<Rightarrow> (byte list \<times> int) option" where
  "cache_view hg k = part_view (hg_fdb_hashes hg ! key_partition k (length k) (hg_size hg)) k"

lemma group_use_update:
  assumes "i < length ps"
  shows "group_use f (ps[i := p]) + part_use f (ps ! i) = group_use f ps + part_use f p"
proof -
  have "ps = take i ps @ ps ! i # drop (Suc i) ps" using assms by (rule id_take_nth_drop)
  then have "group_use f ps = group_use f (take i ps) + part_use f (ps ! i) + group_use f (drop (Suc i) ps)"
    by (metis (no_types, lifting) add.assoc group_use_def list.simps(9) map_append sum_list.Cons sum_list.append)
  moreover have "group_use f (ps[i := p]) = group_use f (take i ps) + part_use f p + group_use f (drop (Suc i) ps)"
    using assms by (simp add: upd_conv_take_nth_drop group_use_def)
  ultimately show ?thesis by simp
qed

lemma key_partition_lt: "0 < n \<Longrightarrow> key_partition k l n < n"
  by (simp add: key_partition_def Let_def)

lemma stable_sizes [simp]: "sizes_stable he_klen" "sizes_stable he_length" "sizes_stable (\<lambda>_. entry_meta)"
  by (simp_all add: sizes_stable_def)

text \<open>Replacing one partition, with the counters moved by what its entries count for.\<close>

lemma cache_ok_update:
  assumes ok: "cache_ok hg M" and i: "i < hg_size hg" and p: "part_ok p (\<lambda>a. count M' (i, a))"
    and M': "\<And>j a. j \<noteq> i \<Longrightarrow> count M' (j, a) = count M (j, a)" "\<And>x. x \<in># M' \<Longrightarrow> fst x < hg_size hg"
    and hg': "hg_fdb_hashes hg' = (hg_fdb_hashes hg)[i := p]" "hg_size hg' = hg_size hg" "0 < hg_now hg'" "counted hg'"
  shows "cache_ok hg' M'"
proof -
  have "part_ok ((hg_fdb_hashes hg)[i := p] ! j) (\<lambda>a. count M' (j, a))" if "j < hg_size hg" for j
    using ok i p M'(1) [of j] that by (cases "j = i") (simp_all add: cache_ok_def)
  then show ?thesis using ok M'(2) hg' by (simp add: cache_ok_def)
qed

lemma cache_view_update:
  assumes "i < length (hg_fdb_hashes hg)" and "hg_fdb_hashes hg' = (hg_fdb_hashes hg)[i := p]" and "hg_size hg' = hg_size hg"
  shows "cache_view hg' k = (if key_partition k (length k) (hg_size hg) = i then part_view p k else cache_view hg k)"
  using assms by (auto simp: cache_view_def)

lemma cache_okD:
  assumes "cache_ok hg M"
  shows "length (hg_fdb_hashes hg) = hg_size hg" "0 < hg_size hg" "0 < hg_now hg" "counted hg"
    "\<And>i. i < hg_size hg \<Longrightarrow> part_ok (hg_fdb_hashes hg ! i) (\<lambda>a. count M (i, a))" "\<And>x. x \<in># M \<Longrightarrow> fst x < hg_size hg"
  using assms by (auto simp: cache_ok_def)

definition entry_expire :: "fdb_system_var \<Rightarrow> fdb_hashes_group \<Rightarrow> int \<Rightarrow> int" where
  "entry_expire sv hg expire = he_expire (new_entry sv hg [] 0 [] expire)"

lemma new_entry_sel [simp]:
  "he_key (new_entry sv hg kp kl vp x) = kp" "he_value (new_entry sv hg kp kl vp x) = vp"
  "he_klen (new_entry sv hg kp kl vp x) = kl" "he_length (new_entry sv hg kp kl vp x) = length vp"
  "he_ref_count (new_entry sv hg kp kl vp x) = 0" "he_expire (new_entry sv hg kp kl vp x) = entry_expire sv hg x"
  by (simp_all add: new_entry_def entry_expire_def)

lemma entry_expire_pos: "0 < hg_now hg \<Longrightarrow> 0 < entry_expire sv hg x"
  by (simp add: entry_expire_def new_entry_def)

lemma fdb_set_ok:
  assumes ok: "cache_ok hg M" and kl: "kl = length kp"
    and a: "a \<notin> set (ht_array (hg_fdb_hashes hg ! key_partition kp kl (hg_size hg)))"
  obtains hg' where "fdb_set sv a kp kl vp x hg = Some hg'" and "cache_ok hg' M"
    and "cache_view hg' = (cache_view hg)(kp \<mapsto> (vp, entry_expire sv hg x))" and "hg_now hg' = hg_now hg"
proof -
  note c = cache_okD [OF ok]
  define i where "i = key_partition kp kl (hg_size hg)"
  define e where "e = new_entry sv hg kp kl vp x"
  have i: "i < hg_size hg" using key_partition_lt [OF c(2)] by (simp add: i_def)
  have e: "he_expire e \<noteq> EXPIRE_DROPIT" "he_ref_count e = 0" "length (he_value e) = he_length e"
    using entry_expire_pos [OF c(3), of sv x] by (simp_all add: e_def EXPIRE_DROPIT_def)
  obtain p where p: "insert_entry a e (hg_fdb_hashes hg ! i) = Some p" "part_ok p (\<lambda>a. count M (i, a))"
      "\<And>f. sizes_stable f \<Longrightarrow> part_use f p = part_use f (hg_fdb_hashes hg ! i) + f e"
      "part_view p = (part_view (hg_fdb_hashes hg ! i))(he_key e \<mapsto> (he_value e, he_expire e))"
    using insert_entry_ok [OF c(5) [OF i] _ e] a by (metis i_def)
  define hg' where "hg' = hg\<lparr>hg_fdb_hashes := (hg_fdb_hashes hg)[i := p], hg_cntSet := hg_cntSet hg + 1,
      hg_size_keys := hg_size_keys hg + of_nat kl, hg_size_values := hg_size_values hg + of_nat (length vp),
      hg_dataIN := hg_dataIN hg + of_nat (length vp), hg_size_metas := hg_size_metas hg + of_nat entry_meta\<rparr>"
  have sel: "hg_fdb_hashes hg' = (hg_fdb_hashes hg)[i := p]" "hg_size hg' = hg_size hg" "hg_now hg' = hg_now hg"
    by (simp_all add: hg'_def)
  have use: "group_use f ((hg_fdb_hashes hg)[i := p]) = group_use f (hg_fdb_hashes hg) + f e" if "sizes_stable f" for f
    using group_use_update [of i "hg_fdb_hashes hg" f p] p(3) [OF that] c(1) i by simp
  have "counted hg'" using c(4) use by (simp add: counted_def hg'_def e_def)
  then have "cache_ok hg' M" using c(3,6) sel by (intro cache_ok_update [OF ok i p(2)]) simp_all
  moreover have "fdb_set sv a kp kl vp x hg = Some hg'"
    using p(1) i c(1) by (simp add: fdb_set_def with_partition_def i_def [symmetric] e_def [symmetric] hg'_def)
  moreover have "cache_view hg' = (cache_view hg)(kp \<mapsto> (vp, entry_expire sv hg x))"
  proof
    fix k
    show "cache_view hg' k = ((cache_view hg)(kp \<mapsto> (vp, entry_expire sv hg x))) k"
      using cache_view_update [of i hg hg' p k] sel i c(1) p(4) kl by (auto simp: i_def e_def cache_view_def)
  qed
  ultimately show ?thesis using that sel(3) by blast
qed

lemma with_partition_update:
  assumes ok: "cache_ok hg M" and i: "i < hg_size hg" and a: "ht_heap (hg_fdb_hashes hg ! i) a = Some e"
    and f: "same_entry e (f e)" "he_ref_count (f e) = int (count M' (i, a))"
    and M': "\<And>x. x \<noteq> (i, a) \<Longrightarrow> count M' x = count M x"
  obtains hg' where "with_partition i (entry_update a f) hg = Some hg'" and "cache_ok hg' M'"
    and "cache_view hg' = cache_view hg" and "hg_now hg' = hg_now hg" and "hg_size hg' = hg_size hg"
    and "ht_heap (hg_fdb_hashes hg' ! i) a = Some (f e)"
proof -
  note c = cache_okD [OF ok]
  have cM: "count M' (i, b) = count M (i, b)" if "b \<noteq> a" for b using M' that by simp
  obtain p where p: "entry_update a f (hg_fdb_hashes hg ! i) = Some p" "part_ok p (\<lambda>a. count M' (i, a))"
      "\<And>g. sizes_stable g \<Longrightarrow> part_use g p = part_use g (hg_fdb_hashes hg ! i)"
      "part_view p = part_view (hg_fdb_hashes hg ! i)" "ht_heap p a = Some (f e)"
    by (rule entry_update_ok [where f = f and c' = "\<lambda>a. count M' (i, a)", OF c(5) [OF i] a f cM]) auto
  define hg' where "hg' = hg\<lparr>hg_fdb_hashes := (hg_fdb_hashes hg)[i := p]\<rparr>"
  have sel: "hg_fdb_hashes hg' = (hg_fdb_hashes hg)[i := p]" "hg_size hg' = hg_size hg" "hg_now hg' = hg_now hg"
    by (simp_all add: hg'_def)
  have "group_use g ((hg_fdb_hashes hg)[i := p]) = group_use g (hg_fdb_hashes hg)" if "sizes_stable g" for g
    using group_use_update [of i "hg_fdb_hashes hg" g p] p(3) [OF that] c(1) i by simp
  then have "counted hg'" using c(4) by (simp add: counted_def hg'_def)
  moreover have "fst x < hg_size hg" if "x \<in># M'" for x
    using that c(6) [of x] M' [of x] i by (cases "x = (i, a)") (auto simp: count_greater_zero_iff [symmetric] simp del: count_greater_zero_iff)
  ultimately have "cache_ok hg' M'" using c(3) sel M' by (intro cache_ok_update [OF ok i p(2)]) simp_all
  moreover have "cache_view hg' = cache_view hg"
  proof
    fix k show "cache_view hg' k = cache_view hg k"
      using cache_view_update [of i hg hg' p k] sel i c(1) p(4) by (auto simp: cache_view_def)
  qed
  moreover have "with_partition i (entry_update a f) hg = Some hg'"
    using p(1) i c(1) by (simp add: with_partition_def hg'_def)
  ultimately show ?thesis using that sel p(5) i c(1) by simp
qed

lemma fdb_get_begin_ok:
  assumes ok: "cache_ok hg M"
  obtains h hg' where "fdb_get_begin k hg = Some (h, hg')" and "cache_ok hg' (M + (case h of None \<Rightarrow> {#} | Some x \<Rightarrow> {#x#}))"
    and "cache_view hg' = cache_view hg" and "hg_now hg' = hg_now hg" and "hg_size hg' = hg_size hg"
    and "h = None \<longrightarrow> cache_view hg k = None"
    and "\<forall>i a. h = Some (i, a) \<longrightarrow> i < hg_size hg \<and> (\<exists>e. ht_heap (hg_fdb_hashes hg' ! i) a = Some e \<and> cache_view hg k = Some (he_value e, he_expire e))"
proof -
  note c = cache_okD [OF ok]
  define i where "i = key_partition k (length k) (hg_size hg)"
  have i: "i < hg_size hg" using key_partition_lt [OF c(2)] by (simp add: i_def)
  let ?p = "hg_fdb_hashes hg ! i"
  show ?thesis
  proof (cases "map_of (ht_hash ?p) k")
    case None
    then have "fdb_get_begin k hg = Some (None, hg)" using i c(1) by (simp add: fdb_get_begin_def i_def [symmetric] Let_def)
    then show ?thesis using that [of None hg] ok None by (simp add: cache_view_def part_view_def i_def [symmetric])
  next
    case (Some a)
    obtain e where e: "ht_heap ?p a = Some e" using table_lookup [OF part_okD(3) [OF c(5) [OF i]] Some] .
    let ?f = "\<lambda>e. e\<lparr>he_ref_count := he_ref_count e + 1\<rparr>"
    have ref: "he_ref_count (?f e) = int (count (add_mset (i, a) M) (i, a))" using part_okD(5) [OF c(5) [OF i] e] by simp
    obtain hg' where hg': "with_partition i (entry_update a ?f) hg = Some hg'" "cache_ok hg' (add_mset (i, a) M)"
        "cache_view hg' = cache_view hg" "hg_now hg' = hg_now hg" "hg_size hg' = hg_size hg" "ht_heap (hg_fdb_hashes hg' ! i) a = Some (?f e)"
      by (rule with_partition_update [where f = ?f, OF ok i e _ ref]) (simp_all add: same_entry_def)
    have "fdb_get_begin k hg = Some (Some (i, a), hg')"
      using Some i c(1) hg'(1) by (simp add: fdb_get_begin_def i_def [symmetric] Let_def)
    moreover have "cache_view hg k = Some (he_value e, he_expire e)"
      using Some e by (simp add: cache_view_def part_view_def i_def [symmetric])
    ultimately show ?thesis using that [of "Some (i, a)" hg'] hg' i by simp
  qed
qed

lemma fdb_get_end_ok:
  assumes ok: "cache_ok hg M" and x: "(i, a) \<in># M"
  obtains e r hg' where "fdb_get_end (Some (i, a)) hg = Some (r, hg')" and "cache_ok hg' (M - {#(i, a)#})"
    and "cache_view hg' = cache_view hg" and "hg_now hg' = hg_now hg"
    and "ht_heap (hg_fdb_hashes hg ! i) a = Some e" and "r = (if he_expire e > hg_now hg then Some (he_value e) else None)"
proof -
  note c = cache_okD [OF ok]
  have i: "i < hg_size hg" using c(6) [OF x] by simp
  note pok = c(5) [OF i]
  have "a \<in> set (ht_array (hg_fdb_hashes hg ! i))" using part_okD(7) [OF pok, of a] x by simp
  then obtain e where e: "ht_heap (hg_fdb_hashes hg ! i) a = Some e" using part_ok_alloc [OF pok] by blast
  note ref = part_okD(5) [OF pok e] and len = part_okD(6) [OF pok e]
  obtain r hg1 e1 where g: "fdb_get_entry (i, a) hg = Some (r, hg1)" "cache_ok hg1 M" "cache_view hg1 = cache_view hg"
      "hg_now hg1 = hg_now hg" "hg_size hg1 = hg_size hg" "ht_heap (hg_fdb_hashes hg1 ! i) a = Some e1" "he_ref_count e1 = he_ref_count e"
      "r = (if he_expire e > hg_now hg then Some (he_value e) else None)"
  proof (cases "he_expire e > hg_now hg")
    case False
    then have "fdb_get_entry (i, a) hg = Some (None, hg)" using i c(1) e by (simp add: fdb_get_entry_def)
    then show ?thesis using that [of None hg e] ok e False by simp
  next
    case True
    let ?f = "\<lambda>e. if hg_now hg > he_access e then e\<lparr>he_access := hg_now hg\<rparr> else e"
    have s: "same_entry e (?f e)" "he_ref_count (?f e) = int (count M (i, a))" using ref by (simp_all add: same_entry_def)
    obtain hg1 where h: "with_partition i (entry_update a ?f) hg = Some hg1" "cache_ok hg1 M"
        "cache_view hg1 = cache_view hg" "hg_now hg1 = hg_now hg" "hg_size hg1 = hg_size hg" "ht_heap (hg_fdb_hashes hg1 ! i) a = Some (?f e)"
      by (rule with_partition_update [where f = ?f, OF ok i e s]) simp_all
    define hg2 where "hg2 = hg1\<lparr>hg_cntGetOK := hg_cntGetOK hg1 + 1, hg_dataOUT := hg_dataOUT hg1 + of_nat (length (he_value e))\<rparr>"
    have "fdb_get_entry (i, a) hg = Some (Some (he_value e), hg2)"
      using True i c(1) e len h(1) by (simp add: fdb_get_entry_def mem_read_def hg2_def)
    moreover have "cache_ok hg2 M" using h(2) by (simp add: cache_ok_def hg2_def counted_def)
    moreover have "cache_view hg2 = cache_view hg" using h(3) by (simp add: cache_view_def hg2_def fun_eq_iff)
    ultimately show ?thesis using that [of "Some (he_value e)" hg2 "?f e"] h True by (simp add: hg2_def)
  qed
  let ?f = "\<lambda>e. e\<lparr>he_ref_count := he_ref_count e - 1\<rparr>"
  have s: "same_entry e1 (?f e1)" "he_ref_count (?f e1) = int (count (M - {#(i, a)#}) (i, a))"
    using g(7) ref x by (simp_all add: same_entry_def of_nat_diff)
  have i1: "i < hg_size hg1" using i g(5) by simp
  obtain hg3 where h: "with_partition i (entry_update a ?f) hg1 = Some hg3" "cache_ok hg3 (M - {#(i, a)#})"
      "cache_view hg3 = cache_view hg1" "hg_now hg3 = hg_now hg1"
    by (rule with_partition_update [where f = ?f, OF g(2) i1 g(6) s]) simp_all
  define hg4 where "hg4 = hg3\<lparr>hg_cntGet := hg_cntGet hg3 + 1\<rparr>"
  have "fdb_get_end (Some (i, a)) hg = Some (r, hg4)" using g(1) h(1) by (simp add: fdb_get_end_def hg4_def)
  moreover have "cache_ok hg4 (M - {#(i, a)#})" using h(2) by (simp add: cache_ok_def hg4_def counted_def)
  moreover have "cache_view hg4 = cache_view hg" "hg_now hg4 = hg_now hg"
    using h(3,4) g(3,4) by (simp_all add: cache_view_def hg4_def fun_eq_iff)
  ultimately show ?thesis using that [of r hg4 e] e g(8) by blast
qed

lemma truncate_parts_ok:
  "\<forall>i < length ps. part_ok (ps ! i) (c i) \<Longrightarrow>
   \<exists>n ps'. truncate_parts ps = Some (n, ps') \<and> length ps' = length ps
     \<and> (\<forall>i < length ps. part_ok (ps' ! i) (c i) \<and> part_view (ps' ! i) = Map.empty)
     \<and> (\<forall>f. sizes_stable f \<longrightarrow> group_use f ps' = group_use f ps)"
proof (induction ps arbitrary: c)
  case Nil
  then show ?case by simp
next
  case (Cons p ps)
  obtain p' where p': "hash_remove_all p = Some p'" "part_ok p' (c 0)" "part_view p' = Map.empty"
      "\<And>f. sizes_stable f \<Longrightarrow> part_use f p' = part_use f p"
    using hash_remove_all_ok [of p "c 0"] Cons.prems by (metis length_greater_0_conv list.distinct(1) nth_Cons_0)
  have "\<forall>i < length ps. part_ok (ps ! i) (c (Suc i))" using Cons.prems by auto
  then obtain n ps' where ps': "truncate_parts ps = Some (n, ps')" "length ps' = length ps"
      "\<forall>i < length ps. part_ok (ps' ! i) (c (Suc i)) \<and> part_view (ps' ! i) = Map.empty"
      "\<forall>f. sizes_stable f \<longrightarrow> group_use f ps' = group_use f ps"
    using Cons.IH [of "\<lambda>i. c (Suc i)"] by auto
  have "part_ok ((p' # ps') ! i) (c i) \<and> part_view ((p' # ps') ! i) = Map.empty" if "i < length (p # ps)" for i
    using p' ps'(3) that by (cases i) simp_all
  then show ?case using p' ps' by (simp add: group_use_def)
qed

lemma fdb_truncate_all_ok:
  assumes ok: "cache_ok hg M"
  obtains n hg' where "fdb_truncate_all hg = Some (n, hg')" and "cache_ok hg' M" and "cache_view hg' = Map.empty"
    and "hg_now hg' = hg_now hg"
proof -
  note c = cache_okD [OF ok]
  obtain n ps where ps: "truncate_parts (hg_fdb_hashes hg) = Some (n, ps)" "length ps = hg_size hg"
      "\<forall>i < hg_size hg. part_ok (ps ! i) (\<lambda>a. count M (i, a)) \<and> part_view (ps ! i) = Map.empty"
      "\<forall>f. sizes_stable f \<longrightarrow> group_use f ps = group_use f (hg_fdb_hashes hg)"
    using truncate_parts_ok [of "hg_fdb_hashes hg" "\<lambda>i a. count M (i, a)"] c(1,5) by auto
  define hg' where "hg' = hg\<lparr>hg_fdb_hashes := ps\<rparr>"
  have "cache_ok hg' M" using ok ps(2-4) by (simp add: cache_ok_def hg'_def counted_def)
  moreover have "cache_view hg' = Map.empty"
    using ps(3) key_partition_lt [OF c(2)] by (simp add: cache_view_def hg'_def fun_eq_iff)
  ultimately show ?thesis using that ps(1) by (simp add: fdb_truncate_all_def hg'_def)
qed

lemma fold_uncount:
  "hg_size_keys (fold uncount frs hg) = hg_size_keys hg - of_nat (sum_list (map he_klen frs))"
  "hg_size_values (fold uncount frs hg) = hg_size_values hg - of_nat (sum_list (map he_length frs))"
  "hg_size_metas (fold uncount frs hg) = hg_size_metas hg - of_nat (sum_list (map (\<lambda>_. entry_meta) frs))"
  "hg_fdb_hashes (fold uncount frs hg) = hg_fdb_hashes hg" "hg_size (fold uncount frs hg) = hg_size hg"
  "hg_now (fold uncount frs hg) = hg_now hg"
  by (induction frs arbitrary: hg) (simp_all add: uncount_def)

lemma fdb_purge_ok:
  assumes ok: "cache_ok hg M" and i: "i < hg_size hg"
  obtains hg' where "fdb_purge sv i hg = Some hg'" and "cache_ok hg' M"
    and "only_expired (hg_now hg) (cache_view hg) (cache_view hg')" and "hg_now hg' = hg_now hg" and "hg_size hg' = hg_size hg"
proof -
  note c = cache_okD [OF ok]
  let ?p = "hg_fdb_hashes hg ! i"
  obtain frs p where p: "purge_partition sv (hg_now hg) ?p = Some (frs, p)" "purge_spec (hg_now hg) (\<lambda>a. count M (i, a)) ?p frs p"
    using purge_partition_ok [OF c(5) [OF i]] by blast
  define hg' where "hg' = fold uncount frs (hg\<lparr>hg_fdb_hashes := (hg_fdb_hashes hg)[i := p]\<rparr>)"
  have sel: "hg_fdb_hashes hg' = (hg_fdb_hashes hg)[i := p]" "hg_size hg' = hg_size hg" "hg_now hg' = hg_now hg"
    by (simp_all add: hg'_def fold_uncount)
  have use: "group_use f (hg_fdb_hashes hg) = group_use f ((hg_fdb_hashes hg)[i := p]) + sum_list (map f frs)" if "sizes_stable f" for f
    using group_use_update [of i "hg_fdb_hashes hg" f p] p(2) that c(1) i by (simp add: purge_spec_def)
  have "counted hg'"
    using c(4) use [of he_klen] use [of he_length] use [of "\<lambda>_. entry_meta"]
    by (simp add: counted_def hg'_def fold_uncount)
  then have "cache_ok hg' M"
    using c(3,6) sel p(2) by (intro cache_ok_update [OF ok i]) (simp_all add: purge_spec_def)
  moreover have "only_expired (hg_now hg) (cache_view hg) (cache_view hg')"
    unfolding only_expired_def
  proof
    fix k
    have "part_view p k = part_view ?p k \<or> part_view p k = None \<and> (\<exists>x y. part_view ?p k = Some (x, y) \<and> y \<le> hg_now hg)"
      using p(2) unfolding purge_spec_def only_expired_def by blast
    then show "cache_view hg' k = cache_view hg k \<or> cache_view hg' k = None \<and> (\<exists>x y. cache_view hg k = Some (x, y) \<and> y \<le> hg_now hg)"
      using cache_view_update [of i hg hg' p k] sel i c(1) by (cases "key_partition k (length k) (hg_size hg) = i") (simp_all add: cache_view_def)
  qed
  moreover have "fdb_purge sv i hg = Some hg'" using p(1) i c(1) by (simp add: fdb_purge_def hg'_def)
  ultimately show ?thesis using that sel by blast
qed

subsection \<open>Threads on the cache\<close>

text \<open>
  The steps of the threads that share the cache. A state is the cache and the entries that threads are
  about to read; the label of a step is the key it may change.
\<close>

datatype qc_label = Writes cstr | Clears | Reads

inductive qc_step ::
  "fdb_system_var \<Rightarrow> qc_label \<Rightarrow> fdb_hashes_group \<times> (nat \<times> nat) multiset \<Rightarrow> fdb_hashes_group \<times> (nat \<times> nat) multiset \<Rightarrow> bool"
  for sv where
  step_set: "a \<notin> set (ht_array (hg_fdb_hashes hg ! key_partition k (length k) (hg_size hg)))
    \<Longrightarrow> fdb_set sv a k (length k) v ttl hg = Some hg' \<Longrightarrow> qc_step sv (Writes k) (hg, M) (hg', M)"
| step_get: "fdb_get_begin k hg = Some (h, hg')
    \<Longrightarrow> qc_step sv Reads (hg, M) (hg', M + (case h of None \<Rightarrow> {#} | Some x \<Rightarrow> {#x#}))"
| step_end: "x \<in># M \<Longrightarrow> fdb_get_end (Some x) hg = Some (r, hg') \<Longrightarrow> qc_step sv Reads (hg, M) (hg', M - {#x#})"
| step_truncate: "fdb_truncate_all hg = Some (n, hg') \<Longrightarrow> qc_step sv Clears (hg, M) (hg', M)"
| step_purge: "i < hg_size hg \<Longrightarrow> fdb_purge sv i hg = Some hg' \<Longrightarrow> qc_step sv Reads (hg, M) (hg', M)"
| step_clock: "hg_now hg \<le> t \<Longrightarrow> qc_step sv Reads (hg, M) (hg\<lparr>hg_now := t\<rparr>, M)"

inductive_cases qc_stepE: "qc_step sv l (hg, M) (hg', M')"

inductive qc_run :: "fdb_system_var \<Rightarrow> fdb_hashes_group \<Rightarrow> (nat \<times> nat) multiset \<Rightarrow> bool" for sv where
  run_new: "0 < sz \<Longrightarrow> 0 < time \<Longrightarrow> qc_run sv (fdb_hashes_new sz d m time) {#}"
| run_step: "qc_run sv hg M \<Longrightarrow> qc_step sv l (hg, M) (hg', M') \<Longrightarrow> qc_run sv hg' M'"

definition spares :: "qc_label \<Rightarrow> cstr \<Rightarrow> bool" where
  "spares l k \<longleftrightarrow> l = Reads \<or> (\<exists>j. l = Writes j \<and> j \<noteq> k)"

lemma qc_step_ok:
  assumes ok: "cache_ok hg M" and st: "qc_step sv l (hg, M) (hg', M')"
  shows "cache_ok hg' M' \<and> hg_now hg \<le> hg_now hg'
    \<and> (\<forall>k v x. spares l k \<longrightarrow> cache_view hg k = Some (v, x) \<longrightarrow> hg_now hg < x \<longrightarrow> cache_view hg' k = Some (v, x))"
  using st
proof (cases rule: qc_step.cases)
  case (step_set a k v ttl)
  obtain h where "fdb_set sv a k (length k) v ttl hg = Some h" "cache_ok h M"
      "cache_view h = (cache_view hg)(k \<mapsto> (v, entry_expire sv hg ttl))" "hg_now h = hg_now hg"
    using fdb_set_ok [OF ok refl step_set(3)] .
  then show ?thesis using step_set(1,2,4) by (simp add: spares_def)
next
  case (step_get k h)
  obtain h2 hg2 where "fdb_get_begin k hg = Some (h2, hg2)" "cache_ok hg2 (M + (case h2 of None \<Rightarrow> {#} | Some x \<Rightarrow> {#x#}))"
      "cache_view hg2 = cache_view hg" "hg_now hg2 = hg_now hg"
    by (rule fdb_get_begin_ok [OF ok])
  then show ?thesis using step_get(2,3) by simp
next
  case (step_end x r)
  have x: "(fst x, snd x) \<in># M" using step_end(3) by simp
  obtain r2 hg2 where "fdb_get_end (Some (fst x, snd x)) hg = Some (r2, hg2)" "cache_ok hg2 (M - {#(fst x, snd x)#})"
      "cache_view hg2 = cache_view hg" "hg_now hg2 = hg_now hg"
    by (rule fdb_get_end_ok [OF ok x])
  then show ?thesis using step_end(2,4) by simp
next
  case (step_truncate n)
  obtain n2 hg2 where "fdb_truncate_all hg = Some (n2, hg2)" "cache_ok hg2 M" "hg_now hg2 = hg_now hg"
    by (rule fdb_truncate_all_ok [OF ok])
  then show ?thesis using step_truncate by (simp add: spares_def)
next
  case (step_purge i)
  obtain hg2 where h: "fdb_purge sv i hg = Some hg2" "cache_ok hg2 M"
      "only_expired (hg_now hg) (cache_view hg) (cache_view hg2)" "hg_now hg2 = hg_now hg"
    by (rule fdb_purge_ok [OF ok step_purge(3)])
  have "cache_view hg2 k = Some (v, x)" if "cache_view hg k = Some (v, x)" "hg_now hg < x" for k v x
    using h(3) that unfolding only_expired_def by (metis leD option.inject prod.inject)
  then show ?thesis using step_purge(2,4) h by simp
next
  case (step_clock t)
  then show ?thesis using ok by (simp add: cache_ok_def counted_def cache_view_def)
qed

subsection \<open>The contract of a cache with expiration\<close>

text \<open>
  What a client relies on: a value that has not expired survives every step that does not write its key
  or clear the cache.
\<close>

locale ttl_cache =
  fixes step :: "'l \<Rightarrow> 's \<Rightarrow> 's \<Rightarrow> bool" and ok :: "'s \<Rightarrow> bool"
    and view :: "'s \<Rightarrow> 'k \<Rightarrow> ('v \<times> int) option" and clock :: "'s \<Rightarrow> int" and harmless :: "'l \<Rightarrow> 'k \<Rightarrow> bool"
  assumes keeps_ok: "ok s \<Longrightarrow> step l s s' \<Longrightarrow> ok s'"
    and clock_advances: "ok s \<Longrightarrow> step l s s' \<Longrightarrow> clock s \<le> clock s'"
    and keeps_view: "ok s \<Longrightarrow> step l s s' \<Longrightarrow> harmless l k \<Longrightarrow> view s k = Some (v, x) \<Longrightarrow> clock s < x \<Longrightarrow> view s' k = Some (v, x)"
begin

lemma value_survives:
  assumes "(\<lambda>s s'. \<exists>l. harmless l k \<and> step l s s')\<^sup>*\<^sup>* s s'"
  shows "ok s \<Longrightarrow> view s k = Some (v, x) \<Longrightarrow> clock s' < x \<Longrightarrow> ok s' \<and> clock s \<le> clock s' \<and> view s' k = Some (v, x)"
  using assms
proof (induction rule: converse_rtranclp_induct)
  case base
  then show ?case by simp
next
  case (step s s1)
  then obtain l where l: "harmless l k" "step l s s1" by blast
  have ok1: "ok s1" and cl: "clock s \<le> clock s1" using keeps_ok clock_advances step.prems(1) l(2) by blast+
  have mono: "clock a \<le> clock b" if "(\<lambda>s s'. \<exists>l. harmless l k \<and> step l s s')\<^sup>*\<^sup>* a b" "ok a" for a b
    using that by (induction rule: converse_rtranclp_induct) (use keeps_ok clock_advances order_trans in blast)+
  have "clock s1 \<le> clock s'" using mono [OF step.hyps(2) ok1] .
  then have "view s1 k = Some (v, x)" using keeps_view [OF step.prems(1) l(2,1)] step.prems(2,3) cl by simp
  then show ?case using step.IH ok1 step.prems(3) cl by auto
qed

end

interpretation qc: ttl_cache "qc_step sv" "\<lambda>(hg, M). cache_ok hg M" "\<lambda>(hg, M). cache_view hg" "\<lambda>(hg, M). hg_now hg" spares
proof (unfold_locales; clarsimp)
  show "cache_ok hg' M'" if "cache_ok hg M" "qc_step sv l (hg, M) (hg', M')" for hg M l hg' M'
    using qc_step_ok [OF that] by blast
  show "hg_now hg \<le> hg_now hg'" if "cache_ok hg M" "qc_step sv l (hg, M) (hg', M')" for hg M l hg' M'
    using qc_step_ok [OF that] by blast
  show "cache_view hg' k = Some (v, x)"
    if "cache_ok hg M" "qc_step sv l (hg, M) (hg', M')" "spares l k" "cache_view hg k = Some (v, x)" "hg_now hg < x" for hg M l hg' M' k v x
    using qc_step_ok [OF that(1,2)] that(3-5) by blast
qed

lemma cache_ok_new: "0 < sz \<Longrightarrow> 0 < time \<Longrightarrow> cache_ok (fdb_hashes_new sz d m time) {#}"
proof -
  have "part_use f new_partition = 0" for f by (simp add: part_use_def entries_def new_partition_def)
  then have "group_use f (replicate n new_partition) = 0" for f n by (induction n) (simp_all add: group_use_def)
  then show "0 < sz \<Longrightarrow> 0 < time \<Longrightarrow> cache_ok (fdb_hashes_new sz d m time) {#}"
    using new_partition_ok by (simp add: cache_ok_def fdb_hashes_new_def counted_def)
qed

lemma qc_run_ok: "qc_run sv hg M \<Longrightarrow> cache_ok hg M"
  by (induction rule: qc_run.induct) (use cache_ok_new qc_step_ok in blast)+

lemma fdb_get_result:
  assumes ok: "cache_ok hg M"
  obtains hg' where "fdb_get k hg = Some (case cache_view hg k of None \<Rightarrow> None | Some (v, x) \<Rightarrow> if x > hg_now hg then Some v else None, hg')"
    and "cache_ok hg' M" and "cache_view hg' = cache_view hg"
proof -
  obtain h hg1 where b: "fdb_get_begin k hg = Some (h, hg1)" "cache_ok hg1 (M + (case h of None \<Rightarrow> {#} | Some x \<Rightarrow> {#x#}))"
      "cache_view hg1 = cache_view hg" "hg_now hg1 = hg_now hg" "hg_size hg1 = hg_size hg" "h = None \<longrightarrow> cache_view hg k = None"
      "\<forall>i a. h = Some (i, a) \<longrightarrow> i < hg_size hg \<and> (\<exists>e. ht_heap (hg_fdb_hashes hg1 ! i) a = Some e \<and> cache_view hg k = Some (he_value e, he_expire e))"
    by (rule fdb_get_begin_ok [OF ok, of k])
  show ?thesis
  proof (cases h)
    case None
    define hg2 where "hg2 = hg1\<lparr>hg_cntGet := hg_cntGet hg1 + 1\<rparr>"
    have "fdb_get k hg = Some (None, hg2)" using b(1) None by (simp add: fdb_get_def fdb_get_end_def hg2_def)
    moreover have "cache_ok hg2 M" using b(2) None by (simp add: cache_ok_def hg2_def counted_def)
    moreover have "cache_view hg2 = cache_view hg" using b(3) by (simp add: cache_view_def hg2_def fun_eq_iff)
    ultimately show ?thesis using that b(6) None by simp
  next
    case (Some ia)
    obtain i a where ia: "ia = (i, a)" by force
    obtain e where e: "ht_heap (hg_fdb_hashes hg1 ! i) a = Some e" "cache_view hg k = Some (he_value e, he_expire e)"
      using b(7) Some ia by blast
    have ok1: "cache_ok hg1 (add_mset (i, a) M)" and m: "(i, a) \<in># add_mset (i, a) M" using b(2) Some ia by simp_all
    obtain e2 r hg2 where g: "fdb_get_end (Some (i, a)) hg1 = Some (r, hg2)" "cache_ok hg2 (add_mset (i, a) M - {#(i, a)#})"
        "cache_view hg2 = cache_view hg1" "ht_heap (hg_fdb_hashes hg1 ! i) a = Some e2"
        "r = (if he_expire e2 > hg_now hg1 then Some (he_value e2) else None)"
      by (rule fdb_get_end_ok [OF ok1 m])
    have "fdb_get k hg = Some (r, hg2)" using b(1) Some ia g(1) by (simp add: fdb_get_def)
    then show ?thesis using that [of hg2] g b(3,4) e by simp
  qed
qed

text \<open>The purge visits indices above zero only: the first entry of a partition is never freed.\<close>

lemma purge_entry_first:
  assumes "purge_entry t idx p = Some (fr, p')" and "0 < idx"
  shows "ht_array p' \<noteq> [] \<and> ht_array p' ! 0 = ht_array p ! 0"
proof -
  have a: "idx < length (ht_array p) \<and> (ht_array p' = ht_array p \<or> ht_array p' = remove_index_fast idx (ht_array p))"
    using assms(1)
    by (auto simp: purge_entry_def hash_remove_def hash_value_destroy_func_def Let_def
        split: if_splits Option.bind_splits option.splits)
  have "length (ht_array p) - 1 \<le> length (ht_array p')" using a by auto
  then have "0 < length (ht_array p')" using a assms(2) by linarith
  moreover have "ht_array p' ! 0 = ht_array p ! 0"
    using a assms(2) by (elim conjE disjE) (auto simp: remove_index_fast_def nth_butlast)
  ultimately show ?thesis by simp
qed

lemma purge_loop_first:
  "purge_loop t m n p = Some (fr, p') \<Longrightarrow> 0 \<le> m \<Longrightarrow> ht_array p \<noteq> [] \<Longrightarrow> ht_array p' \<noteq> [] \<and> ht_array p' ! 0 = ht_array p ! 0"
proof (induction n arbitrary: p fr)
  case (Suc idx)
  show ?case
  proof (cases "int idx > m")
    case True
    obtain fr1 p1 frs where p1: "purge_entry t idx (p\<lparr>ht_purgeIdx := idx\<rparr>) = Some (fr1, p1)"
        "purge_loop t m idx p1 = Some (frs, p')"
      using Suc.prems(1) True by (auto split: Option.bind_splits)
    have "ht_array p1 \<noteq> [] \<and> ht_array p1 ! 0 = ht_array p ! 0"
      using purge_entry_first [OF p1(1)] True Suc.prems(2) by simp
    then show ?thesis using Suc.IH [OF p1(2) Suc.prems(2)] by simp
  qed (use Suc.prems in auto)
qed simp

lemma first_entry_stays:
  assumes "purge_partition sv t p = Some (fr, p')" and "ht_array p \<noteq> []"
  shows "ht_array p' \<noteq> [] \<and> ht_array p' ! 0 = ht_array p ! 0"
proof -
  have arr: "ht_array (purge_start sv p) = ht_array p" by (simp add: purge_start_def Let_def)
  have m: "0 \<le> purge_min_idx (purge_start sv p)" by (simp add: purge_min_idx_def Let_def)
  then show ?thesis
    using assms purge_loop_first [OF _ m] arr by (auto simp: purge_partition_def Let_def split: if_splits)
qed

subsection \<open>Properties\<close>

text \<open>A small cache for the examples: one partition, clock at 1.\<close>

definition sample_sv :: fdb_system_var where
  "sample_sv = \<lparr>sv_hash_purge_time = 1000, sv_hash_purge_loop = 100, sv_hash_expire_max = 315360000, sv_purge_threshold_pct_min = 50\<rparr>"

definition sample_key :: cstr where
  "sample_key = [1, 2]"

definition sample_cache :: fdb_hashes_group where
  "sample_cache = fdb_hashes_new 1 10 1000 1"

definition sample_filled :: fdb_hashes_group where
  "sample_filled = the (fdb_set sample_sv 7 sample_key (length sample_key) [3, 4, 5] 20 sample_cache)"

lemma sample_run: "qc_run sample_sv sample_cache {#}"
  unfolding sample_cache_def by (rule run_new) simp_all

lemma sample_array: "ht_array (hg_fdb_hashes sample_cache ! key_partition k l (hg_size sample_cache)) = []"
  by (simp add: sample_cache_def fdb_hashes_new_def new_partition_def key_partition_def)

lemma sample_set: "fdb_set sample_sv 7 sample_key (length sample_key) [3, 4, 5] 20 sample_cache = Some sample_filled"
proof -
  obtain h where "fdb_set sample_sv 7 sample_key (length sample_key) [3, 4, 5] 20 sample_cache = Some h"
    using fdb_set_ok [OF qc_run_ok [OF sample_run] refl, of 7 sample_key] sample_array by (metis empty_iff empty_set)
  then show ?thesis unfolding sample_filled_def by simp
qed

lemma sample_filled_run: "qc_run sample_sv sample_filled {#}"
  using run_step [OF sample_run step_set [where a = 7 and k = sample_key and v = "[3, 4, 5]" and ttl = 20]]
    sample_set sample_array by simp

lemma sample_expire: "entry_expire sample_sv sample_cache 20 = 21" "hg_now sample_filled = 1" "hg_size sample_filled = 1"
  "cache_view sample_filled sample_key = Some ([3, 4, 5], 21)"
  by (simp_all add: entry_expire_def new_entry_def sample_cache_def sample_filled_def sample_sv_def fdb_hashes_new_def fdb_set_def
      with_partition_def key_partition_def insert_entry_def hash_replace_def hash_remove_def new_partition_def cache_view_def part_view_def sample_key_def)


text \<open>
  C6. No use after free: in every state that the threads reach together, the thread that goes on with
  \<^verbatim>\<open>fdb_get\<close> finds its entry allocated, and every other operation works on allocated entries only.
\<close>

theorem cache_no_use_after_free:
  assumes "qc_run sv hg M"
  shows "(\<forall>x \<in># M. fdb_get_end (Some x) hg \<noteq> None) \<and> fdb_get_begin k hg \<noteq> None \<and> fdb_truncate_all hg \<noteq> None
    \<and> (\<forall>i < hg_size hg. fdb_purge sv i hg \<noteq> None)
    \<and> (\<forall>a. a \<notin> set (ht_array (hg_fdb_hashes hg ! key_partition k (length k) (hg_size hg)))
         \<longrightarrow> fdb_set sv a k (length k) v ttl hg \<noteq> None)"
proof -
  have ok: "cache_ok hg M" by (rule qc_run_ok [OF assms])
  have "fdb_get_end (Some x) hg \<noteq> None" if "x \<in># M" for x
  proof -
    have "(fst x, snd x) \<in># M" using that by simp
    then obtain r h where "fdb_get_end (Some (fst x, snd x)) hg = Some (r, h)" using fdb_get_end_ok [OF ok] by blast
    then show ?thesis by simp
  qed
  moreover have "fdb_get_begin k hg \<noteq> None" using fdb_get_begin_ok [OF ok, of k] by (metis option.distinct(1))
  moreover have "fdb_truncate_all hg \<noteq> None" using fdb_truncate_all_ok [OF ok] by blast
  moreover have "fdb_purge sv i hg \<noteq> None" if "i < hg_size hg" for i using fdb_purge_ok [OF ok that] by (metis option.distinct(1))
  moreover have "fdb_set sv a k (length k) v ttl hg \<noteq> None"
    if "a \<notin> set (ht_array (hg_fdb_hashes hg ! key_partition k (length k) (hg_size hg)))" for a
    using fdb_set_ok [OF ok refl that] by (metis option.distinct(1))
  ultimately show ?thesis by blast
qed

theorem cache_no_use_after_free_witness:
  "\<exists>hg x. qc_run sample_sv hg {#x#} \<and> fdb_get_end (Some x) hg \<noteq> None"
proof -
  obtain h hg where b: "fdb_get_begin sample_key sample_filled = Some (h, hg)" "h = None \<longrightarrow> cache_view sample_filled sample_key = None"
    by (rule fdb_get_begin_ok [OF qc_run_ok [OF sample_filled_run], of sample_key])
  then obtain x where x: "h = Some x" using sample_expire(4) by auto
  have r: "qc_run sample_sv hg {#x#}" using run_step [OF sample_filled_run step_get [OF b(1)]] x by simp
  have "fdb_get_end (Some x) hg \<noteq> None"
    using cache_no_use_after_free [OF r, THEN conjunct1] by (meson union_single_eq_member)
  with r show ?thesis by blast
qed



text \<open>
  C15. The cache serves what was put in it: after \<^verbatim>\<open>fdb_set\<close>, whatever the threads do short of setting the
  same key or flushing the cache, \<^verbatim>\<open>fdb_get\<close> returns the value until it expires.
\<close>

theorem cached_value_served:
  assumes "qc_run sv hg M" and "a \<notin> set (ht_array (hg_fdb_hashes hg ! key_partition k (length k) (hg_size hg)))"
    and "fdb_set sv a k (length k) v ttl hg = Some hg1"
    and "(\<lambda>s s'. \<exists>l. spares l k \<and> qc_step sv l s s')\<^sup>*\<^sup>* (hg1, M) (hg2, M2)"
    and "hg_now hg2 < entry_expire sv hg ttl"
  shows "\<exists>hg3. fdb_get k hg2 = Some (Some v, hg3)"
proof -
  obtain h where "fdb_set sv a k (length k) v ttl hg = Some h" "cache_ok h M"
      "cache_view h = (cache_view hg)(k \<mapsto> (v, entry_expire sv hg ttl))" "hg_now h = hg_now hg"
    using fdb_set_ok [OF qc_run_ok [OF assms(1)] refl assms(2)] .
  then have h: "cache_ok hg1 M" "cache_view hg1 k = Some (v, entry_expire sv hg ttl)" using assms(3) by simp_all
  from qc.value_survives [OF assms(4), of v "entry_expire sv hg ttl"] h assms(5)
  have "cache_ok hg2 M2" "cache_view hg2 k = Some (v, entry_expire sv hg ttl)" by simp_all
  then show ?thesis using fdb_get_result [of hg2 M2 k] assms(5) by auto
qed

theorem cached_value_served_witness:
  "\<exists>hg. fdb_get sample_key (sample_filled\<lparr>hg_now := 9\<rparr>) = Some (Some [3, 4, 5], hg)"
proof -
  have "qc_step sample_sv Reads (sample_filled, {#}) (sample_filled\<lparr>hg_now := 9\<rparr>, {#})"
    using sample_expire(2) by (intro step_clock) simp
  then have "(\<lambda>s s'. \<exists>l. spares l sample_key \<and> qc_step sample_sv l s s')\<^sup>*\<^sup>* (sample_filled, {#}) (sample_filled\<lparr>hg_now := 9\<rparr>, {#})"
    by (intro r_into_rtranclp) (auto simp: spares_def)
  then show ?thesis
    using cached_value_served [OF sample_run, of 7 sample_key "[3, 4, 5]" 20 sample_filled] sample_set sample_array sample_expire by simp
qed

text \<open>
  C13. Refinement: seen through \<open>cache_view\<close> the cache is a map from keys to values with an expiration
  time. \<^verbatim>\<open>fdb_get\<close> reads the map, \<^verbatim>\<open>fdb_set\<close> updates it at the key, \<^verbatim>\<open>fdb_truncate_all\<close> empties it, and the
  purge only removes keys that have expired.
\<close>

theorem cache_refines_map:
  assumes "qc_run sv hg M"
    and "a \<notin> set (ht_array (hg_fdb_hashes hg ! key_partition k (length k) (hg_size hg)))" and "i < hg_size hg"
  shows "map_option fst (fdb_get k hg) = Some (case cache_view hg k of None \<Rightarrow> None | Some (v, x) \<Rightarrow> if x > hg_now hg then Some v else None)
    \<and> map_option cache_view (fdb_set sv a k (length k) v ttl hg) = Some ((cache_view hg)(k \<mapsto> (v, entry_expire sv hg ttl)))
    \<and> map_option (cache_view \<circ> snd) (fdb_truncate_all hg) = Some Map.empty
    \<and> (\<exists>hg'. fdb_purge sv i hg = Some hg' \<and> (\<forall>k. cache_view hg' k = cache_view hg k
          \<or> cache_view hg' k = None \<and> (\<exists>v x. cache_view hg k = Some (v, x) \<and> x \<le> hg_now hg)))"
proof -
  have ok: "cache_ok hg M" by (rule qc_run_ok [OF assms(1)])
  obtain h1 where "fdb_get k hg = Some (case cache_view hg k of None \<Rightarrow> None | Some (v, x) \<Rightarrow> if x > hg_now hg then Some v else None, h1)"
    using fdb_get_result [OF ok] by blast
  moreover obtain h2 where "fdb_set sv a k (length k) v ttl hg = Some h2" "cache_view h2 = (cache_view hg)(k \<mapsto> (v, entry_expire sv hg ttl))"
    using fdb_set_ok [OF ok refl assms(2)] by blast
  moreover obtain n h3 where "fdb_truncate_all hg = Some (n, h3)" "cache_view h3 = Map.empty"
    using fdb_truncate_all_ok [OF ok] by blast
  moreover obtain h4 where "fdb_purge sv i hg = Some h4" "only_expired (hg_now hg) (cache_view hg) (cache_view h4)"
    using fdb_purge_ok [OF ok assms(3)] by blast
  ultimately show ?thesis by (simp add: only_expired_def)
qed

theorem cache_refines_map_witness:
  "map_option fst (fdb_get sample_key sample_filled) = Some (Some [3, 4, 5]) \<and> map_option fst (fdb_get [6] sample_cache) = Some None"
proof -
  have "9 \<notin> set (ht_array (hg_fdb_hashes sample_filled ! key_partition sample_key (length sample_key) (hg_size sample_filled)))"
    by (simp add: sample_cache_def sample_filled_def sample_sv_def fdb_hashes_new_def fdb_set_def new_entry_def
      with_partition_def key_partition_def insert_entry_def hash_replace_def hash_remove_def new_partition_def sample_key_def)
  then have "map_option fst (fdb_get sample_key sample_filled) = Some (Some [3, 4, 5])"
    using cache_refines_map [OF sample_filled_run, of 9 sample_key 0] sample_expire by simp
  moreover have "cache_view sample_cache [6] = None"
    by (simp add: sample_cache_def fdb_hashes_new_def cache_view_def part_view_def new_partition_def key_partition_def)
  then have "map_option fst (fdb_get [6] sample_cache) = Some None"
    using cache_refines_map [OF sample_run, of 9 "[6]" 0] sample_array by (simp add: sample_cache_def fdb_hashes_new_def)
  ultimately show ?thesis by blast
qed

end
