(* ===== verification/Servers.thy ===== *)
theory Servers
  imports DataStream
begin

section \<open>Servers and hostgroups\<close>

text \<open>
  The tables of backend servers: \<^verbatim>\<open>glomysrvs\<close> of \<^verbatim>\<open>include/structs.h\<close> with the functions of
  \<^verbatim>\<open>src/mysql_handler.c\<close> that search and extend it, its initialisation and the reading of the server
  list in \<^verbatim>\<open>src/global_variables.c\<close>.

  Servers and the entries of hostgroups (\<^verbatim>\<open>MSHGE\<close>) are shared by all sessions through pointers. They
  have addresses here; \<open>gs_heap\<close> and \<open>gs_mshge\<close> map the addresses of the allocated ones to their
  contents, and new addresses are arguments. \<open>None\<close> is a failed \<^verbatim>\<open>assert\<close>, an index out of range or a
  dangling pointer. The invariant \<open>srv_ok\<close> says that every entry of a hostgroup leads to a server of the
  list.
\<close>

datatype server_status = OFFLINE_HARD | OFFLINE_SOFT | SHUNNED | ONLINE

record mysql_server =
  sr_address :: cstr
  sr_port :: nat
  sr_read_only :: int
  sr_status :: server_status

record mshge =
  mh_MSptr :: nat
  mh_connections_created :: int
  mh_connections_active :: int
  mh_server_bytes :: bytes_stats

record glomysrvs =
  gs_servers :: "nat list"
  gs_heap :: "nat \<Rightarrow> mysql_server option"
  gs_hostgroups :: "nat list list"
  gs_mshge :: "nat \<Rightarrow> mshge option"
  gs_connections :: "nat list" \<comment> \<open>the registered sessions\<close>
  gs_connections_cur :: "32 word"

definition init_glomysrvs :: "nat \<Rightarrow> glomysrvs" where
  "init_glomysrvs mysql_hostgroups =
     \<lparr>gs_servers = [], gs_heap = Map.empty, gs_hostgroups = replicate mysql_hostgroups [], gs_mshge = Map.empty,
      gs_connections = [], gs_connections_cur = 0\<rparr>"

text \<open>The address of the first server with this address and port, \<open>Some None\<close> if there is none.\<close>

fun find_server :: "(nat \<Rightarrow> mysql_server option) \<Rightarrow> nat list \<Rightarrow> cstr \<Rightarrow> nat \<Rightarrow> nat option option" where
  "find_server h [] address port = Some None"
| "find_server h (a # as) address port =
     do { ms \<leftarrow> h a;
          if sr_port ms = port \<and> sr_address ms = address then Some (Some a) else find_server h as address port }"

definition find_server_ptr :: "glomysrvs \<Rightarrow> cstr \<Rightarrow> nat \<Rightarrow> nat option option" where
  "find_server_ptr gs address port = find_server (gs_heap gs) (gs_servers gs) address port"

definition mysql_server_entry_create :: "nat \<Rightarrow> cstr \<Rightarrow> nat \<Rightarrow> int \<Rightarrow> server_status \<Rightarrow> glomysrvs \<Rightarrow> glomysrvs" where
  "mysql_server_entry_create a address port read_only status gs =
     gs\<lparr>gs_heap := (gs_heap gs)(a \<mapsto> \<lparr>sr_address = address, sr_port = port, sr_read_only = read_only, sr_status = status\<rparr>)\<rparr>"

definition mysql_server_entry_add :: "nat \<Rightarrow> glomysrvs \<Rightarrow> glomysrvs" where
  "mysql_server_entry_add a gs = gs\<lparr>gs_servers := gs_servers gs @ [a]\<rparr>"

definition mysql_server_entry_add_hostgroup :: "nat \<Rightarrow> nat \<Rightarrow> nat \<Rightarrow> int \<Rightarrow> glomysrvs \<Rightarrow> glomysrvs option" where
  "mysql_server_entry_add_hostgroup mysql_hostgroups m MSptr hostgroup_id gs =
     (if hostgroup_id \<ge> int mysql_hostgroups then Some gs
      else if hostgroup_id < 0 \<or> nat hostgroup_id \<ge> length (gs_hostgroups gs) then None
      else let i = nat hostgroup_id
           in Some (gs\<lparr>gs_mshge := (gs_mshge gs)(m \<mapsto> \<lparr>mh_MSptr = MSptr, mh_connections_created = 0,
                         mh_connections_active = 0, mh_server_bytes = \<lparr>bs_recv = 0, bs_sent = 0\<rparr>\<rparr>),
                       gs_hostgroups := (gs_hostgroups gs)[i := gs_hostgroups gs ! i @ [m]]\<rparr>))"

text \<open>\<open>rnd\<close> is the result of \<^verbatim>\<open>rand()\<close>.\<close>

definition mysql_server_random_entry_from_hostgroup :: "nat \<Rightarrow> nat \<Rightarrow> int \<Rightarrow> glomysrvs \<Rightarrow> nat option option" where
  "mysql_server_random_entry_from_hostgroup mysql_hostgroups rnd hostgroup_id gs =
     (if \<not> hostgroup_id < int mysql_hostgroups then None
      else if hostgroup_id < 0 \<or> nat hostgroup_id \<ge> length (gs_hostgroups gs) then None
      else let hg = gs_hostgroups gs ! nat hostgroup_id
           in if hg = [] then Some None else Some (Some (hg ! (rnd mod length hg))))"

subsection \<open>The server list of the configuration file\<close>

text \<open>
  \<^verbatim>\<open>sscanf\<close> with \<^verbatim>\<open>%s\<close> skips white space and reads a word; \<^verbatim>\<open>atoi\<close> reads an optional sign and
  digits, here for the digits of a port.
\<close>

definition is_blank :: "byte \<Rightarrow> bool" where
  "is_blank c \<longleftrightarrow> c = 32 \<or> 9 \<le> c \<and> c \<le> 13"

definition scan_word :: "cstr \<Rightarrow> cstr \<times> cstr" where
  "scan_word s = (let s = dropWhile is_blank s in (takeWhile (\<lambda>c. \<not> is_blank c) s, dropWhile (\<lambda>c. \<not> is_blank c) s))"

definition digits_value :: "cstr \<Rightarrow> nat" where
  "digits_value s = foldl (\<lambda>n c. 10 * n + (unat c - 48)) 0 (takeWhile (\<lambda>c. 48 \<le> c \<and> c \<le> 57) s)"

definition c_atoi :: "cstr \<Rightarrow> int" where
  "c_atoi s = (case dropWhile is_blank s of
       [] \<Rightarrow> 0
     | c # s' \<Rightarrow> if c = 45 then - int (digits_value s') else if c = 43 then int (digits_value s') else int (digits_value (c # s')))"

text \<open>\<^verbatim>\<open>host:port\<close>, or a host with the default port; the port is stored in 16 bits.\<close>

definition parse_server_name :: "cstr \<Rightarrow> cstr \<times> nat" where
  "parse_server_name name =
     (if 58 \<in> set name
      then let blanked = takeWhile (\<lambda>c. c \<noteq> 58) name @ 32 # tl (dropWhile (\<lambda>c. c \<noteq> 58) name);
               (s, rest) = scan_word blanked; (p, _) = scan_word rest
           in (s, nat (c_atoi p mod 65536))
      else (name, 3306))"

text \<open>
  One name of the list. \<open>alive\<close> is \<^verbatim>\<open>mysql_check_alive_and_read_only\<close>, which asks the server; \<open>a\<close> is the
  address of the structure, freed again if the server is known.
\<close>

definition load_server :: "(cstr \<Rightarrow> nat \<Rightarrow> int) \<Rightarrow> nat \<Rightarrow> cstr \<Rightarrow> glomysrvs \<Rightarrow> glomysrvs option" where
  "load_server alive a name gs =
     (let (address, port) = parse_server_name name
      in do {
           mst \<leftarrow> find_server_ptr gs address port;
           case mst of
             Some _ \<Rightarrow> Some gs
           | None \<Rightarrow>
               let ro = alive address port
               in Some (mysql_server_entry_add a
                    (mysql_server_entry_create a address port (if ro \<ge> 0 then ro else 0) (if ro \<ge> 0 then ONLINE else OFFLINE_HARD) gs))
         })"

fun load_mysql_servers_list_from_file :: "(cstr \<Rightarrow> nat \<Rightarrow> int) \<Rightarrow> (nat \<times> cstr) list \<Rightarrow> glomysrvs \<Rightarrow> glomysrvs option" where
  "load_mysql_servers_list_from_file alive [] gs = Some gs"
| "load_mysql_servers_list_from_file alive ((a, name) # names) gs =
     do { gs \<leftarrow> load_server alive a name gs; load_mysql_servers_list_from_file alive names gs }"

subsection \<open>Invariant\<close>

definition srv_ok :: "nat \<Rightarrow> glomysrvs \<Rightarrow> bool" where
  "srv_ok n gs \<longleftrightarrow> length (gs_hostgroups gs) = n \<and> distinct (gs_servers gs)
     \<and> (\<forall>a \<in> set (gs_servers gs). gs_heap gs a \<noteq> None)
     \<and> (\<forall>hg \<in> set (gs_hostgroups gs). \<forall>m \<in> set hg. \<exists>e. gs_mshge gs m = Some e \<and> mh_MSptr e \<in> set (gs_servers gs))
     \<and> (\<forall>m e. gs_mshge gs m = Some e \<longrightarrow> mh_MSptr e \<in> set (gs_servers gs))"

definition server_keys :: "glomysrvs \<Rightarrow> (cstr \<times> nat) list" where
  "server_keys gs = map (\<lambda>a. let ms = the (gs_heap gs a) in (sr_address ms, sr_port ms)) (gs_servers gs)"

lemma srv_ok_init: "srv_ok n (init_glomysrvs n)"
  by (simp add: srv_ok_def init_glomysrvs_def)

lemma find_server_spec:
  "\<forall>a \<in> set as. h a \<noteq> None \<Longrightarrow>
   \<exists>r. find_server h as address port = Some r
     \<and> (r = None \<longleftrightarrow> (\<forall>a \<in> set as. \<forall>ms. h a = Some ms \<longrightarrow> (sr_address ms, sr_port ms) \<noteq> (address, port)))
     \<and> (\<forall>a. r = Some a \<longrightarrow> a \<in> set as \<and> (\<exists>ms. h a = Some ms \<and> sr_address ms = address \<and> sr_port ms = port))"
  by (induction as) (auto split: Option.bind_splits)

lemma find_server_ptr_spec:
  assumes "srv_ok n gs"
  obtains r where "find_server_ptr gs address port = Some r"
    and "r = None \<longleftrightarrow> (address, port) \<notin> set (server_keys gs)"
    and "\<And>a. r = Some a \<Longrightarrow> a \<in> set (gs_servers gs) \<and> (\<exists>ms. gs_heap gs a = Some ms \<and> sr_address ms = address \<and> sr_port ms = port)"
proof -
  have al: "\<forall>a \<in> set (gs_servers gs). gs_heap gs a \<noteq> None" using assms by (simp add: srv_ok_def)
  obtain r where r: "find_server (gs_heap gs) (gs_servers gs) address port = Some r"
      "r = None \<longleftrightarrow> (\<forall>a \<in> set (gs_servers gs). \<forall>ms. gs_heap gs a = Some ms \<longrightarrow> (sr_address ms, sr_port ms) \<noteq> (address, port))"
      "\<forall>a. r = Some a \<longrightarrow> a \<in> set (gs_servers gs) \<and> (\<exists>ms. gs_heap gs a = Some ms \<and> sr_address ms = address \<and> sr_port ms = port)"
    using find_server_spec [OF al, of address port] by (elim exE conjE) (rule that)
  have "r = None \<longleftrightarrow> (address, port) \<notin> set (server_keys gs)"
    using r(2) al by (fastforce simp: server_keys_def Let_def image_iff)
  then show ?thesis using that [of r] r(1,3) by (simp add: find_server_ptr_def)
qed

lemma load_server_ok:
  assumes ok: "srv_ok n gs" and d: "distinct (server_keys gs)" and a: "gs_heap gs a = None"
  obtains gs' where "load_server alive a name gs = Some gs'" and "srv_ok n gs'" and "distinct (server_keys gs')"
    and "set (server_keys gs') = insert (parse_server_name name) (set (server_keys gs))"
    and "dom (gs_heap gs') \<subseteq> insert a (dom (gs_heap gs))"
proof -
  obtain address port where nm: "parse_server_name name = (address, port)" by force
  obtain r where r: "find_server_ptr gs address port = Some r" "r = None \<longleftrightarrow> (address, port) \<notin> set (server_keys gs)"
    using find_server_ptr_spec [OF ok] by blast
  show ?thesis
  proof (cases r)
    case (Some b)
    then have "load_server alive a name gs = Some gs" using r(1) nm by (simp add: load_server_def)
    moreover have "set (server_keys gs) = insert (address, port) (set (server_keys gs))" using r(2) Some by auto
    ultimately show ?thesis using that [of gs] ok d nm by (simp add: subset_insertI)
  next
    case None
    define ms where "ms = \<lparr>sr_address = address, sr_port = port, sr_read_only = (if alive address port \<ge> 0 then alive address port else 0),
      sr_status = (if alive address port \<ge> 0 then ONLINE else OFFLINE_HARD)\<rparr>"
    define gs' where "gs' = gs\<lparr>gs_heap := (gs_heap gs)(a \<mapsto> ms), gs_servers := gs_servers gs @ [a]\<rparr>"
    have na: "a \<notin> set (gs_servers gs)" using ok a by (auto simp: srv_ok_def)
    have "load_server alive a name gs = Some gs'"
      using r(1) None nm by (simp add: load_server_def mysql_server_entry_add_def mysql_server_entry_create_def gs'_def ms_def Let_def)
    moreover have keys: "server_keys gs' = server_keys gs @ [(address, port)]"
      using na by (auto simp: server_keys_def gs'_def ms_def Let_def)
    moreover have "srv_ok n gs'"
      using ok na unfolding srv_ok_def gs'_def by (auto; blast)
    moreover have "dom (gs_heap gs') \<subseteq> insert a (dom (gs_heap gs))" by (auto simp: gs'_def)
    ultimately show ?thesis using that d r(2) None nm by simp
  qed
qed

lemma load_servers_ok:
  "srv_ok n gs \<Longrightarrow> distinct (server_keys gs) \<Longrightarrow> distinct (map fst names) \<Longrightarrow> \<forall>a \<in> set (map fst names). gs_heap gs a = None \<Longrightarrow>
   \<exists>gs'. load_mysql_servers_list_from_file alive names gs = Some gs' \<and> srv_ok n gs' \<and> distinct (server_keys gs')
     \<and> set (server_keys gs') = set (server_keys gs) \<union> parse_server_name ` snd ` set names"
proof (induction names arbitrary: gs)
  case Nil
  then show ?case by simp
next
  case (Cons x names)
  obtain a name where x: "x = (a, name)" by force
  obtain gs1 where g: "load_server alive a name gs = Some gs1" "srv_ok n gs1" "distinct (server_keys gs1)"
      "set (server_keys gs1) = insert (parse_server_name name) (set (server_keys gs))" "dom (gs_heap gs1) \<subseteq> insert a (dom (gs_heap gs))"
    using load_server_ok [OF Cons.prems(1,2)] Cons.prems(4) x by (metis fst_conv list.set_intros(1) list.simps(9))
  have "\<forall>b \<in> set (map fst names). gs_heap gs1 b = None"
    using g(5) Cons.prems(3,4) x by fastforce
  then obtain gs' where "load_mysql_servers_list_from_file alive names gs1 = Some gs'" "srv_ok n gs'" "distinct (server_keys gs')"
      "set (server_keys gs') = set (server_keys gs1) \<union> parse_server_name ` snd ` set names"
    using Cons.IH [OF g(2,3)] Cons.prems(3) by auto
  then show ?case using g(1,4) x by auto
qed

text \<open>Adding a known server to a hostgroup keeps the invariant, and a random entry leads to a known server.\<close>

lemma add_hostgroup_ok:
  assumes ok: "srv_ok n gs" and a: "a \<in> set (gs_servers gs)" and hid: "0 \<le> h" and m: "gs_mshge gs m = None"
  obtains gs' where "mysql_server_entry_add_hostgroup n m a h gs = Some gs'" and "srv_ok n gs'"
    and "gs_heap gs' = gs_heap gs" and "gs_servers gs' = gs_servers gs"
proof (cases "h \<ge> int n")
  case True
  then show ?thesis using that [of gs] ok by (simp add: mysql_server_entry_add_hostgroup_def)
next
  case False
  define e where "e = \<lparr>mh_MSptr = a, mh_connections_created = 0, mh_connections_active = 0, mh_server_bytes = \<lparr>bs_recv = 0, bs_sent = 0\<rparr>\<rparr>"
  define gs' where "gs' = gs\<lparr>gs_mshge := (gs_mshge gs)(m \<mapsto> e),
    gs_hostgroups := (gs_hostgroups gs)[nat h := gs_hostgroups gs ! nat h @ [m]]\<rparr>"
  have l: "nat h < length (gs_hostgroups gs)" using ok False hid by (simp add: srv_ok_def)
  have "mysql_server_entry_add_hostgroup n m a h gs = Some gs'"
    using False hid l by (simp add: mysql_server_entry_add_hostgroup_def gs'_def e_def Let_def)
  moreover have "\<exists>e. ((gs_mshge gs)(m \<mapsto> e')) x = Some e \<and> mh_MSptr e \<in> set (gs_servers gs)"
    if "x \<in> set hg" "hg \<in> set ((gs_hostgroups gs)[nat h := gs_hostgroups gs ! nat h @ [m]])" "mh_MSptr e' = a" for x hg e'
  proof (cases "x = m")
    case False
    have "hg = gs_hostgroups gs ! nat h @ [m] \<or> hg \<in> set (gs_hostgroups gs)"
      using that(2) set_update_subset_insert by fastforce
    then have "\<exists>hg' \<in> set (gs_hostgroups gs). x \<in> set hg'" using that(1) False l by (auto simp: nth_mem)
    then show ?thesis using ok False by (auto simp: srv_ok_def)
  qed (use a that(3) in auto)
  then have "srv_ok n gs'" using ok a l by (auto simp: srv_ok_def gs'_def e_def)
  ultimately show ?thesis using that by (simp add: gs'_def)
qed

lemma random_entry_ok:
  assumes ok: "srv_ok n gs" and hid: "0 \<le> h" "h < int n"
  obtains r where "mysql_server_random_entry_from_hostgroup n rnd h gs = Some r"
    and "r = None \<longleftrightarrow> gs_hostgroups gs ! nat h = []"
    and "\<And>m. r = Some m \<Longrightarrow> m \<in> set (gs_hostgroups gs ! nat h)
          \<and> (\<exists>e ms. gs_mshge gs m = Some e \<and> mh_MSptr e \<in> set (gs_servers gs) \<and> gs_heap gs (mh_MSptr e) = Some ms)"
proof -
  let ?hg = "gs_hostgroups gs ! nat h"
  have l: "nat h < length (gs_hostgroups gs)" using ok hid by (simp add: srv_ok_def)
  show ?thesis
  proof (cases "?hg = []")
    case True
    then show ?thesis using that [of None] hid l by (simp add: mysql_server_random_entry_from_hostgroup_def Let_def)
  next
    case False
    let ?m = "?hg ! (rnd mod length ?hg)"
    have m: "?m \<in> set ?hg" using False by simp
    then obtain e where e: "gs_mshge gs ?m = Some e" "mh_MSptr e \<in> set (gs_servers gs)"
      using ok l unfolding srv_ok_def by (metis nth_mem)
    then have "gs_heap gs (mh_MSptr e) \<noteq> None" using ok by (simp add: srv_ok_def)
    then obtain ms where "gs_heap gs (mh_MSptr e) = Some ms" by blast
    moreover have "mysql_server_random_entry_from_hostgroup n rnd h gs = Some (Some ?m)"
      using False hid l by (simp add: mysql_server_random_entry_from_hostgroup_def Let_def)
    ultimately show ?thesis using that [of "Some ?m"] m e False by simp
  qed
qed

text \<open>
  Reading the server list: whatever the list of names, each server it names is in the table exactly
  once afterwards, repetitions are dropped, and the table is well formed.
\<close>

lemma servers_loaded_once:
  assumes "distinct (map fst names)"
  shows "\<exists>gs. load_mysql_servers_list_from_file alive names (init_glomysrvs n) = Some gs \<and> srv_ok n gs
    \<and> distinct (server_keys gs) \<and> set (server_keys gs) = parse_server_name ` snd ` set names"
proof -
  have "server_keys (init_glomysrvs n) = []" "\<forall>a. gs_heap (init_glomysrvs n) a = None"
    by (simp_all add: server_keys_def init_glomysrvs_def)
  then show ?thesis using load_servers_ok [OF srv_ok_init [of n] _ assms] by simp
qed

lemma servers_loaded_once_sample:
  "\<exists>gs. load_mysql_servers_list_from_file (\<lambda>_ _. 0) [(1, str ''db1:3307''), (2, str ''db2''), (3, str ''db1:3307'')] (init_glomysrvs 2) = Some gs
    \<and> set (server_keys gs) = {(str ''db1'', 3307), (str ''db2'', 3306)} \<and> distinct (server_keys gs)"
proof -
  have "parse_server_name (str ''db1:3307'') = (str ''db1'', 3307)" "parse_server_name (str ''db2'') = (str ''db2'', 3306)"
    by code_simp+
  then show ?thesis
    using servers_loaded_once [of "[(1, str ''db1:3307''), (2, str ''db2''), (3, str ''db1:3307'')]" "\<lambda>_ _. 0" 2] by auto
qed

end
