(* ===== verification/ConnPool.thy ===== *)
theory ConnPool
  imports Prelude
begin

section \<open>Connection pools\<close>

text \<open>
  The pools of idle backend connections of \<^verbatim>\<open>src/mysql_connpool.c\<close>: every thread has its own
  (\<^verbatim>\<open>__thr_myconnpool\<close>), and there is a global one (\<^verbatim>\<open>gloconnpool\<close>). A pool holds the free connections of
  one host, user, password, schema and port.

  A connection is a \<^verbatim>\<open>mysql_cp_entry_t\<close> with the fields of its \<^verbatim>\<open>MYSQL\<close> structure the code reads;
  \<open>ce_id\<close> is its address. Strings may be \<^verbatim>\<open>NULL\<close> (\<open>None\<close>); comparing \<^verbatim>\<open>NULL\<close> with \<^verbatim>\<open>strcmp\<close> crashes, and
  a crash is \<open>None\<close>. \<^verbatim>\<open>mysql_real_connect\<close> is a parameter: the address and descriptor of the new
  connection, or its failure. The operations also return the connections they close.

  The main results: every connection is in one place only and none is lost, and a session gets a
  connection that was opened with its own credentials and has not expired.
\<close>

record cp_entry =
  ce_id :: nat
  ce_fd :: int
  ce_host :: "cstr option"
  ce_user :: "cstr option"
  ce_passwd :: "cstr option"
  ce_db :: "cstr option"
  ce_port :: nat
  ce_expire :: nat
  ce_reusable :: bool

record mysql_connpool =
  mp_hostname :: "cstr option"
  mp_username :: "cstr option"
  mp_password :: "cstr option"
  mp_db :: "cstr option"
  mp_port :: nat
  mp_free_conns :: "cp_entry list"

record conn_pools =
  cs_connpools :: "mysql_connpool list"
  cs_enabled :: bool

type_synonym conn_key = "cstr option \<times> cstr option \<times> cstr option \<times> cstr option \<times> nat"

definition strcmp_eq :: "cstr option \<Rightarrow> cstr option \<Rightarrow> bool option" where
  "strcmp_eq s t = do { a \<leftarrow> s; b \<leftarrow> t; Some (a = b) }"

definition local_mysql_connpool_init :: "bool \<Rightarrow> conn_pools" where
  "local_mysql_connpool_init enabled = \<lparr>cs_connpools = [], cs_enabled = enabled\<rparr>"

text \<open>The comparison of \<^verbatim>\<open>mysql_connpool_find\<close>, left to right.\<close>

definition pool_matches :: "conn_key \<Rightarrow> mysql_connpool \<Rightarrow> bool option" where
  "pool_matches key mcp =
     (let (hostname, username, password, db, port) = key
      in do {
           h \<leftarrow> strcmp_eq hostname (mp_hostname mcp);
           if \<not> h then Some False else do {
             u \<leftarrow> strcmp_eq username (mp_username mcp);
             if \<not> u then Some False else do {
               p \<leftarrow> strcmp_eq password (mp_password mcp);
               if \<not> p then Some False else do {
                 d \<leftarrow> strcmp_eq db (mp_db mcp);
                 Some (d \<and> port = mp_port mcp)
               }}}})"

text \<open>The index of the pool, or \<open>None\<close> inside: a \<^verbatim>\<open>NULL\<close> schema ends the search.\<close>

fun find_pool :: "conn_key \<Rightarrow> nat \<Rightarrow> mysql_connpool list \<Rightarrow> nat option option" where
  "find_pool key l [] = Some None"
| "find_pool key l (mcp # mcps) =
     (if (case key of (_, _, _, db, _) \<Rightarrow> db = None) \<or> mp_db mcp = None then Some None
      else do {
        m \<leftarrow> pool_matches key mcp;
        if m then Some (Some l) else find_pool key (Suc l) mcps
      })"

definition mysql_connpool_find :: "conn_key \<Rightarrow> conn_pools \<Rightarrow> nat option option" where
  "mysql_connpool_find key cp = find_pool key 0 (cs_connpools cp)"

definition mysql_connpool_create :: "conn_key \<Rightarrow> conn_pools \<Rightarrow> nat \<times> conn_pools" where
  "mysql_connpool_create key cp =
     (let (hostname, username, password, db, port) = key
      in (length (cs_connpools cp),
          cp\<lparr>cs_connpools := cs_connpools cp @ [\<lparr>mp_hostname = hostname, mp_username = username, mp_password = password,
               mp_db = db, mp_port = port, mp_free_conns = []\<rparr>]\<rparr>))"

definition mysql_connpool_find_or_create :: "conn_key \<Rightarrow> conn_pools \<Rightarrow> (nat \<times> conn_pools) option" where
  "mysql_connpool_find_or_create key cp =
     do { r \<leftarrow> mysql_connpool_find key cp;
          Some (case r of Some i \<Rightarrow> (i, cp) | None \<Rightarrow> mysql_connpool_create key cp) }"

definition mysql_connpool_exists_global :: "conn_key \<Rightarrow> conn_pools \<Rightarrow> conn_pools \<Rightarrow> bool option" where
  "mysql_connpool_exists_global key lp gp =
     do { r \<leftarrow> mysql_connpool_find key lp;
          case r of Some _ \<Rightarrow> Some True | None \<Rightarrow> do { r \<leftarrow> mysql_connpool_find key gp; Some (r \<noteq> None) } }"

text \<open>The loop over the free connections: the expired ones it closes, the one it takes, the rest.\<close>

function take_conn :: "nat \<Rightarrow> nat \<Rightarrow> cp_entry list \<Rightarrow> cp_entry list \<times> cp_entry option \<times> cp_entry list" where
  "take_conn curr_time wait_timeout conns =
     (if conns = [] then ([], None, [])
      else let mc = conns ! 0; rest = remove_index_fast 0 conns
           in if ce_expire mc \<le> curr_time
              then let (closed, found, rest') = take_conn curr_time wait_timeout rest in (mc # closed, found, rest')
              else ([], Some (mc\<lparr>ce_expire := curr_time + wait_timeout\<rparr>), rest))"
  by pat_completeness auto
termination
  by (relation "measure (\<lambda>(t, w, conns). length conns)") auto

declare take_conn.simps [simp del]

definition pool_take ::
  "nat \<Rightarrow> nat \<Rightarrow> nat \<Rightarrow> conn_pools \<Rightarrow> (cp_entry list \<times> cp_entry option \<times> conn_pools) option" where
  "pool_take curr_time wait_timeout i cp =
     (if i < length (cs_connpools cp)
      then let mcp = cs_connpools cp ! i;
               (closed, found, rest) = take_conn curr_time wait_timeout (mp_free_conns mcp)
           in Some (closed, found, cp\<lparr>cs_connpools := (cs_connpools cp)[i := mcp\<lparr>mp_free_conns := rest\<rparr>]\<rparr>)
      else None)"

definition create_new_mysql_connection :: "nat \<Rightarrow> nat \<Rightarrow> (nat \<times> int) option \<Rightarrow> conn_key \<Rightarrow> cp_entry option" where
  "create_new_mysql_connection curr_time wait_timeout connect key =
     (let (hostname, username, password, db, port) = key
      in case connect of
           None \<Rightarrow> None
         | Some (a, fd) \<Rightarrow>
             Some \<lparr>ce_id = a, ce_fd = fd, ce_host = hostname, ce_user = username, ce_passwd = password, ce_db = db,
                   ce_port = port, ce_expire = curr_time + wait_timeout, ce_reusable = True\<rparr>)"

text \<open>\<^verbatim>\<open>mysql_connpool_get_connection\<close> in the global scope: there is no fallback.\<close>

definition get_connection_global ::
  "nat \<Rightarrow> nat \<Rightarrow> conn_key \<Rightarrow> conn_pools \<Rightarrow> (cp_entry list \<times> cp_entry option \<times> conn_pools) option" where
  "get_connection_global curr_time wait_timeout key gp =
     (if cs_enabled gp
      then do { (i, gp) \<leftarrow> mysql_connpool_find_or_create key gp; pool_take curr_time wait_timeout i gp }
      else Some ([], None, gp))"

text \<open>
  In the local scope: first the thread's pool, remembered in \<open>mcp_ref\<close>, then the global pool, then a
  new connection. The result: the connection, the pool remembered, what was closed, both pools.
\<close>

definition mysql_connpool_get_connection ::
  "nat \<Rightarrow> nat \<Rightarrow> (nat \<times> int) option \<Rightarrow> nat option \<Rightarrow> conn_key \<Rightarrow> conn_pools \<Rightarrow> conn_pools
    \<Rightarrow> (cp_entry option \<times> nat option \<times> cp_entry list \<times> conn_pools \<times> conn_pools) option" where
  "mysql_connpool_get_connection curr_time wait_timeout connect mcp_ref key lp gp =
     do {
       (mycpe, mcp_ref, closed, lp) \<leftarrow>
         (if cs_enabled lp
          then do {
                 (i, lp) \<leftarrow> (case mcp_ref of Some i \<Rightarrow> Some (i, lp) | None \<Rightarrow> mysql_connpool_find_or_create key lp);
                 (closed, found, lp) \<leftarrow> pool_take curr_time wait_timeout i lp;
                 Some (found, Some i, closed, lp)
               }
          else Some (None, mcp_ref, [], lp));
       case mycpe of
         Some c \<Rightarrow> Some (Some c, mcp_ref, closed, lp, gp)
       | None \<Rightarrow>
           do {
             (closed', found, gp) \<leftarrow> get_connection_global curr_time wait_timeout key gp;
             case found of
               Some c \<Rightarrow> Some (Some c, mcp_ref, closed @ closed', lp, gp)
             | None \<Rightarrow> Some (create_new_mysql_connection curr_time wait_timeout connect key, mcp_ref, closed @ closed', lp, gp)
           }
     }"

definition conn_key_of :: "cp_entry \<Rightarrow> conn_key" where
  "conn_key_of mc = (ce_host mc, ce_user mc, ce_passwd mc, ce_db mc, ce_port mc)"

text \<open>Giving a connection back; \<open>now\<close> is the clock, not the pool's. The result is what was closed.\<close>

definition mysql_connpool_detach_connection ::
  "nat \<Rightarrow> nat option \<Rightarrow> cp_entry \<Rightarrow> bool \<Rightarrow> conn_pools \<Rightarrow> (cp_entry list \<times> conn_pools) option" where
  "mysql_connpool_detach_connection now mcp_ref mc force_close cp =
     (if \<not> cs_enabled cp then Some ([mc], cp)
      else if \<not> ce_reusable mc then Some ([mc], cp)
      else if force_close then Some ([mc], cp)
      else do {
        (i, cp) \<leftarrow> (case mcp_ref of None \<Rightarrow> mysql_connpool_find_or_create (conn_key_of mc) cp | Some i \<Rightarrow> Some (i, cp));
        if i < length (cs_connpools cp)
        then if ce_expire mc \<le> now then Some ([mc], cp)
             else let mcp = cs_connpools cp ! i
                  in Some ([], cp\<lparr>cs_connpools := (cs_connpools cp)[i := mcp\<lparr>mp_free_conns := mp_free_conns mcp @ [mc]\<rparr>]\<rparr>)
        else None
      })"

subsection \<open>Invariant and accounting\<close>

definition pool_key :: "mysql_connpool \<Rightarrow> conn_key" where
  "pool_key mcp = (mp_hostname mcp, mp_username mcp, mp_password mcp, mp_db mcp, mp_port mcp)"

definition key_defined :: "conn_key \<Rightarrow> bool" where
  "key_defined key = (case key of (h, u, p, d, _) \<Rightarrow> h \<noteq> None \<and> u \<noteq> None \<and> p \<noteq> None \<and> d \<noteq> None)"

text \<open>Every pool has a complete key and only connections that were opened with it.\<close>

definition pools_ok :: "conn_pools \<Rightarrow> bool" where
  "pools_ok cp \<longleftrightarrow> (\<forall>mcp \<in> set (cs_connpools cp). key_defined (pool_key mcp)
     \<and> (\<forall>mc \<in> set (mp_free_conns mcp). conn_key_of mc = pool_key mcp))"

definition conn_ids :: "conn_pools \<Rightarrow> nat multiset" where
  "conn_ids cp = sum_list (map (\<lambda>mcp. mset (map ce_id (mp_free_conns mcp))) (cs_connpools cp))"

lemma strcmp_eq_Some: "s \<noteq> None \<Longrightarrow> t \<noteq> None \<Longrightarrow> strcmp_eq s t = Some (s = t)"
  by (auto simp: strcmp_eq_def)

lemma pool_matches_iff:
  assumes "key_defined key" and "key_defined (pool_key mcp)"
  shows "pool_matches key mcp = Some (key = pool_key mcp)"
  using assms by (cases key) (auto simp: pool_matches_def key_defined_def pool_key_def strcmp_eq_Some)

lemma find_pool_spec:
  "key_defined key \<Longrightarrow> \<forall>mcp \<in> set mcps. key_defined (pool_key mcp) \<Longrightarrow>
   \<exists>r. find_pool key l mcps = Some r \<and> (\<forall>i. r = Some i \<longrightarrow> l \<le> i \<and> i - l < length mcps \<and> pool_key (mcps ! (i - l)) = key)"
proof (induction mcps arbitrary: l)
  case (Cons mcp mcps)
  have "(case key of (_, _, _, db, _) \<Rightarrow> db = None) = False" "mp_db mcp \<noteq> None"
    using Cons.prems by (auto simp: key_defined_def pool_key_def split: prod.splits)
  then have eq: "find_pool key l (mcp # mcps) = (if key = pool_key mcp then Some (Some l) else find_pool key (Suc l) mcps)"
    using pool_matches_iff [of key mcp] Cons.prems by auto
  show ?case
  proof (cases "key = pool_key mcp")
    case False
    obtain r where "find_pool key (Suc l) mcps = Some r"
        "\<forall>i. r = Some i \<longrightarrow> Suc l \<le> i \<and> i - Suc l < length mcps \<and> pool_key (mcps ! (i - Suc l)) = key"
      using Cons.IH [of "Suc l"] Cons.prems by auto
    then show ?thesis using eq False by (auto simp: nth_Cons' Suc_diff_Suc less_Suc_eq_le)
  qed (use eq in auto)
qed simp

lemma find_or_create_ok:
  assumes ok: "pools_ok cp" and key: "key_defined key"
  obtains i cp' where "mysql_connpool_find_or_create key cp = Some (i, cp')" and "pools_ok cp'" and "i < length (cs_connpools cp')"
    and "pool_key (cs_connpools cp' ! i) = key" and "conn_ids cp' = conn_ids cp" and "cs_enabled cp' = cs_enabled cp"
proof -
  obtain r where r: "mysql_connpool_find key cp = Some r"
      "\<forall>i. r = Some i \<longrightarrow> i < length (cs_connpools cp) \<and> pool_key (cs_connpools cp ! i) = key"
    using find_pool_spec [OF key, of "cs_connpools cp" 0] ok by (auto simp: mysql_connpool_find_def pools_ok_def)
  show ?thesis
  proof (cases r)
    case (Some i)
    then show ?thesis using that [of i cp] r ok by (simp add: mysql_connpool_find_or_create_def)
  next
    case None
    obtain h u p d q where k: "key = (h, u, p, d, q)" by (cases key)
    define mcp where "mcp = \<lparr>mp_hostname = h, mp_username = u, mp_password = p, mp_db = d, mp_port = q, mp_free_conns = []\<rparr>"
    define cp' where "cp' = cp\<lparr>cs_connpools := cs_connpools cp @ [mcp]\<rparr>"
    have "mysql_connpool_find_or_create key cp = Some (length (cs_connpools cp), cp')"
      using r(1) None k by (simp add: mysql_connpool_find_or_create_def mysql_connpool_create_def cp'_def mcp_def)
    moreover have pk: "pool_key mcp = key" using k by (simp add: pool_key_def mcp_def)
    moreover have "pools_ok cp'" using ok pk key by (auto simp: pools_ok_def cp'_def mcp_def)
    moreover have "conn_ids cp' = conn_ids cp" by (simp add: conn_ids_def cp'_def mcp_def)
    ultimately show ?thesis using that [of "length (cs_connpools cp)" cp'] by (simp add: cp'_def)
  qed
qed

lemma take_conn_spec:
  "take_conn t w conns = (closed, found, rest) \<Longrightarrow>
   mset (map ce_id conns) = mset (map ce_id closed) + (case found of None \<Rightarrow> {#} | Some c \<Rightarrow> {#ce_id c#}) + mset (map ce_id rest)
   \<and> set rest \<subseteq> set conns \<and> (\<forall>c. found = Some c \<longrightarrow> ce_expire c = t + w \<and> (\<exists>mc \<in> set conns. conn_key_of c = conn_key_of mc \<and> t < ce_expire mc))
   \<and> (\<forall>c \<in> set closed. ce_expire c \<le> t)"
proof (induction t w conns arbitrary: closed found rest rule: take_conn.induct)
  case (1 t w conns)
  show ?case
  proof (cases conns)
    case Nil
    then show ?thesis using "1.prems" by (simp add: take_conn.simps)
  next
    case (Cons mc cs)
    define rs where "rs = remove_index_fast 0 conns"
    have m: "mset conns = add_mset mc (mset rs)"
      using mset_remove_index_fast [of 0 conns] Cons by (simp add: rs_def)
    then have sub: "set rs \<subseteq> set conns" "mc \<in> set conns" by (metis set_mset_mset set_mset_add_mset_insert subset_insertI insertI1)+
    have ids: "mset (map ce_id conns) = add_mset (ce_id mc) (mset (map ce_id rs))" using m by (metis image_mset_add_mset mset_map)
    show ?thesis
    proof (cases "ce_expire mc \<le> t")
      case True
      obtain cl fo re where t: "take_conn t w rs = (cl, fo, re)" by (cases "take_conn t w rs")
      have "closed = mc # cl" "found = fo" "rest = re"
        using "1.prems" Cons True t by (simp_all add: take_conn.simps [of t w "mc # cs"] rs_def Let_def)
      moreover have ne: "conns \<noteq> []" and "ce_expire (conns ! 0) \<le> t" using Cons True by simp_all
      note ih = "1.IH" [OF ne refl rs_def this(2) t]
      have "\<exists>mc \<in> set conns. conn_key_of c = conn_key_of mc \<and> t < ce_expire mc" if "fo = Some c" for c
        using ih that sub(1) by blast
      ultimately show ?thesis using ih True ids sub(1) by auto
    next
      case False
      then have "closed = []" "found = Some (mc\<lparr>ce_expire := t + w\<rparr>)" "rest = rs"
        using "1.prems" Cons by (simp_all add: take_conn.simps [of t w "mc # cs"] rs_def Let_def)
      then show ?thesis using ids sub False by (auto simp: conn_key_of_def)
    qed
  qed
qed

lemma conn_ids_update:
  assumes "i < length (cs_connpools cp)"
  shows "conn_ids (cp\<lparr>cs_connpools := (cs_connpools cp)[i := mcp]\<rparr>) + mset (map ce_id (mp_free_conns (cs_connpools cp ! i)))
    = conn_ids cp + mset (map ce_id (mp_free_conns mcp))"
proof -
  let ?f = "\<lambda>mcp. mset (map ce_id (mp_free_conns mcp))" and ?ps = "cs_connpools cp"
  have "?ps = take i ?ps @ ?ps ! i # drop (Suc i) ?ps" using assms by (rule id_take_nth_drop)
  then have "conn_ids cp = sum_list (map ?f (take i ?ps)) + ?f (?ps ! i) + sum_list (map ?f (drop (Suc i) ?ps))"
    unfolding conn_ids_def by (metis (no_types, lifting) add.assoc list.simps(9) map_append sum_list.Cons sum_list.append)
  moreover have "conn_ids (cp\<lparr>cs_connpools := ?ps[i := mcp]\<rparr>) = sum_list (map ?f (take i ?ps)) + ?f mcp + sum_list (map ?f (drop (Suc i) ?ps))"
    using assms by (simp add: conn_ids_def upd_conv_take_nth_drop)
  ultimately show ?thesis by (simp add: union_ac)
qed

lemma pool_take_ok:
  assumes ok: "pools_ok cp" and i: "i < length (cs_connpools cp)"
  obtains closed found cp' where "pool_take t w i cp = Some (closed, found, cp')" and "pools_ok cp'"
    and "conn_ids cp = mset (map ce_id closed) + (case found of None \<Rightarrow> {#} | Some c \<Rightarrow> {#ce_id c#}) + conn_ids cp'"
    and "\<forall>c. found = Some c \<longrightarrow> conn_key_of c = pool_key (cs_connpools cp ! i) \<and> ce_expire c = t + w"
    and "cs_enabled cp' = cs_enabled cp" and "\<forall>c \<in> set closed. ce_expire c \<le> t"
    and "map pool_key (cs_connpools cp') = map pool_key (cs_connpools cp)"
proof -
  let ?mcp = "cs_connpools cp ! i"
  obtain closed found rest where t: "take_conn t w (mp_free_conns ?mcp) = (closed, found, rest)"
    by (cases "take_conn t w (mp_free_conns ?mcp)")
  note sp = take_conn_spec [OF t]
  have mcp: "?mcp \<in> set (cs_connpools cp)" using i by simp
  then have keys: "\<forall>mc \<in> set (mp_free_conns ?mcp). conn_key_of mc = pool_key ?mcp" "key_defined (pool_key ?mcp)"
    using ok by (auto simp: pools_ok_def)
  define cp' where "cp' = cp\<lparr>cs_connpools := (cs_connpools cp)[i := ?mcp\<lparr>mp_free_conns := rest\<rparr>]\<rparr>"
  have pk: "pool_key (?mcp\<lparr>mp_free_conns := rest\<rparr>) = pool_key ?mcp" by (simp add: pool_key_def)
  have "pool_take t w i cp = Some (closed, found, cp')" using i t by (simp add: pool_take_def cp'_def)
  moreover have "pools_ok cp'"
    unfolding pools_ok_def
  proof
    fix m assume "m \<in> set (cs_connpools cp')"
    then have "m = ?mcp\<lparr>mp_free_conns := rest\<rparr> \<or> m \<in> set (cs_connpools cp)"
      using set_update_subset_insert [of "cs_connpools cp" i] by (auto simp: cp'_def)
    then show "key_defined (pool_key m) \<and> (\<forall>mc \<in> set (mp_free_conns m). conn_key_of mc = pool_key m)"
      using ok keys sp pk by (auto simp: pools_ok_def)
  qed
  moreover have "conn_ids cp = mset (map ce_id closed) + (case found of None \<Rightarrow> {#} | Some c \<Rightarrow> {#ce_id c#}) + conn_ids cp'"
  proof -
    have "conn_ids cp' + mset (map ce_id (mp_free_conns ?mcp)) = conn_ids cp + mset (map ce_id rest)"
      using conn_ids_update [OF i, of "?mcp\<lparr>mp_free_conns := rest\<rparr>"] by (simp add: cp'_def)
    then have "conn_ids cp + mset (map ce_id rest)
        = (mset (map ce_id closed) + (case found of None \<Rightarrow> {#} | Some c \<Rightarrow> {#ce_id c#}) + conn_ids cp') + mset (map ce_id rest)"
      using sp by (simp add: union_ac)
    then show ?thesis by (rule add_right_imp_eq)
  qed
  moreover have "map pool_key (cs_connpools cp') = map pool_key (cs_connpools cp)"
    using i pk by (simp add: cp'_def map_update list_update_same_conv)
  moreover have "\<forall>c. found = Some c \<longrightarrow> conn_key_of c = pool_key ?mcp \<and> ce_expire c = t + w" using sp keys(1) by fastforce
  ultimately show ?thesis using that sp by (simp add: cp'_def)
qed

definition ref_ok :: "nat option \<Rightarrow> conn_key \<Rightarrow> conn_pools \<Rightarrow> bool" where
  "ref_ok mcp_ref key cp = (case mcp_ref of None \<Rightarrow> True
     | Some i \<Rightarrow> i < length (cs_connpools cp) \<and> pool_key (cs_connpools cp ! i) = key)"

definition opt_id :: "cp_entry option \<Rightarrow> nat multiset" where
  "opt_id c = (case c of None \<Rightarrow> {#} | Some c \<Rightarrow> {#ce_id c#})"

text \<open>Taking a connection out of one set of pools.\<close>

lemma find_and_take_ok:
  assumes ok: "pools_ok cp" and key: "key_defined key" and r: "ref_ok mcp_ref key cp"
  obtains i cp1 closed found cp' where
    "(case mcp_ref of Some i \<Rightarrow> Some (i, cp) | None \<Rightarrow> mysql_connpool_find_or_create key cp) = Some (i, cp1)"
    and "pool_take t w i cp1 = Some (closed, found, cp')" and "pools_ok cp'"
    and "conn_ids cp = mset (map ce_id closed) + opt_id found + conn_ids cp'"
    and "\<forall>c. found = Some c \<longrightarrow> conn_key_of c = key \<and> ce_expire c = t + w"
    and "cs_enabled cp' = cs_enabled cp" and "\<forall>c \<in> set closed. ce_expire c \<le> t" and "ref_ok (Some i) key cp'"
proof -
  obtain i cp1 where p: "(case mcp_ref of Some i \<Rightarrow> Some (i, cp) | None \<Rightarrow> mysql_connpool_find_or_create key cp) = Some (i, cp1)"
      "pools_ok cp1" "i < length (cs_connpools cp1)" "pool_key (cs_connpools cp1 ! i) = key" "conn_ids cp1 = conn_ids cp" "cs_enabled cp1 = cs_enabled cp"
  proof (cases mcp_ref)
    case None
    obtain i cp1 where "mysql_connpool_find_or_create key cp = Some (i, cp1)" "pools_ok cp1" "i < length (cs_connpools cp1)"
        "pool_key (cs_connpools cp1 ! i) = key" "conn_ids cp1 = conn_ids cp" "cs_enabled cp1 = cs_enabled cp"
      by (rule find_or_create_ok [OF ok key])
    then show ?thesis using that None by simp
  next
    case (Some i)
    then show ?thesis using that [of i cp] ok r by (simp add: ref_ok_def)
  qed
  obtain closed found cp' where t: "pool_take t w i cp1 = Some (closed, found, cp')" "pools_ok cp'"
      "conn_ids cp1 = mset (map ce_id closed) + (case found of None \<Rightarrow> {#} | Some c \<Rightarrow> {#ce_id c#}) + conn_ids cp'"
      "\<forall>c. found = Some c \<longrightarrow> conn_key_of c = pool_key (cs_connpools cp1 ! i) \<and> ce_expire c = t + w"
      "cs_enabled cp' = cs_enabled cp1" "\<forall>c \<in> set closed. ce_expire c \<le> t" "map pool_key (cs_connpools cp') = map pool_key (cs_connpools cp1)"
    by (rule pool_take_ok [OF p(2,3)])
  have "length (cs_connpools cp') = length (cs_connpools cp1)" using t(7) by (metis length_map)
  then have "ref_ok (Some i) key cp'" using t(7) p(3,4) by (simp add: ref_ok_def) (metis nth_map)
  then show ?thesis using that p(1,4,5,6) t by (simp add: opt_id_def)
qed

lemma new_connection_key:
  "create_new_mysql_connection t w connect key = Some c \<Longrightarrow>
   conn_key_of c = key \<and> ce_expire c = t + w \<and> ce_reusable c \<and> (\<exists>fd. connect = Some (ce_id c, fd))"
  by (cases key) (auto simp: create_new_mysql_connection_def conn_key_of_def split: option.splits)

definition new_ids :: "(nat \<times> int) option \<Rightarrow> nat multiset" where
  "new_ids connect = (case connect of None \<Rightarrow> {#} | Some (a, _) \<Rightarrow> {#a#})"

lemma new_connection_ids: "opt_id (create_new_mysql_connection t w connect key) = new_ids connect"
  by (cases key) (auto simp: create_new_mysql_connection_def opt_id_def new_ids_def split: option.splits)

lemma get_connection_ok:
  assumes lok: "pools_ok lp" and gok: "pools_ok gp" and key: "key_defined key" and r: "ref_ok mcp_ref key lp"
  shows "\<exists>c mcp_ref' closed lp' gp' fresh. mysql_connpool_get_connection t w connect mcp_ref key lp gp = Some (c, mcp_ref', closed, lp', gp')
    \<and> pools_ok lp' \<and> pools_ok gp' \<and> ref_ok mcp_ref' key lp'
    \<and> (\<forall>mc. c = Some mc \<longrightarrow> conn_key_of mc = key \<and> ce_expire mc = t + w)
    \<and> conn_ids lp + conn_ids gp + fresh = mset (map ce_id closed) + opt_id c + conn_ids lp' + conn_ids gp'
    \<and> (fresh = {#} \<or> fresh = new_ids connect) \<and> (c = None \<longrightarrow> connect = None)"
proof -
  obtain mycpe ref1 closed lp1 where l: "(if cs_enabled lp
          then do {
                 (i, lp) \<leftarrow> (case mcp_ref of Some i \<Rightarrow> Some (i, lp) | None \<Rightarrow> mysql_connpool_find_or_create key lp);
                 (closed, found, lp) \<leftarrow> pool_take t w i lp;
                 Some (found, Some i, closed, lp)
               }
          else Some (None, mcp_ref, [], lp)) = Some (mycpe, ref1, closed, lp1)"
      "pools_ok lp1" "ref_ok ref1 key lp1" "\<forall>c. mycpe = Some c \<longrightarrow> conn_key_of c = key \<and> ce_expire c = t + w"
      "conn_ids lp = mset (map ce_id closed) + opt_id mycpe + conn_ids lp1"
  proof (cases "cs_enabled lp")
    case True
    obtain i cp1 closed found cp' where
      "(case mcp_ref of Some i \<Rightarrow> Some (i, lp) | None \<Rightarrow> mysql_connpool_find_or_create key lp) = Some (i, cp1)"
      "pool_take t w i cp1 = Some (closed, found, cp')" "pools_ok cp'" "conn_ids lp = mset (map ce_id closed) + opt_id found + conn_ids cp'"
      "\<forall>c. found = Some c \<longrightarrow> conn_key_of c = key \<and> ce_expire c = t + w" "ref_ok (Some i) key cp'"
      by (rule find_and_take_ok [OF lok key r])
    then show ?thesis using that True by simp
  next
    case False
    then show ?thesis using that [of None mcp_ref "[]" lp] lok r by (simp add: opt_id_def)
  qed
  show ?thesis
  proof (cases mycpe)
    case (Some c)
    have "mysql_connpool_get_connection t w connect mcp_ref key lp gp = Some (Some c, ref1, closed, lp1, gp)"
      unfolding mysql_connpool_get_connection_def l(1) using Some by simp
    moreover have "conn_ids lp + conn_ids gp + {#} = mset (map ce_id closed) + opt_id (Some c) + conn_ids lp1 + conn_ids gp"
      using l(5) Some by (simp add: union_ac)
    ultimately show ?thesis using l(2-4) gok Some by blast
  next
    case None
    obtain closed' found gp' where g: "get_connection_global t w key gp = Some (closed', found, gp')" "pools_ok gp'"
        "\<forall>c. found = Some c \<longrightarrow> conn_key_of c = key \<and> ce_expire c = t + w" "conn_ids gp = mset (map ce_id closed') + opt_id found + conn_ids gp'"
    proof (cases "cs_enabled gp")
      case True
      have n: "ref_ok None key gp" by (simp add: ref_ok_def)
      obtain i cp1 closed' found cp' where
        "(case None of Some i \<Rightarrow> Some (i, gp) | None \<Rightarrow> mysql_connpool_find_or_create key gp) = Some (i, cp1)"
        "pool_take t w i cp1 = Some (closed', found, cp')" "pools_ok cp'" "conn_ids gp = mset (map ce_id closed') + opt_id found + conn_ids cp'"
        "\<forall>c. found = Some c \<longrightarrow> conn_key_of c = key \<and> ce_expire c = t + w"
        by (rule find_and_take_ok [OF gok key n])
      then show ?thesis using that True by (simp add: get_connection_global_def)
    next
      case False
      then show ?thesis using that [of "[]" None gp] gok by (simp add: opt_id_def get_connection_global_def)
    qed
    define c where "c = (case found of Some c \<Rightarrow> Some c | None \<Rightarrow> create_new_mysql_connection t w connect key)"
    define fresh where "fresh = (case found of Some c \<Rightarrow> {#} | None \<Rightarrow> new_ids connect)"
    have "mysql_connpool_get_connection t w connect mcp_ref key lp gp = Some (c, ref1, closed @ closed', lp1, gp')"
      unfolding mysql_connpool_get_connection_def l(1) using None g(1) by (cases found) (simp_all add: c_def)
    moreover have "\<forall>mc. c = Some mc \<longrightarrow> conn_key_of mc = key \<and> ce_expire mc = t + w"
      using g(3) new_connection_key [of t w connect key] by (cases found) (simp_all add: c_def)
    moreover have "conn_ids lp + conn_ids gp + fresh = mset (map ce_id (closed @ closed')) + opt_id c + conn_ids lp1 + conn_ids gp'"
      using l(5) g(4) None new_connection_ids [of t w connect key]
      by (cases found) (simp_all add: opt_id_def c_def fresh_def union_ac)
    moreover have "fresh = {#} \<or> fresh = new_ids connect" by (simp add: fresh_def split: option.splits)
    moreover have "c = None \<longrightarrow> connect = None"
      by (cases key) (auto simp: c_def create_new_mysql_connection_def split: option.splits)
    ultimately show ?thesis using l(2,3) g(2) by blast
  qed
qed

lemma detach_ok:
  assumes ok: "pools_ok cp" and key: "key_defined (conn_key_of mc)" and r: "ref_ok mcp_ref (conn_key_of mc) cp"
  shows "\<exists>closed cp'. mysql_connpool_detach_connection now mcp_ref mc fc cp = Some (closed, cp') \<and> pools_ok cp'
    \<and> conn_ids cp + {#ce_id mc#} = mset (map ce_id closed) + conn_ids cp'
    \<and> (closed = [] \<longleftrightarrow> cs_enabled cp \<and> ce_reusable mc \<and> \<not> fc \<and> now < ce_expire mc)"
proof (cases "cs_enabled cp \<and> ce_reusable mc \<and> \<not> fc")
  case False
  then show ?thesis using ok by (auto simp: mysql_connpool_detach_connection_def)
next
  case True
  obtain i cp1 where p: "(case mcp_ref of None \<Rightarrow> mysql_connpool_find_or_create (conn_key_of mc) cp | Some i \<Rightarrow> Some (i, cp)) = Some (i, cp1)"
      "pools_ok cp1" "i < length (cs_connpools cp1)" "pool_key (cs_connpools cp1 ! i) = conn_key_of mc" "conn_ids cp1 = conn_ids cp"
  proof (cases mcp_ref)
    case None
    obtain i cp1 where "mysql_connpool_find_or_create (conn_key_of mc) cp = Some (i, cp1)" "pools_ok cp1" "i < length (cs_connpools cp1)"
        "pool_key (cs_connpools cp1 ! i) = conn_key_of mc" "conn_ids cp1 = conn_ids cp"
      by (rule find_or_create_ok [OF ok key])
    then show ?thesis using that None by simp
  next
    case (Some i)
    then show ?thesis using that [of i cp] ok r by (simp add: ref_ok_def)
  qed
  show ?thesis
  proof (cases "ce_expire mc \<le> now")
    case exp: True
    have "mysql_connpool_detach_connection now mcp_ref mc fc cp = Some ([mc], cp1)"
      unfolding mysql_connpool_detach_connection_def p(1) using True p(3) exp by simp
    then show ?thesis using p(2,5) exp by simp
  next
    case False
    let ?mcp = "cs_connpools cp1 ! i"
    define m where "m = ?mcp\<lparr>mp_free_conns := mp_free_conns ?mcp @ [mc]\<rparr>"
    define cp' where "cp' = cp1\<lparr>cs_connpools := (cs_connpools cp1)[i := m]\<rparr>"
    have "mysql_connpool_detach_connection now mcp_ref mc fc cp = Some ([], cp')"
      unfolding mysql_connpool_detach_connection_def p(1) using True p(3) False by (simp add: cp'_def m_def Let_def)
    moreover have "pools_ok cp'"
      unfolding pools_ok_def
    proof
      fix x assume "x \<in> set (cs_connpools cp')"
      then have "x = m \<or> x \<in> set (cs_connpools cp1)"
        using set_update_subset_insert [of "cs_connpools cp1" i] by (auto simp: cp'_def)
      moreover have "?mcp \<in> set (cs_connpools cp1)" using p(3) by simp
      moreover have "pool_key m = conn_key_of mc" using p(4) by (simp add: m_def pool_key_def)
      ultimately show "key_defined (pool_key x) \<and> (\<forall>c \<in> set (mp_free_conns x). conn_key_of c = pool_key x)"
        using p(2,4) key by (auto simp: pools_ok_def m_def)
    qed
    moreover have "conn_ids cp + {#ce_id mc#} = conn_ids cp'"
      using conn_ids_update [OF p(3), of m] p(5) by (simp add: cp'_def m_def)
    ultimately show ?thesis using True False by auto
  qed
qed

subsection \<open>Properties\<close>

text \<open>
  C7. Getting a connection: with complete credentials \<^verbatim>\<open>mysql_connpool_get_connection\<close> returns, and fails
  only if a new connection could not be opened. What it returns was opened with exactly these host, user,
  password, schema and port, and its lifetime starts again. Every connection that was in the pools is
  still in them, or closed, or the one returned, and only once.
\<close>

theorem get_connection_matches:
  assumes "pools_ok lp" and "pools_ok gp" and "key_defined key" and "ref_ok mcp_ref key lp"
  shows "\<exists>c mcp_ref' closed lp' gp' fresh. mysql_connpool_get_connection t w connect mcp_ref key lp gp = Some (c, mcp_ref', closed, lp', gp')
    \<and> pools_ok lp' \<and> pools_ok gp'
    \<and> (\<forall>mc. c = Some mc \<longrightarrow> conn_key_of mc = key \<and> ce_expire mc = t + w)
    \<and> conn_ids lp + conn_ids gp + fresh = mset (map ce_id closed) + opt_id c + conn_ids lp' + conn_ids gp'
    \<and> (fresh = {#} \<or> fresh = new_ids connect) \<and> (c = None \<longrightarrow> connect = None)"
  using get_connection_ok [OF assms, of t w connect] by (elim exE conjE) (intro exI conjI)

definition sample_conn :: cp_entry where
  "sample_conn = \<lparr>ce_id = 5, ce_fd = 9, ce_host = Some [104], ce_user = Some [117], ce_passwd = Some [], ce_db = Some [100],
     ce_port = 3306, ce_expire = 500, ce_reusable = True\<rparr>"

definition sample_pools :: conn_pools where
  "sample_pools = \<lparr>cs_connpools = [\<lparr>mp_hostname = Some [104], mp_username = Some [117], mp_password = Some [], mp_db = Some [100],
     mp_port = 3306, mp_free_conns = [sample_conn]\<rparr>], cs_enabled = True\<rparr>"

lemma sample_pools_ok: "pools_ok sample_pools" "key_defined (conn_key_of sample_conn)"
  by (simp_all add: pools_ok_def sample_pools_def sample_conn_def key_defined_def pool_key_def conn_key_of_def)

theorem get_connection_matches_witness:
  "\<exists>c. map_option fst (mysql_connpool_get_connection 100 50 None None (conn_key_of sample_conn) sample_pools (local_mysql_connpool_init True))
    = Some (Some c) \<and> conn_key_of c = conn_key_of sample_conn \<and> ce_expire c = 150"
proof -
  have "pools_ok (local_mysql_connpool_init True)" by (simp add: pools_ok_def local_mysql_connpool_init_def)
  from get_connection_matches [OF sample_pools_ok(1) this sample_pools_ok(2), of None 100 50 None]
  obtain c mcp_ref' closed lp' gp' where
    g: "mysql_connpool_get_connection 100 50 None None (conn_key_of sample_conn) sample_pools (local_mysql_connpool_init True) = Some (c, mcp_ref', closed, lp', gp')"
      "\<forall>mc. c = Some mc \<longrightarrow> conn_key_of mc = conn_key_of sample_conn \<and> ce_expire mc = 100 + 50"
    by (auto simp: ref_ok_def)
  moreover have "map_option fst (mysql_connpool_get_connection 100 50 None None (conn_key_of sample_conn) sample_pools (local_mysql_connpool_init True)) \<noteq> Some None"
    by (simp add: mysql_connpool_get_connection_def sample_pools_def sample_conn_def conn_key_of_def mysql_connpool_find_or_create_def
        mysql_connpool_find_def pool_matches_def strcmp_eq_def pool_take_def take_conn.simps)
  ultimately obtain mc where "c = Some mc" by (cases c) simp_all
  then show ?thesis using g by auto
qed



text \<open>
  A pool with a \<^verbatim>\<open>NULL\<close> schema in front hides all the others: nothing is found any more, and every
  request adds a pool.
\<close>

lemma null_schema_hides_pools:
  "cs_connpools cp = mcp # mcps \<Longrightarrow> mp_db mcp = None \<Longrightarrow> mysql_connpool_find_or_create key cp = Some (mysql_connpool_create key cp)"
  by (simp add: mysql_connpool_find_or_create_def mysql_connpool_find_def)

end
