(* ===== verification/QueryRules.thy ===== *)
theory QueryRules
  imports Auth QueryDigest QueryStats
begin

section \<open>Query rules and default hostgroups\<close>

text \<open>
  What decides how a statement is treated: the rules of \<^verbatim>\<open>src/mysql_handler.c\<close>
  (\<^verbatim>\<open>reset_query_rules\<close>, \<^verbatim>\<open>init_query_metadata\<close>, \<^verbatim>\<open>process_query_rules\<close>), their loading from the
  administration database (\<^verbatim>\<open>sqlite3_flush_query_rules_db_to_mem\<close> of \<^verbatim>\<open>src/admin_sqlite.c\<close>), and the
  default hostgroups of \<^verbatim>\<open>src/mysql_session.c\<close>.

  The regular expressions are those of GLib. A compiled expression is a value of \<open>rx_new\<close>, which maps
  a pattern to it (\<open>None\<close> is the \<^verbatim>\<open>NULL\<close> of a pattern that does not compile); \<open>rx_match\<close> and \<open>rx_replace\<close>
  are \<^verbatim>\<open>g_regex_match_full\<close> and \<^verbatim>\<open>g_regex_replace\<close>, the latter with its result and whether it reported an
  error. The result rows of the database are arguments.

  \<open>None\<close> is a crash or undefined behaviour: a \<^verbatim>\<open>NULL\<close> string passed to \<^verbatim>\<open>strcmp\<close>, a pointer that was
  never set, a double free.
\<close>

record regex_lib =
  rx_new :: "cstr option \<Rightarrow> cstr option"
  rx_match :: "cstr option \<Rightarrow> byte list \<Rightarrow> bool"
  rx_replace :: "cstr option \<Rightarrow> byte list \<Rightarrow> cstr \<Rightarrow> cstr option \<times> bool"

subsection \<open>The rule table\<close>

record query_rule =
  qr_regex :: "cstr option"
  qr_rule_id :: int
  qr_flagIN :: int
  qr_username :: "cstr option"
  qr_schemaname :: "cstr option"
  qr_match_pattern :: "cstr option"
  qr_negate_match_pattern :: int
  qr_flagOUT :: int
  qr_replace_pattern :: "cstr option"
  qr_destination_hostgroup :: int
  qr_audit_log :: int
  qr_performance_log :: int
  qr_cache_tag :: int
  qr_invalidate_cache_tag :: int
  qr_invalidate_cache_pattern :: "cstr option"
  qr_cache_ttl :: int
  qr_hits :: "32 word"

text \<open>\<^verbatim>\<open>gloQR.query_rules\<close> is \<^verbatim>\<open>NULL\<close> before the first reset.\<close>

function reset_rules_loop :: "query_rule list \<Rightarrow> query_rule list" where
  "reset_rules_loop rules = (if rules = [] then [] else reset_rules_loop (remove_index_fast 0 rules))"
  by pat_completeness auto

termination
  by (relation "measure length") auto

definition reset_query_rules :: "query_rule list option \<Rightarrow> query_rule list option" where
  "reset_query_rules rules = (case rules of None \<Rightarrow> Some [] | Some rs \<Rightarrow> Some (reset_rules_loop rs))"

definition init_gloQR :: "query_rule list option" where
  "init_gloQR = reset_query_rules None"

text \<open>
  A row of the table as SQLite returns it: the columns of the \<^verbatim>\<open>SELECT\<close> in their order. The sanity
  checks clamp every number; a rule for a hostgroup that does not exist is dropped.
\<close>

record rule_row =
  rr_rule_id :: int
  rr_flagIN :: int
  rr_username :: "cstr option"
  rr_schemaname :: "cstr option"
  rr_match_pattern :: "cstr option"
  rr_negate_match_pattern :: int
  rr_flagOUT :: int
  rr_replace_pattern :: "cstr option"
  rr_destination_hostgroup :: int
  rr_audit_log :: int
  rr_performance_log :: int
  rr_cache_tag :: int
  rr_invalidate_cache_tag :: int
  rr_invalidate_cache_pattern :: "cstr option"
  rr_cache_ttl :: int

definition rule_of_row :: "regex_lib \<Rightarrow> rule_row \<Rightarrow> query_rule" where
  "rule_of_row rx r =
     \<lparr>qr_regex = rx_new rx (rr_match_pattern r),
      qr_rule_id = rr_rule_id r,
      qr_flagIN = (if rr_flagIN r < 0 then 0 else rr_flagIN r),
      qr_username = rr_username r,
      qr_schemaname = rr_schemaname r,
      qr_match_pattern = rr_match_pattern r,
      qr_negate_match_pattern = (let n = rr_negate_match_pattern r; n = (if n > 1 then 1 else n) in if n < 0 then 0 else n),
      qr_flagOUT = (if rr_flagOUT r < 0 then 0 else rr_flagOUT r),
      qr_replace_pattern = rr_replace_pattern r,
      qr_destination_hostgroup = (if rr_destination_hostgroup r < 0 then 0 else rr_destination_hostgroup r),
      qr_audit_log = (let n = rr_audit_log r in if n < 0 \<or> n > 1 then (if n < 0 then 0 else 1) else n),
      qr_performance_log = (let n = rr_performance_log r in if n < 0 \<or> n > 1 then (if n < 0 then 0 else 1) else n),
      qr_cache_tag = (if rr_cache_tag r < 0 then 0 else rr_cache_tag r),
      qr_invalidate_cache_tag = (if rr_invalidate_cache_tag r < 0 then 0 else rr_invalidate_cache_tag r),
      qr_invalidate_cache_pattern = rr_invalidate_cache_pattern r,
      qr_cache_ttl = (if rr_cache_ttl r < -1 then -1 else rr_cache_ttl r),
      qr_hits = 0\<rparr>"

fun load_rules :: "regex_lib \<Rightarrow> int \<Rightarrow> rule_row list \<Rightarrow> query_rule list \<Rightarrow> int \<Rightarrow> int \<times> query_rule list" where
  "load_rules rx mysql_hostgroups [] rules rownum = (rownum, rules)"
| "load_rules rx mysql_hostgroups (r # rows) rules rownum =
     (let qr = rule_of_row rx r
      in if qr_destination_hostgroup qr < mysql_hostgroups
         then load_rules rx mysql_hostgroups rows (rules @ [qr]) (rownum + 1)
         else load_rules rx mysql_hostgroups rows rules rownum)"

text \<open>The rows that the first part of the function inserts when the table is empty.\<close>

definition default_rule_row :: rule_row where
  "default_rule_row =
     \<lparr>rr_rule_id = 0, rr_flagIN = 0, rr_username = None, rr_schemaname = None, rr_match_pattern = None,
      rr_negate_match_pattern = 0, rr_flagOUT = 0, rr_replace_pattern = None, rr_destination_hostgroup = 0,
      rr_audit_log = 0, rr_performance_log = 0, rr_cache_tag = 0, rr_invalidate_cache_tag = 0,
      rr_invalidate_cache_pattern = None, rr_cache_ttl = 0\<rparr>"

definition default_rules :: "int \<Rightarrow> rule_row list" where
  "default_rules default_timeout =
     [default_rule_row\<lparr>rr_rule_id := 10, rr_match_pattern := Some (str ''^SELECT''), rr_negate_match_pattern := 1, rr_cache_ttl := -1\<rparr>,
      default_rule_row\<lparr>rr_rule_id := 20, rr_match_pattern := Some (92 # str ''s+FOR'' @ 92 # str ''s+UPDATE'' @ 92 # str ''s*$''), rr_cache_ttl := -1\<rparr>,
      default_rule_row\<lparr>rr_rule_id := 10000, rr_match_pattern := Some (str ''.*''), rr_destination_hostgroup := 1,
        rr_cache_ttl := default_timeout\<rparr>]"

text \<open>
  \<open>cnt\<close> is the result of the \<^verbatim>\<open>SELECT COUNT(*)\<close>, and \<open>rows\<close> the result of the \<^verbatim>\<open>SELECT\<close> of the active rules
  as a function of the rows that were inserted before.
\<close>

definition sqlite3_flush_query_rules_db_to_mem ::
    "regex_lib \<Rightarrow> int \<Rightarrow> int \<Rightarrow> nat \<Rightarrow> (rule_row list \<Rightarrow> rule_row list) \<Rightarrow> query_rule list option \<Rightarrow> (int \<times> query_rule list) option" where
  "sqlite3_flush_query_rules_db_to_mem rx mysql_hostgroups default_timeout cnt rows rules = do {
     let inserted = (if cnt = 0 then default_rules default_timeout else []);
     rules \<leftarrow> reset_query_rules rules;
     Some (load_rules rx mysql_hostgroups (rows inserted) rules 0)
   }"

subsection \<open>Default hostgroups\<close>

text \<open>
  A pointer to a string as it is found in memory: \<open>Wild\<close> is a pointer to nothing in particular.
  Comparing it with \<^verbatim>\<open>NULL\<close> is possible, reading through it is not.
\<close>

datatype cptr = NullPtr | Valid cstr | Wild

primrec cptr_of :: "cstr option \<Rightarrow> cptr" where
  "cptr_of None = NullPtr"
| "cptr_of (Some s) = Valid s"

text \<open>\<^verbatim>\<open>g_strcmp0(s, t) == 0\<close>, which accepts \<^verbatim>\<open>NULL\<close> on both sides.\<close>

fun g_strcmp0_eq :: "cstr option \<Rightarrow> cptr \<Rightarrow> bool option" where
  "g_strcmp0_eq s NullPtr = Some (s = None)"
| "g_strcmp0_eq s (Valid t) = Some (s = Some t)"
| "g_strcmp0_eq s Wild = (if s = None then Some False else None)"

record default_hostgroup =
  dh_username :: cptr
  dh_schemaname :: cptr
  dh_hostgroup_id :: int

record global_default_hostgroups =
  dg_version :: "32 word"
  dg_default_hostgroups :: "default_hostgroup list"

definition glo_DefHG_init :: global_default_hostgroups where
  "glo_DefHG_init = \<lparr>dg_version = 0, dg_default_hostgroups = []\<rparr>"

text \<open>\<open>junk\<close> is what the fresh memory holds at \<^verbatim>\<open>schemaname\<close>: \<^verbatim>\<open>g_slice_alloc\<close> does not clear it.\<close>

definition add_defHG :: "cptr \<Rightarrow> cstr option \<Rightarrow> cstr option \<Rightarrow> int \<Rightarrow> global_default_hostgroups \<Rightarrow> global_default_hostgroups" where
  "add_defHG junk username schemaname hostgroup_id DefHG =
     (let dhg = \<lparr>dh_username = cptr_of username, dh_schemaname = junk, dh_hostgroup_id = 0\<rparr>;
          dhg = dhg\<lparr>dh_username := cptr_of schemaname\<rparr>;
          dhg = dhg\<lparr>dh_hostgroup_id := hostgroup_id\<rparr>
      in DefHG\<lparr>dg_default_hostgroups := dg_default_hostgroups DefHG @ [dhg]\<rparr>)"

text \<open>\<^verbatim>\<open>__default_hostgroup__delete_one\<close> frees both strings: a wild pointer must not be freed.\<close>

definition delete_one :: "default_hostgroup \<Rightarrow> unit option" where
  "delete_one dhg = (if dh_username dhg = Wild \<or> dh_schemaname dhg = Wild then None else Some ())"

function delete_all_loop :: "default_hostgroup list \<Rightarrow> default_hostgroup list option" where
  "delete_all_loop dhgs =
     (case dhgs of [] \<Rightarrow> Some [] | dhg # _ \<Rightarrow> do { delete_one dhg; delete_all_loop (remove_index_fast 0 dhgs) })"
  by pat_completeness auto

termination
  by (relation "measure length") auto

declare delete_all_loop.simps [simp del] reset_rules_loop.simps [simp del]

definition delete_all_defHG :: "global_default_hostgroups \<Rightarrow> global_default_hostgroups option" where
  "delete_all_defHG DefHG = do { l \<leftarrow> delete_all_loop (dg_default_hostgroups DefHG); Some (DefHG\<lparr>dg_default_hostgroups := l\<rparr>) }"

text \<open>The three searches; each returns the hostgroup of the first entry that satisfies its condition.\<close>

fun find_dhg :: "(default_hostgroup \<Rightarrow> bool option) \<Rightarrow> default_hostgroup list \<Rightarrow> int option option" where
  "find_dhg c [] = Some None"
| "find_dhg c (dhg # dhgs) = do { b \<leftarrow> c dhg; if b then Some (Some (dh_hostgroup_id dhg)) else find_dhg c dhgs }"

definition perfect_match :: "cstr option \<Rightarrow> cstr option \<Rightarrow> default_hostgroup \<Rightarrow> bool option" where
  "perfect_match username schemaname dhg = do {
     b \<leftarrow> g_strcmp0_eq username (dh_username dhg);
     if b then g_strcmp0_eq schemaname (dh_schemaname dhg) else Some False
   }"

definition schema_match :: "cstr option \<Rightarrow> default_hostgroup \<Rightarrow> bool option" where
  "schema_match schemaname dhg =
     (if dh_username dhg = NullPtr \<and> dh_schemaname dhg \<noteq> NullPtr then g_strcmp0_eq schemaname (dh_schemaname dhg) else Some False)"

definition user_match :: "cstr option \<Rightarrow> default_hostgroup \<Rightarrow> bool option" where
  "user_match username dhg =
     (if dh_schemaname dhg = NullPtr \<and> dh_username dhg \<noteq> NullPtr then g_strcmp0_eq username (dh_username dhg) else Some False)"

definition find_defHG :: "global_default_hostgroups \<Rightarrow> cstr option \<Rightarrow> cstr option \<Rightarrow> int option" where
  "find_defHG DefHG username schemaname = do {
     let dhgs = dg_default_hostgroups DefHG;
     r \<leftarrow> find_dhg (perfect_match username schemaname) dhgs;
     case r of Some h \<Rightarrow> Some h | None \<Rightarrow> do {
       r \<leftarrow> find_dhg (schema_match schemaname) dhgs;
       case r of Some h \<Rightarrow> Some h | None \<Rightarrow> do {
         r \<leftarrow> find_dhg (user_match username) dhgs;
         case r of Some h \<Rightarrow> Some h | None \<Rightarrow> Some 0
       }}}"

text \<open>A row is \<open>(username, schemaname, hostgroup_id)\<close> with the memory its entry is allocated in.\<close>

fun add_defHGs :: "(cptr \<times> cstr option \<times> cstr option \<times> int) list \<Rightarrow> global_default_hostgroups \<Rightarrow> global_default_hostgroups" where
  "add_defHGs [] DefHG = DefHG"
| "add_defHGs ((junk, username, schemaname, hostgroup_id) # rows) DefHG =
     add_defHGs rows (add_defHG junk username schemaname hostgroup_id DefHG)"

definition sqlite3_flush_default_hostgroups_db_to_mem ::
    "(cptr \<times> cstr option \<times> cstr option \<times> int) list \<Rightarrow> global_default_hostgroups \<Rightarrow> (int \<times> global_default_hostgroups) option" where
  "sqlite3_flush_default_hostgroups_db_to_mem rows DefHG = do {
     DefHG \<leftarrow> delete_all_defHG DefHG;
     let DefHG = add_defHGs rows DefHG;
     Some (int (length rows), DefHG\<lparr>dg_version := dg_version DefHG + 1\<rparr>)
   }"

subsection \<open>The statement of a session\<close>

text \<open>
  \<^verbatim>\<open>query_stats\<close> points to an entry that the session owns. A pointer to an entry that was freed stays a
  pointer: \<open>FreedStats\<close>.
\<close>

datatype stats_ptr = NullStats | Stats qr_hash_entry | FreedStats

record query_metadata =
  qi_p :: "pkt option"
  qi_query_checksum :: "byte list option" \<comment> \<open>the bytes fed to the checksum\<close>
  qi_flagOUT :: int
  qi_rewritten :: bool
  qi_cache_ttl :: int
  qi_destination_hostgroup :: int
  qi_audit_log :: int
  qi_performance_log :: int
  qi_mysql_query_cache_hit :: bool
  qi_query :: "byte list option"
  qi_prepared_statement :: bool
  qi_query_stats :: stats_ptr

record rule_sess = auth_sess +
  rs_query_info :: query_metadata
  rs_default_hostgroup :: int
  rs_default_hostgroup_version :: "32 word"

abbreviation upd_info :: "(query_metadata \<Rightarrow> query_metadata) \<Rightarrow> 'a rule_sess_scheme \<Rightarrow> 'a rule_sess_scheme" where
  "upd_info f sess \<equiv> sess\<lparr>rs_query_info := f (rs_query_info sess)\<rparr>"

definition cleanup_query_stats :: "stats_ptr \<Rightarrow> stats_ptr option" where
  "cleanup_query_stats q = (case q of Stats _ \<Rightarrow> Some FreedStats | _ \<Rightarrow> None)"

text \<open>The bytes of a query packet after its header and command byte.\<close>

definition query_of :: "pkt \<Rightarrow> byte list option" where
  "query_of p = do { data \<leftarrow> pk_data p; if pk_length p < 5 then None else mem_read data 5 (pk_length p - 5) }"

text \<open>
  The settings that are read: whether statistics are kept, the current time, and the memory the digest
  is built in. \<open>md5\<close> is the checksum of OpenSSL. A statement of a session without user or schema has no
  statistics key; the model stops at the copy of the name.
\<close>

definition new_query_stats :: "(byte list \<Rightarrow> byte list) \<Rightarrow> (nat \<Rightarrow> byte) \<Rightarrow> int \<Rightarrow> byte list \<Rightarrow> 'a rule_sess_scheme \<Rightarrow> qr_hash_entry option" where
  "new_query_stats md5 junk monotonic_time query sess = do {
     text \<leftarrow> mysql_query_digest junk query;
     username \<leftarrow> as_username sess;
     schemaname \<leftarrow> as_schema_cur sess;
     Some \<lparr>qe_key = None, qe_exec_cnt = 0, qe_query_digest_text = c_string text,
           qe_query_digest_md5 = str2md5 md5 (c_string text), qe_hostgroup_id = 0, qe_username = username,
           qe_schemaname = schemaname, qe_mysql_server_address = None, qe_query_time = monotonic_time,
           qe_mysql_server_port = 0\<rparr>
   }"

definition init_query_metadata ::
    "(byte list \<Rightarrow> byte list) \<Rightarrow> (nat \<Rightarrow> byte) \<Rightarrow> bool \<Rightarrow> int \<Rightarrow> pkt option \<Rightarrow> 'a rule_sess_scheme \<Rightarrow> 'a rule_sess_scheme option" where
  "init_query_metadata md5 junk mysql_query_statistics monotonic_time p sess = do {
     let sess = upd_info (\<lambda>q. q\<lparr>qi_p := p, qi_query_checksum := None, qi_flagOUT := 0, qi_rewritten := False,
                          qi_cache_ttl := 0, qi_destination_hostgroup := -1, qi_audit_log := 0,
                          qi_performance_log := 0, qi_mysql_query_cache_hit := False\<rparr>) sess;
     sess \<leftarrow> (if qi_query_stats (rs_query_info sess) \<noteq> NullStats
              then do { q \<leftarrow> cleanup_query_stats (qi_query_stats (rs_query_info sess));
                        Some (upd_info (qi_query_stats_update (\<lambda>_. q)) sess) }
              else Some sess);
     case p of
       Some p \<Rightarrow> do {
         query \<leftarrow> query_of p;
         let sess = upd_info (qi_query_update (\<lambda>_. Some query)) sess;
         if mysql_query_statistics
         then do { e \<leftarrow> new_query_stats md5 junk monotonic_time query sess;
                   Some (upd_info (qi_query_stats_update (\<lambda>_. Stats e)) sess) }
         else Some sess
       }
     | None \<Rightarrow> Some (upd_info (qi_query_update (\<lambda>_. None)) sess)
   }"

subsection \<open>Applying the rules\<close>

definition mysql_session_default_hostgroup :: "global_default_hostgroups \<Rightarrow> 'a rule_sess_scheme \<Rightarrow> (int \<times> 'a rule_sess_scheme) option" where
  "mysql_session_default_hostgroup gloDefHG sess = do {
     let sess = sess\<lparr>rs_default_hostgroup_version := dg_version gloDefHG\<rparr>;
     h \<leftarrow> find_defHG gloDefHG (as_username sess) (as_schema_cur sess);
     Some (0, sess\<lparr>rs_default_hostgroup := h\<rparr>)
   }"

text \<open>\<^verbatim>\<open>strcmp\<close> of a name of a rule, if it has one, with the name of the session.\<close>

definition name_matches :: "cstr option \<Rightarrow> cstr option \<Rightarrow> bool option" where
  "name_matches rule_name name = (case rule_name of None \<Rightarrow> Some True | Some s \<Rightarrow> map_option (\<lambda>t. s = t) name)"

definition rule_matches :: "regex_lib \<Rightarrow> int \<Rightarrow> query_rule \<Rightarrow> 'a rule_sess_scheme \<Rightarrow> bool option" where
  "rule_matches rx flagIN qr sess =
     (if qr_flagIN qr \<noteq> flagIN then Some False
      else do {
        b \<leftarrow> name_matches (qr_username qr) (as_username sess);
        if \<not> b then Some False
        else do {
          b \<leftarrow> name_matches (qr_schemaname qr) (as_schema_cur sess);
          if \<not> b then Some False
          else do {
            query \<leftarrow> qi_query (rs_query_info sess);
            let rc = rx_match rx (qr_regex qr) query;
            Some (\<not> ((rc \<and> qr_negate_match_pattern qr = 1) \<or> (\<not> rc \<and> qr_negate_match_pattern qr = 0)))
          }}})"

text \<open>
  The replacement: \<open>Some None\<close> is the error of \<^verbatim>\<open>g_regex_replace\<close>. The packet of the statement gets new
  data.
\<close>

definition rewrite_query :: "regex_lib \<Rightarrow> (nat \<Rightarrow> byte) \<Rightarrow> query_rule \<Rightarrow> 'a rule_sess_scheme \<Rightarrow> 'a rule_sess_scheme option option" where
  "rewrite_query rx junk qr sess =
     (case qr_replace_pattern qr of
        None \<Rightarrow> Some (Some sess)
      | Some pat \<Rightarrow> do {
          query \<leftarrow> qi_query (rs_query_info sess);
          let (new_query, err) = rx_replace rx (qr_regex qr) query pat;
          if err then Some None
          else do {
            new_query \<leftarrow> new_query;
            p \<leftarrow> mysql_new_payload_select junk (new_query @ [0]) (-1);
            query \<leftarrow> query_of p;
            Some (Some (upd_info (\<lambda>q. q\<lparr>qi_rewritten := True, qi_query_checksum := None, qi_p := Some p,
                                      qi_query := Some query\<rparr>) sess))
          }})"

definition apply_rule :: "query_rule \<Rightarrow> query_metadata \<Rightarrow> query_metadata" where
  "apply_rule qr q =
     (let q = (if qr_flagOUT qr \<noteq> 0 then q\<lparr>qi_flagOUT := qr_flagOUT qr\<rparr> else q);
          q = (if qr_cache_ttl qr \<noteq> 0 then q\<lparr>qi_cache_ttl := qr_cache_ttl qr\<rparr> else q);
          q = (if qr_destination_hostgroup qr \<ge> 0 then q\<lparr>qi_destination_hostgroup := qr_destination_hostgroup qr\<rparr> else q);
          q = (if qr_audit_log qr = 1 then q\<lparr>qi_audit_log := qr_audit_log qr\<rparr> else q)
      in (if qr_performance_log qr = 1 then q\<lparr>qi_performance_log := qr_performance_log qr\<rparr> else q))"

fun rules_loop :: "regex_lib \<Rightarrow> (nat \<Rightarrow> byte) \<Rightarrow> query_rule list \<Rightarrow> int \<Rightarrow> 'a rule_sess_scheme \<Rightarrow> (query_rule list \<times> 'a rule_sess_scheme) option" where
  "rules_loop rx junk [] flagIN sess = Some ([], sess)"
| "rules_loop rx junk (qr # qrs) flagIN sess = do {
     b \<leftarrow> rule_matches rx flagIN qr sess;
     if \<not> b then do { (qrs, sess) \<leftarrow> rules_loop rx junk qrs flagIN sess; Some (qr # qrs, sess) }
     else do {
       let qr = qr\<lparr>qr_hits := qr_hits qr + 1\<rparr>;
       r \<leftarrow> rewrite_query rx junk qr sess;
       case r of
         None \<Rightarrow> do { (qrs, sess) \<leftarrow> rules_loop rx junk qrs flagIN sess; Some (qr # qrs, sess) }
       | Some sess \<Rightarrow> do {
           let flagIN = (if qr_flagOUT qr \<noteq> 0 then qr_flagOUT qr else flagIN);
           let sess = upd_info (apply_rule qr) sess;
           if qi_cache_ttl (rs_query_info sess) \<noteq> 0 then Some (qr # qrs, sess)
           else do { (qrs, sess) \<leftarrow> rules_loop rx junk qrs flagIN sess; Some (qr # qrs, sess) }
         }}}"

definition final_ttl :: "int \<Rightarrow> bool \<Rightarrow> int \<Rightarrow> int" where
  "final_ttl default_timeout cache_enabled ttl =
     (let ttl = (if ttl = 0 then default_timeout else ttl);
          ttl = (if ttl = -1 then 0 else ttl)
      in (if \<not> cache_enabled then 0 else ttl))"

definition default_destination :: "global_default_hostgroups \<Rightarrow> 'a rule_sess_scheme \<Rightarrow> 'a rule_sess_scheme option" where
  "default_destination gloDefHG sess =
     (if qi_destination_hostgroup (rs_query_info sess) = -1
      then if rs_default_hostgroup sess = -1 \<or> rs_default_hostgroup_version sess \<noteq> dg_version gloDefHG
           then do { (h, sess) \<leftarrow> mysql_session_default_hostgroup gloDefHG sess;
                     Some (upd_info (qi_destination_hostgroup_update (\<lambda>_. h)) sess) }
           else Some (upd_info (qi_destination_hostgroup_update (\<lambda>_. rs_default_hostgroup sess)) sess)
      else Some sess)"

definition process_query_rules ::
    "regex_lib \<Rightarrow> (nat \<Rightarrow> byte) \<Rightarrow> int \<Rightarrow> bool \<Rightarrow> global_default_hostgroups \<Rightarrow> query_rule list \<Rightarrow> 'a rule_sess_scheme
       \<Rightarrow> (query_rule list \<times> 'a rule_sess_scheme) option" where
  "process_query_rules rx junk default_timeout cache_enabled gloDefHG rules sess = do {
     (rules, sess) \<leftarrow> rules_loop rx junk rules 0 sess;
     let sess = upd_info (\<lambda>q. q\<lparr>qi_cache_ttl := final_ttl default_timeout cache_enabled (qi_cache_ttl q)\<rparr>) sess;
     sess \<leftarrow> default_destination gloDefHG sess;
     Some (rules, sess)
   }"

subsection \<open>Lemmas: loading\<close>

lemma reset_rules_loop_Nil [simp]: "reset_rules_loop rules = []"
  by (induction rules rule: reset_rules_loop.induct) (subst reset_rules_loop.simps, simp)

text \<open>What the sanity checks establish.\<close>

definition rule_ok :: "int \<Rightarrow> query_rule \<Rightarrow> bool" where
  "rule_ok n qr \<longleftrightarrow> 0 \<le> qr_flagIN qr \<and> (qr_negate_match_pattern qr = 0 \<or> qr_negate_match_pattern qr = 1)
     \<and> 0 \<le> qr_flagOUT qr \<and> 0 \<le> qr_destination_hostgroup qr \<and> qr_destination_hostgroup qr < n
     \<and> (qr_audit_log qr = 0 \<or> qr_audit_log qr = 1) \<and> (qr_performance_log qr = 0 \<or> qr_performance_log qr = 1)
     \<and> 0 \<le> qr_cache_tag qr \<and> 0 \<le> qr_invalidate_cache_tag qr \<and> -1 \<le> qr_cache_ttl qr"

lemma rule_of_row_ok: "qr_destination_hostgroup (rule_of_row rx r) < n \<Longrightarrow> rule_ok n (rule_of_row rx r)"
  by (auto simp: rule_ok_def rule_of_row_def Let_def)

lemma load_rules_spec:
  "load_rules rx n rows rules k =
     (k + int (length (filter (\<lambda>r. qr_destination_hostgroup (rule_of_row rx r) < n) rows)),
      rules @ map (rule_of_row rx) (filter (\<lambda>r. qr_destination_hostgroup (rule_of_row rx r) < n) rows))"
  by (induction rows arbitrary: rules k) (simp_all add: Let_def)

lemma load_rules_ok: "\<forall>qr \<in> set rules. rule_ok n qr \<Longrightarrow> \<forall>qr \<in> set (snd (load_rules rx n rows rules k)). rule_ok n qr"
  by (auto simp: load_rules_spec intro: rule_of_row_ok)

lemma flush_rules_ok:
  assumes "sqlite3_flush_query_rules_db_to_mem rx n timeout cnt rows old = Some (k, rules)"
  shows "\<forall>qr \<in> set rules. rule_ok n qr"
  using assms load_rules_ok [of "[]" n rx _ 0]
  by (auto simp: sqlite3_flush_query_rules_db_to_mem_def reset_query_rules_def Let_def split: option.splits)
    (metis snd_conv)+

subsection \<open>Lemmas: the rules on a statement\<close>

definition query_pkt :: "byte list \<Rightarrow> pkt" where
  "query_pkt q = \<lparr>pk_length = length q + 5, pk_data = Some (mysql_hdr (length q + 1) 0 @ 3 # q)\<rparr>"

lemma query_of_query_pkt [simp]: "query_of (query_pkt q) = Some q"
  by (simp add: query_of_def query_pkt_def mem_read_def mysql_hdr_def)

lemma new_payload_query_pkt:
  assumes "length (c_string (s @ [0])) < 2 ^ 24 - 1"
  shows "mysql_new_payload_select junk (s @ [0]) (-1) = Some (query_pkt (c_string (s @ [0])))"
proof -
  let ?q = "c_string (s @ [0])"
  have l: "c_strlen (s @ [0]) = length ?q" by (simp add: c_strlen_def)
  have "mem_read (s @ [0]) 0 (length ?q) = Some ?q"
    using takeWhile_eq_take [of "\<lambda>c. c \<noteq> 0" "s @ [0]"] c_strlen_le [of "s @ [0]"]
    by (simp add: mem_read_def c_string_def l [unfolded c_string_def])
  moreover have "make_pkt (fresh junk) (length ?q + 1) 0 [Put [3], Put ?q] = Some (query_pkt ?q)"
    using make_pkt_puts [of "[[3], ?q]" "length ?q + 1" "[Put [3], Put ?q]" junk 0] assms
    by (simp add: query_pkt_def)
  ultimately show ?thesis by (simp add: mysql_new_payload_select_def l)
qed

text \<open>
  The reference: the rules a statement passes, each with the text of the statement after it. A rule is
  selected by its flag, names and pattern; a failing replacement makes it not apply; the first rule
  that decides about caching ends the search.
\<close>

definition selects :: "regex_lib \<Rightarrow> cstr \<Rightarrow> cstr \<Rightarrow> int \<Rightarrow> query_rule \<Rightarrow> byte list \<Rightarrow> bool" where
  "selects rx u s flag qr q \<longleftrightarrow> qr_flagIN qr = flag \<and> qr_username qr \<in> {None, Some u} \<and> qr_schemaname qr \<in> {None, Some s}
     \<and> rx_match rx (qr_regex qr) q = (qr_negate_match_pattern qr = 0)"

definition rewritten_query :: "regex_lib \<Rightarrow> query_rule \<Rightarrow> byte list \<Rightarrow> byte list option" where
  "rewritten_query rx qr q = (case qr_replace_pattern qr of None \<Rightarrow> Some q
     | Some pat \<Rightarrow> (case rx_replace rx (qr_regex qr) q pat of (Some n, False) \<Rightarrow> Some (c_string (n @ [0])) | _ \<Rightarrow> None))"

fun rule_path :: "regex_lib \<Rightarrow> cstr \<Rightarrow> cstr \<Rightarrow> query_rule list \<Rightarrow> int \<Rightarrow> byte list \<Rightarrow> (query_rule \<times> byte list) list" where
  "rule_path rx u s [] flag q = []"
| "rule_path rx u s (qr # qrs) flag q =
     (case (if selects rx u s flag qr q then rewritten_query rx qr q else None) of
        None \<Rightarrow> rule_path rx u s qrs flag q
      | Some q' \<Rightarrow> (qr, q') # (if qr_cache_ttl qr \<noteq> 0 then []
                              else rule_path rx u s qrs (if qr_flagOUT qr \<noteq> 0 then qr_flagOUT qr else flag) q'))"

text \<open>What the code relies on of \<^verbatim>\<open>g_regex_replace\<close>: a string or an error, and a string that fits a packet.\<close>

definition rx_ok :: "regex_lib \<Rightarrow> bool" where
  "rx_ok rx \<longleftrightarrow> (\<forall>r q pat. case rx_replace rx (Some r) q pat of (None, e) \<Rightarrow> e | (Some n, e) \<Rightarrow> length n < 2 ^ 24 - 1)"

definition path_step :: "query_metadata \<Rightarrow> query_rule \<times> byte list \<Rightarrow> query_metadata" where
  "path_step i = (\<lambda>(qr, q). apply_rule qr
     (if qr_replace_pattern qr = None then i
      else i\<lparr>qi_rewritten := True, qi_query_checksum := None, qi_p := Some (query_pkt q), qi_query := Some q\<rparr>))"

lemma rule_matches_selects:
  assumes "rule_ok n qr" and "as_username sess = Some u" and "as_schema_cur sess = Some s"
    and "qi_query (rs_query_info sess) = Some q"
  shows "rule_matches rx flag qr sess = Some (selects rx u s flag qr q)"
  using assms by (auto simp: rule_matches_def selects_def name_matches_def rule_ok_def split: option.splits)

lemma hits_irrelevant [simp]:
  "rewrite_query rx junk (qr\<lparr>qr_hits := h\<rparr>) sess = rewrite_query rx junk qr sess"
  "apply_rule (qr\<lparr>qr_hits := h\<rparr>) = apply_rule qr"
  "rule_ok n (qr\<lparr>qr_hits := h\<rparr>) = rule_ok n qr"
  by (simp_all add: rewrite_query_def apply_rule_def rule_ok_def fun_eq_iff cong: option.case_cong)

lemma length_c_string_le: "length (c_string (n @ [0])) \<le> length n"
  using length_takeWhile_le [of "\<lambda>c. c \<noteq> 0" n] by (simp add: c_string_def takeWhile_append)

lemma rewrite_query_spec:
  assumes "rx_ok rx" and "qr_regex qr \<noteq> None" and "qi_query (rs_query_info sess) = Some q"
  shows "rewrite_query rx junk qr sess = Some (case rewritten_query rx qr q of None \<Rightarrow> None
     | Some q' \<Rightarrow> Some (if qr_replace_pattern qr = None then sess
         else upd_info (\<lambda>i. i\<lparr>qi_rewritten := True, qi_query_checksum := None, qi_p := Some (query_pkt q'), qi_query := Some q'\<rparr>) sess))"
proof (cases "qr_replace_pattern qr")
  case None
  then show ?thesis by (simp add: rewrite_query_def rewritten_query_def)
next
  case (Some pat)
  obtain n e where ne: "rx_replace rx (qr_regex qr) q pat = (n, e)" by (rule prod.exhaust)
  obtain r where r: "qr_regex qr = Some r" using assms(2) by blast
  have ok: "case n of None \<Rightarrow> e | Some n \<Rightarrow> length n < 2 ^ 24 - 1"
    using assms(1) [unfolded rx_ok_def, rule_format, of r q pat] ne r by (simp del: power_numeral)
  show ?thesis
  proof (cases e)
    case True
    then show ?thesis using Some ne assms(3) by (simp add: rewrite_query_def rewritten_query_def split: option.splits)
  next
    case False
    with ok obtain m where m: "n = Some m" "length m < 2 ^ 24 - 1" by (cases n) auto
    with length_c_string_le [of m] have "mysql_new_payload_select junk (m @ [0]) (-1) = Some (query_pkt (c_string (m @ [0])))"
      by (intro new_payload_query_pkt) linarith
    then show ?thesis using Some ne assms(3) False m(1) by (simp add: rewrite_query_def rewritten_query_def)
  qed
qed

text \<open>The loop follows the path, and changes nothing of the rules but the hits.\<close>

definition same_rule :: "query_rule \<Rightarrow> query_rule \<Rightarrow> bool" where
  "same_rule a b \<longleftrightarrow> a\<lparr>qr_hits := 0\<rparr> = b\<lparr>qr_hits := 0\<rparr>"

lemma same_rule_simps [simp]: "same_rule a a" "same_rule (a\<lparr>qr_hits := h\<rparr>) a"
  by (simp_all add: same_rule_def)

lemma same_rule_ok: "same_rule a b \<Longrightarrow> rule_ok n a = rule_ok n b"
  unfolding same_rule_def by (metis hits_irrelevant(3))

lemma list_all2_same_rule [simp]: "list_all2 same_rule rules rules"
  by (simp add: list_all2_same)

lemma apply_rule_query [simp]:
  "qi_query (apply_rule qr i) = qi_query i" "qi_p (apply_rule qr i) = qi_p i"
  "qi_query_checksum (apply_rule qr i) = qi_query_checksum i" "qi_query_stats (apply_rule qr i) = qi_query_stats i"
  "qi_cache_ttl (apply_rule qr i) = (if qr_cache_ttl qr \<noteq> 0 then qr_cache_ttl qr else qi_cache_ttl i)"
  "qi_destination_hostgroup (apply_rule qr i) = (if qr_destination_hostgroup qr \<ge> 0 then qr_destination_hostgroup qr else qi_destination_hostgroup i)"
  by (simp_all add: apply_rule_def Let_def)

lemma rules_loop_path:
  assumes "rx_ok rx" and "\<forall>qr \<in> set rules. rule_ok n qr \<and> qr_regex qr \<noteq> None"
    and "as_username sess = Some u" and "as_schema_cur sess = Some s"
    and "qi_query (rs_query_info sess) = Some q" and "qi_cache_ttl (rs_query_info sess) = 0"
  shows "\<exists>rules'. rules_loop rx junk rules flag sess
           = Some (rules', sess\<lparr>rs_query_info := foldl path_step (rs_query_info sess) (rule_path rx u s rules flag q)\<rparr>)
         \<and> list_all2 same_rule rules' rules"
  using assms(2-)
proof (induction rules arbitrary: flag sess q)
  case Nil
  then show ?case by simp
next
  case (Cons qr qrs)
  have m: "rule_matches rx flag qr sess = Some (selects rx u s flag qr q)"
    using Cons.prems by (intro rule_matches_selects) auto
  have w: "rewrite_query rx junk qr sess = Some (case rewritten_query rx qr q of None \<Rightarrow> None
     | Some q' \<Rightarrow> Some (if qr_replace_pattern qr = None then sess
         else upd_info (\<lambda>i. i\<lparr>qi_rewritten := True, qi_query_checksum := None, qi_p := Some (query_pkt q'), qi_query := Some q'\<rparr>) sess))"
    using Cons.prems by (intro rewrite_query_spec assms(1)) auto
  show ?case
  proof (cases "if selects rx u s flag qr q then rewritten_query rx qr q else None")
    case None
    from Cons.IH [of sess q flag] Cons.prems obtain r where
      "rules_loop rx junk qrs flag sess = Some (r, sess\<lparr>rs_query_info := foldl path_step (rs_query_info sess) (rule_path rx u s qrs flag q)\<rparr>)"
      "list_all2 same_rule r qrs" by auto
    with None show ?thesis by (auto simp: m w split: if_splits)
  next
    case (Some q')
    then have sel: "selects rx u s flag qr q" "rewritten_query rx qr q = Some q'" by (auto split: if_splits)
    define sess0 where "sess0 = (if qr_replace_pattern qr = None then sess
         else upd_info (\<lambda>i. i\<lparr>qi_rewritten := True, qi_query_checksum := None, qi_p := Some (query_pkt q'), qi_query := Some q'\<rparr>) sess)"
    define sess1 where "sess1 = sess0\<lparr>rs_query_info := apply_rule qr (rs_query_info sess0)\<rparr>"
    define f where "f = (if qr_flagOUT qr \<noteq> 0 then qr_flagOUT qr else flag)"
    have s1': "sess1 = sess\<lparr>rs_query_info := path_step (rs_query_info sess) (qr, q')\<rparr>"
      by (simp add: sess1_def sess0_def path_step_def)
    have q': "qr_replace_pattern qr = None \<Longrightarrow> q' = q" using sel(2) by (simp add: rewritten_query_def)
    have s1: "as_username sess1 = Some u" "as_schema_cur sess1 = Some s" "qi_query (rs_query_info sess1) = Some q'"
      "qi_cache_ttl (rs_query_info sess1) = qr_cache_ttl qr"
      using Cons.prems q' by (auto simp: sess1_def sess0_def)
    have ttl: "qi_cache_ttl (apply_rule qr (rs_query_info sess0)) = qr_cache_ttl qr" using s1(4) by (simp add: sess1_def)
    have w0: "rewrite_query rx junk qr sess = Some (Some sess0)" using w sel(2) by (simp add: sess0_def)
    have step: "rules_loop rx junk (qr # qrs) flag sess =
      (if qr_cache_ttl qr \<noteq> 0 then Some (qr\<lparr>qr_hits := qr_hits qr + 1\<rparr> # qrs, sess1)
       else do { (r, sess) \<leftarrow> rules_loop rx junk qrs f sess1; Some (qr\<lparr>qr_hits := qr_hits qr + 1\<rparr> # r, sess) })"
      using sel(1) s1(4) by (simp add: m w0 Let_def sess1_def [symmetric] f_def ttl del: apply_rule_query)
    show ?thesis
    proof (cases "qr_cache_ttl qr = 0")
      case False
      then show ?thesis unfolding step using sel by (simp add: s1')
    next
      case True
      from Cons.IH [of sess1 q' f] Cons.prems s1 True obtain r where
        r: "rules_loop rx junk qrs f sess1 = Some (r, sess1\<lparr>rs_query_info := foldl path_step (rs_query_info sess1) (rule_path rx u s qrs f q')\<rparr>)"
        "list_all2 same_rule r qrs" by auto
      have "rule_path rx u s (qr # qrs) flag q = (qr, q') # rule_path rx u s qrs f q'" using sel True by (simp add: f_def)
      then show ?thesis unfolding step using r True by (simp add: s1')
    qed
  qed
qed

text \<open>What a path does to the statement.\<close>

lemma path_ttl:
  assumes "qi_cache_ttl i = 0"
  shows "qi_cache_ttl (foldl path_step i (rule_path rx u s rules flag q))
     = (if rule_path rx u s rules flag q = [] then 0 else qr_cache_ttl (fst (last (rule_path rx u s rules flag q))))"
  using assms
proof (induction rules arbitrary: flag q i)
  case (Cons qr qrs)
  show ?case
  proof (cases "if selects rx u s flag qr q then rewritten_query rx qr q else None")
    case None
    then show ?thesis using Cons by simp
  next
    case (Some q')
    have t: "qi_cache_ttl (path_step i (qr, q')) = qr_cache_ttl qr" using Cons.prems by (simp add: path_step_def)
    show ?thesis
    proof (cases "qr_cache_ttl qr = 0")
      case True
      then show ?thesis using Cons.IH [of "path_step i (qr, q')"] Some t by simp
    next
      case False
      then show ?thesis using Some t by simp
    qed
  qed
qed simp

lemma path_members: "(qr, q') \<in> set (rule_path rx u s rules flag q) \<Longrightarrow> qr \<in> set rules"
  by (induction rules arbitrary: flag q) (auto split: option.splits if_splits)

lemma path_destination:
  assumes "\<forall>qr \<in> fst ` set path. 0 \<le> qr_destination_hostgroup qr"
  shows "qi_destination_hostgroup (foldl path_step i path)
    = (if path = [] then qi_destination_hostgroup i else qr_destination_hostgroup (fst (last path)))"
  using assms by (induction path rule: rev_induct) (auto simp: path_step_def split: prod.splits)

definition path_text :: "byte list \<Rightarrow> (query_rule \<times> byte list) list \<Rightarrow> byte list" where
  "path_text q path = (if path = [] then q else snd (last path))"

lemma path_query:
  assumes "qi_query i = Some q" and "qi_p i = Some p" and "query_of p = Some q"
  shows "qi_query (foldl path_step i (rule_path rx u s rules flag q)) = Some (path_text q (rule_path rx u s rules flag q))
    \<and> (\<exists>p'. qi_p (foldl path_step i (rule_path rx u s rules flag q)) = Some p' \<and> query_of p' = Some (path_text q (rule_path rx u s rules flag q)))"
  using assms
proof (induction rules arbitrary: flag q i p)
  case (Cons qr qrs)
  show ?case
  proof (cases "if selects rx u s flag qr q then rewritten_query rx qr q else None")
    case None
    then show ?thesis using Cons.IH [OF Cons.prems, of flag] by simp
  next
    case (Some q')
    then have "qr_replace_pattern qr = None \<Longrightarrow> q' = q" by (simp add: rewritten_query_def split: if_splits)
    then obtain p' where t: "qi_query (path_step i (qr, q')) = Some q'" "qi_p (path_step i (qr, q')) = Some p'" "query_of p' = Some q'"
      using Cons.prems by (cases "qr_replace_pattern qr") (auto simp: path_step_def)
    then show ?thesis using Cons.IH [OF t, of "if qr_flagOUT qr \<noteq> 0 then qr_flagOUT qr else flag"] Some by (auto simp: path_text_def)
  qed
qed (simp add: path_text_def)

subsection \<open>Properties\<close>

lemma new_query_stats_ok:
  assumes "as_username sess = Some u" and "as_schema_cur sess = Some s"
  shows "new_query_stats md5 junk t q sess \<noteq> None"
proof -
  obtain r where "mysql_query_digest junk q = Some r" using digest_result by blast
  then show ?thesis using assms by (simp add: new_query_stats_def)
qed

lemma init_query_metadata_ok:
  assumes "query_of p = Some q" and "as_username sess = Some u" and "as_schema_cur sess = Some s"
    and "qi_query_stats (rs_query_info sess) \<noteq> FreedStats"
  shows "\<exists>sess1. init_query_metadata md5 junk st t (Some p) sess = Some sess1
    \<and> sess1 = sess\<lparr>rs_query_info := rs_query_info sess1\<rparr>
    \<and> qi_p (rs_query_info sess1) = Some p \<and> qi_query (rs_query_info sess1) = Some q \<and> qi_cache_ttl (rs_query_info sess1) = 0
    \<and> qi_destination_hostgroup (rs_query_info sess1) = -1 \<and> qi_query_checksum (rs_query_info sess1) = None
    \<and> (st \<longrightarrow> (\<exists>e. qi_query_stats (rs_query_info sess1) = Stats e))"
proof (cases st)
  case False
  then show ?thesis using assms
    by (cases "qi_query_stats (rs_query_info sess)") (simp_all add: init_query_metadata_def cleanup_query_stats_def)
next
  case True
  have "new_query_stats md5 junk t q sess' \<noteq> None" if "as_username sess' = Some u" "as_schema_cur sess' = Some s" for sess' :: "'a rule_sess_scheme"
    using that by (rule new_query_stats_ok)
  then show ?thesis using True assms
    by (cases "qi_query_stats (rs_query_info sess)")
      (auto simp: init_query_metadata_def cleanup_query_stats_def split: Option.bind_splits)
qed

lemma path_stats: "qi_query_stats (foldl path_step i path) = qi_query_stats i"
  by (induction path arbitrary: i) (auto simp: path_step_def apply_rule_def Let_def split: prod.splits)

text \<open>What the rules make of a statement that one of them selects.\<close>

lemma process_query_rules_path:
  fixes rx u s rules q
  defines "path \<equiv> rule_path rx u s rules 0 q"
  assumes "rx_ok rx" and ok: "\<forall>qr \<in> set rules. rule_ok n qr" and "\<forall>qr \<in> set rules. qr_regex qr \<noteq> None"
    and us: "as_username sess = Some u" "as_schema_cur sess = Some s"
    and i: "qi_p (rs_query_info sess) = Some p" "qi_query (rs_query_info sess) = Some q" "qi_cache_ttl (rs_query_info sess) = 0"
    and p: "query_of p = Some q" and ne: "path \<noteq> []"
  shows "\<exists>rules' i p'. process_query_rules rx junk default_timeout cache_enabled DefHG rules sess = Some (rules', sess\<lparr>rs_query_info := i\<rparr>)
    \<and> qi_p i = Some p' \<and> query_of p' = Some (snd (last path)) \<and> qi_query i = Some (snd (last path))
    \<and> qi_destination_hostgroup i = qr_destination_hostgroup (fst (last path))
    \<and> qi_cache_ttl i = final_ttl default_timeout cache_enabled (qr_cache_ttl (fst (last path)))
    \<and> rule_ok n (fst (last path)) \<and> qi_query_stats i = qi_query_stats (rs_query_info sess)"
proof -
  define i where "i = foldl path_step (rs_query_info sess) path"
  obtain r where r: "rules_loop rx junk rules 0 sess = Some (r, sess\<lparr>rs_query_info := i\<rparr>)"
    using rules_loop_path [OF assms(2) _ us i(2,3), of rules n junk 0] ok assms(4) by (auto simp: i_def path_def)
  have "fst (last path) \<in> set rules"
    using path_members [of "fst (last path)" "snd (last path)" rx u s rules 0 q] ne by (simp add: path_def)
  then have lok: "rule_ok n (fst (last path))" using ok by blast
  have dok: "\<forall>qr \<in> fst ` set path. 0 \<le> qr_destination_hostgroup qr"
    using ok by (fastforce simp: path_def rule_ok_def dest: path_members)
  have d: "qi_destination_hostgroup i = qr_destination_hostgroup (fst (last path))"
    using path_destination [of "path" "rs_query_info sess"] dok ne by (simp add: i_def)
  have t: "qi_cache_ttl i = qr_cache_ttl (fst (last path))"
    using path_ttl [OF i(3), of rx u s rules 0 q] ne by (simp add: i_def path_def)
  obtain p' where q: "qi_query i = Some (snd (last path))" "qi_p i = Some p'" "query_of p' = Some (snd (last path))"
    using path_query [OF i(2,1) p, of rx u s rules 0] ne by (auto simp: i_def path_def path_text_def)
  have "process_query_rules rx junk default_timeout cache_enabled DefHG rules sess
      = Some (r, sess\<lparr>rs_query_info := i\<lparr>qi_cache_ttl := final_ttl default_timeout cache_enabled (qi_cache_ttl i)\<rparr>\<rparr>)"
    using d lok by (simp add: process_query_rules_def r default_destination_def rule_ok_def)
  then show ?thesis using q d t lok path_stats [of "rs_query_info sess" "path", folded i_def] by auto
qed


text \<open>A library in which an expression is a prefix, one rule that rewrites and caches, and a session.\<close>

definition sample_rx :: regex_lib where
  "sample_rx = \<lparr>rx_new = (\<lambda>p. p), rx_match = (\<lambda>r q. case r of None \<Rightarrow> False | Some p \<Rightarrow> take (length p) q = p),
                rx_replace = (\<lambda>r q pat. (Some (take 100 pat), False))\<rparr>"

definition sample_row :: rule_row where
  "sample_row = default_rule_row\<lparr>rr_match_pattern := Some [83], rr_replace_pattern := Some [84, 85],
                  rr_destination_hostgroup := 1, rr_cache_ttl := 5\<rparr>"

definition sample_info :: query_metadata where
  "sample_info = \<lparr>qi_p = None, qi_query_checksum = None, qi_flagOUT = 0, qi_rewritten = False, qi_cache_ttl = 0,
     qi_destination_hostgroup = -1, qi_audit_log = 0, qi_performance_log = 0, qi_mysql_query_cache_hit = False,
     qi_query = None, qi_prepared_statement = False, qi_query_stats = NullStats\<rparr>"

definition sample_sess :: rule_sess where
  "sample_sess = \<lparr>as_admin = 0, as_username = Some [97], as_password = Some [], as_schema_cur = Some [98],
     as_scramble_buf = [], as_waiting_change_user_response = False, rs_query_info = sample_info,
     rs_default_hostgroup = -1, rs_default_hostgroup_version = -1\<rparr>"

lemma sample_sess_simps [simp]:
  "as_username sample_sess = Some [97]" "as_schema_cur sample_sess = Some [98]" "rs_query_info sample_sess = sample_info"
  "rs_default_hostgroup sample_sess = -1" "rs_default_hostgroup_version sample_sess = -1"
  "qi_query_stats sample_info = NullStats" "qi_destination_hostgroup sample_info = -1"
  by (simp_all add: sample_sess_def sample_info_def)

lemma sample_rx_ok: "rx_ok sample_rx"
  by (simp add: rx_ok_def sample_rx_def min_less_iff_disj)

lemma sample_flush:
  "sqlite3_flush_query_rules_db_to_mem sample_rx 2 0 1 (\<lambda>_. [sample_row]) None = Some (1, [rule_of_row sample_rx sample_row])"
  by (simp add: sqlite3_flush_query_rules_db_to_mem_def reset_query_rules_def sample_row_def default_rule_row_def rule_of_row_def)

lemma sample_rule:
  "qr_regex (rule_of_row sample_rx sample_row) = Some [83]" "qr_destination_hostgroup (rule_of_row sample_rx sample_row) = 1"
  "qr_cache_ttl (rule_of_row sample_rx sample_row) = 5"
  by (simp_all add: rule_of_row_def sample_rx_def sample_row_def default_rule_row_def)

lemma sample_path:
  "rule_path sample_rx [97] [98] [rule_of_row sample_rx sample_row] 0 [83, 84] = [(rule_of_row sample_rx sample_row, [84, 85])]"
  by (simp add: selects_def rewritten_query_def rule_of_row_def sample_rx_def sample_row_def default_rule_row_def c_string_def)


lemma add_defHGs_entries:
  "dg_default_hostgroups (add_defHGs rows d) = dg_default_hostgroups d
     @ map (\<lambda>(junk, _, schemaname, h). \<lparr>dh_username = cptr_of schemaname, dh_schemaname = junk, dh_hostgroup_id = h\<rparr>) rows"
  by (induction rows d rule: add_defHGs.induct) (simp_all add: add_defHG_def)

lemma find_dhg_none: "\<forall>d \<in> set dhgs. c d = Some False \<Longrightarrow> find_dhg c dhgs = Some None"
  by (induction dhgs) simp_all



text \<open>
  The default hostgroup of a session takes effect one statement late: \<^verbatim>\<open>mysql_session_default_hostgroup\<close>
  stores the hostgroup it found but returns 0, so the statement that triggers the lookup goes to
  hostgroup 0 and the next one, with an unchanged table, to the hostgroup of the table.
\<close>

theorem first_statement_misrouted:
  assumes "find_defHG DefHG (as_username sess) (as_schema_cur sess) = Some h" and "h \<noteq> -1"
    and "rs_default_hostgroup sess = -1" and "qi_destination_hostgroup (rs_query_info sess) = -1"
  shows "\<exists>sess1. default_destination DefHG sess = Some sess1 \<and> qi_destination_hostgroup (rs_query_info sess1) = 0
    \<and> (\<exists>sess2. default_destination DefHG (upd_info (\<lambda>i. i\<lparr>qi_destination_hostgroup := -1\<rparr>) sess1) = Some sess2
         \<and> qi_destination_hostgroup (rs_query_info sess2) = h)"
  using assms by (simp add: default_destination_def mysql_session_default_hostgroup_def)

theorem first_statement_misrouted_witness:
  "\<exists>sess1. default_destination (add_defHGs [(NullPtr, None, Some [97], 3)] glo_DefHG_init) sample_sess = Some sess1
    \<and> qi_destination_hostgroup (rs_query_info sess1) = 0
    \<and> (\<exists>sess2. default_destination (add_defHGs [(NullPtr, None, Some [97], 3)] glo_DefHG_init)
             (upd_info (\<lambda>i. i\<lparr>qi_destination_hostgroup := -1\<rparr>) sess1) = Some sess2
         \<and> qi_destination_hostgroup (rs_query_info sess2) = 3)"
  by (rule first_statement_misrouted)
    (simp_all add: find_defHG_def perfect_match_def schema_match_def user_match_def add_defHG_def glo_DefHG_init_def)

text \<open>
  Switching the statistics off while a statement is in progress leads to a double free: the entry of
  this statement is freed when the next one starts, its pointer is kept, and the statement after that
  frees it again.
\<close>

theorem stats_double_free:
  assumes "qi_query_stats (rs_query_info sess) = Stats e"
    and "init_query_metadata md5 junk False t1 (Some p1) sess = Some sess1"
  shows "init_query_metadata md5 junk' st t2 p2 sess1 = None"
  using assms by (auto simp: init_query_metadata_def cleanup_query_stats_def split: Option.bind_splits)

theorem stats_double_free_witness:
  "\<exists>sess1 sess2. init_query_metadata (\<lambda>_. []) (\<lambda>_. 0) True 0 (Some (query_pkt [83])) sample_sess = Some sess1
    \<and> init_query_metadata (\<lambda>_. []) (\<lambda>_. 0) False 0 (Some (query_pkt [84])) sess1 = Some sess2
    \<and> init_query_metadata (\<lambda>_. []) (\<lambda>_. 0) False 0 (Some (query_pkt [85])) sess2 = None"
proof -
  have i: "qi_query_stats (rs_query_info sample_sess) \<noteq> FreedStats" by simp
  obtain sess1 where s1: "init_query_metadata (\<lambda>_. []) (\<lambda>_. 0) True 0 (Some (query_pkt [83])) sample_sess = Some sess1"
      "sess1 = sample_sess\<lparr>rs_query_info := rs_query_info sess1\<rparr>" "True \<longrightarrow> (\<exists>e. qi_query_stats (rs_query_info sess1) = Stats e)"
    by (rule exE [OF init_query_metadata_ok [OF query_of_query_pkt sample_sess_simps(1,2) i, of "\<lambda>_. []" "\<lambda>_. 0" True 0]], elim conjE, rule that)
  then obtain e where e: "qi_query_stats (rs_query_info sess1) = Stats e" by blast
  then have i1: "qi_query_stats (rs_query_info sess1) \<noteq> FreedStats" by simp
  have u: "as_username sess1 = Some [97]" "as_schema_cur sess1 = Some [98]" by (subst s1(2), simp)+
  obtain sess2 where s2: "init_query_metadata (\<lambda>_. []) (\<lambda>_. 0) False 0 (Some (query_pkt [84])) sess1 = Some sess2"
    by (rule exE [OF init_query_metadata_ok [OF query_of_query_pkt u i1, of "\<lambda>_. []" "\<lambda>_. 0" False 0]], elim conjE, rule that)
  show ?thesis using s1(1) s2 stats_double_free [OF e s2] by blast
qed

end
