(* ===== verification/GlobalVars.thy ===== *)
theory GlobalVars
  imports Servers ConnPool QueryRules "HOL-Library.Signed_Division"
begin

section \<open>Global variables and the configuration file\<close>

text \<open>
  \<^verbatim>\<open>src/global_variables.c\<close>: the table \<^verbatim>\<open>glo_entries\<close> of the configuration variables,
  \<^verbatim>\<open>process_global_variables_from_file\<close>, and \<^verbatim>\<open>init_global_variables\<close>, which sets up the program from the
  configuration file.

  The variables live where \<^verbatim>\<open>arg_data\<close> points. A pointer is the name of the variable, as the C
  source writes it, and the memory is two maps from names to values, one for the integers and one for
  the strings. Integers keep their C width: \<open>c_int\<close> and \<open>c_longlong\<close> wrap.

  The parsed file (\<^verbatim>\<open>GKeyFile\<close> of GLib) is the record \<open>keyfile\<close> of what its access functions return.
  \<open>None\<close> is the end of the process: \<^verbatim>\<open>exit\<close> or a failed \<^verbatim>\<open>assert\<close>.
\<close>

definition c_int :: "int \<Rightarrow> int" where
  "c_int x = signed_take_bit 31 x"

definition c_longlong :: "int \<Rightarrow> int" where
  "c_longlong x = signed_take_bit 63 x"

record keyfile =
  kf_has_group :: "string \<Rightarrow> bool"
  kf_has_key :: "string \<Rightarrow> string \<Rightarrow> bool"
  kf_get_integer :: "string \<Rightarrow> string \<Rightarrow> int"
  kf_get_string :: "string \<Rightarrow> string \<Rightarrow> cstr option"
  kf_users :: "(cstr \<times> cstr option) list" \<comment> \<open>the keys of \<^verbatim>\<open>[mysql users]\<close> with their strings\<close>
  kf_servers :: "cstr list" \<comment> \<open>the list \<^verbatim>\<open>mysql_servers\<close>\<close>

subsection \<open>The table\<close>

datatype option_arg = ARG_STRING | ARG_INT | ARG_INT64

datatype func_pre = PreMysqlThreads

datatype func_post = PostCoreDumpFileSize | PostConnpoolInit | PostGlomysrvs

record global_variable_entry =
  ge_group_name :: string
  ge_key_name :: string
  ge_dynamic :: int
  ge_arg :: option_arg
  ge_arg_data :: string
  ge_value_min :: int
  ge_value_max :: int
  ge_value_round :: int
  ge_value_multiplier :: int
  ge_int_default :: int
  ge_char_default :: string
  ge_func_pre :: "func_pre option"
  ge_func_post :: "func_post option"

definition int_var :: "string \<Rightarrow> string \<Rightarrow> int \<Rightarrow> string \<Rightarrow> int \<Rightarrow> int \<Rightarrow> int \<Rightarrow> int \<Rightarrow> int \<Rightarrow> global_variable_entry" where
  "int_var g k dyn data vmin vmax rnd mul dflt =
     \<lparr>ge_group_name = g, ge_key_name = k, ge_dynamic = dyn, ge_arg = ARG_INT, ge_arg_data = data, ge_value_min = vmin,
      ge_value_max = vmax, ge_value_round = rnd, ge_value_multiplier = mul, ge_int_default = dflt, ge_char_default = [],
      ge_func_pre = None, ge_func_post = None\<rparr>"

definition int64_var :: "string \<Rightarrow> string \<Rightarrow> int \<Rightarrow> string \<Rightarrow> int \<Rightarrow> int \<Rightarrow> int \<Rightarrow> int \<Rightarrow> int \<Rightarrow> global_variable_entry" where
  "int64_var g k dyn data vmin vmax rnd mul dflt = (int_var g k dyn data vmin vmax rnd mul dflt)\<lparr>ge_arg := ARG_INT64\<rparr>"

definition str_var :: "string \<Rightarrow> string \<Rightarrow> int \<Rightarrow> string \<Rightarrow> string \<Rightarrow> global_variable_entry" where
  "str_var g k dyn data dflt = (int_var g k dyn data 0 0 0 0 0)\<lparr>ge_arg := ARG_STRING, ge_char_default := dflt\<rparr>"

definition glo_entries :: "global_variable_entry list" where
  "glo_entries =
    [
     (int_var ''global'' ''core_dump_file_size'' 0 ''glovars.core_dump_file_size'' 0 2147483647 0 0 0)\<lparr>ge_func_post := Some PostCoreDumpFileSize\<rparr>,
     int_var ''global'' ''stack_size'' 0 ''glovars.stack_size'' 65536 33554432 1024 0 524288,
     int_var ''global'' ''net_buffer_size'' 0 ''glovars.net_buffer_size'' 1024 16777216 1024 0 8192,
     int_var ''global'' ''backlog'' 0 ''glovars.backlog'' 50 10000 0 0 2000,
     int_var ''global'' ''debug'' 1 ''gdbg'' 0 1 0 0 1,
     int_var ''global'' ''merge_configfile_db'' 0 ''glovars.merge_configfile_db'' 0 1 0 0 1,
     str_var ''global'' ''datadir'' 0 ''glovars.proxy_datadir'' ''/var/run/proxysql'',
     str_var ''global'' ''pid_file'' 0 ''glovars.proxy_pidfile'' ''proxysql.pid'',
     str_var ''global'' ''error_log'' 0 ''glovars.proxy_errorlog'' ''proxysql.log'',
     str_var ''global'' ''debug_log'' 0 ''glovars.proxy_debuglog'' ''debug.log'',
     int_var ''global'' ''restart_on_error'' 0 ''glovars.proxy_restart_on_error'' 0 1 0 0 1,
     int_var ''global'' ''restart_delay'' 0 ''glovars.proxy_restart_delay'' 0 600 0 0 5,
     str_var ''admin'' ''proxy_admin_pathdb'' 0 ''glovars.proxy_admin_pathdb'' ''proxysql.db'',
     str_var ''admin'' ''proxy_admin_bind'' 0 ''glovars.proxy_admin_bind'' ''0.0.0.0'',
     int_var ''admin'' ''proxy_admin_port'' 0 ''glovars.proxy_admin_port'' 0 65535 0 0 6032,
     str_var ''admin'' ''proxy_admin_user'' 0 ''glovars.proxy_admin_user'' ''admin'',
     str_var ''admin'' ''proxy_admin_password'' 0 ''glovars.proxy_admin_password'' ''admin'',
     int_var ''admin'' ''proxy_admin_refresh_status_interval'' 0 ''glovars.proxy_admin_refresh_status_interval'' 0 3600 0 0 600,
     str_var ''admin'' ''proxy_monitor_bind'' 0 ''glovars.proxy_monitor_bind'' ''0.0.0.0'',
     int_var ''admin'' ''proxy_monitor_port'' 0 ''glovars.proxy_monitor_port'' 0 65535 0 0 6031,
     str_var ''admin'' ''proxy_monitor_user'' 0 ''glovars.proxy_monitor_user'' ''monitor'',
     str_var ''admin'' ''proxy_monitor_password'' 0 ''glovars.proxy_monitor_password'' ''monitor'',
     int_var ''admin'' ''proxy_monitor_refresh_status_interval'' 0 ''glovars.proxy_monitor_refresh_status_interval'' 0 3600 0 0 10,
     int_var ''admin'' ''sync_to_disk_on_flush_command'' 0 ''glovars.admin_sync_disk_on_flush'' 0 1 0 0 1,
     int_var ''admin'' ''sync_to_disk_on_shutdown'' 0 ''glovars.admin_sync_disk_on_shutdown'' 0 1 0 0 1,
     str_var ''admin'' ''persistent_statistics_pathdb'' 0 ''glovars.persistent_statistics_pathdb'' ''querystats.db'',
     str_var ''admin'' ''debug_pathdb'' 0 ''glovars.debug_pathdb'' ''debug.db'',
     int_var ''http'' ''http_start'' 0 ''glovars.http_start'' 0 1 0 0 0,
     str_var ''mysql'' ''proxy_mysql_bind'' 0 ''glovars.proxy_mysql_bind'' ''0.0.0.0'',
     int_var ''mysql'' ''proxy_mysql_port'' 0 ''glovars.proxy_mysql_port'' 0 65535 0 0 6033,
     str_var ''mysql'' ''mysql_server_version'' 0 ''glovars.mysql_server_version'' ''5.1.30'',
     str_var ''mysql'' ''mysql_socket'' 0 ''glovars.mysql_socket'' ''/tmp/proxysql.sock'',
     str_var ''mysql'' ''mysql_default_schema'' 0 ''glovars.mysql_default_schema'' ''information_schema'',
     (int_var ''mysql'' ''mysql_connection_pool_enabled'' 0 ''gloconnpool.enabled'' 0 1 0 0 1)\<lparr>ge_func_post := Some PostConnpoolInit\<rparr>,
     int_var ''mysql'' ''mysql_parse_trx_cmds'' 0 ''glovars.mysql_parse_trx_cmds'' 0 1 0 0 0,
     int_var ''mysql'' ''mysql_share_connections'' 0 ''glovars.mysql_share_connections'' 0 1 0 0 0,
     int_var ''mysql'' ''mysql_query_cache_enabled'' 0 ''glovars.mysql_query_cache_enabled'' 0 1 0 0 1,
     int_var ''mysql'' ''mysql_query_cache_partitions'' 0 ''glovars.mysql_query_cache_partitions'' 1 128 0 0 16,
     int64_var ''mysql'' ''mysql_query_cache_size'' 1 ''glovars.mysql_query_cache_size'' 1048576 9223372036854775807 0 0 1048576,
     int_var ''mysql'' ''mysql_query_cache_default_timeout'' 0 ''glovars.mysql_query_cache_default_timeout'' 0 315360000 0 0 1,
     int_var ''mysql'' ''mysql_query_cache_precheck'' 1 ''glovars.mysql_query_cache_precheck'' 0 1 0 0 1,
     int_var ''mysql'' ''mysql_query_statistics_enabled'' 1 ''glovars.mysql_query_statistics'' 0 1 0 0 0,
     int_var ''mysql'' ''mysql_query_statistics_interval'' 1 ''glovars.mysql_query_statistics_interval'' 5 600 0 0 10,
     int_var ''mysql'' ''mysql_auto_reconnect_enabled'' 0 ''glovars.mysql_auto_reconnect_enabled'' 0 1 0 0 0,
     str_var ''mysql'' ''mysql_usage_user'' 0 ''glovars.mysql_usage_user'' ''proxy'',
     str_var ''mysql'' ''mysql_usage_password'' 0 ''glovars.mysql_usage_password'' ''proxy'',
     (int_var ''mysql'' ''mysql_threads'' 0 ''glovars.mysql_threads'' 1 128 0 0 2)\<lparr>ge_func_pre := Some PreMysqlThreads\<rparr>,
     int_var ''mysql'' ''mysql_max_query_size'' 1 ''glovars.mysql_max_query_size'' 0 16777210 0 0 1048576,
     int64_var ''mysql'' ''mysql_max_resultset_size'' 0 ''glovars.mysql_max_resultset_size'' 0 2147483647 0 0 1048576,
     int_var ''mysql'' ''mysql_poll_timeout'' 1 ''glovars.mysql_poll_timeout'' 100 2147483647 0 0 10000,
     int_var ''mysql'' ''mysql_poll_timeout_maintenance'' 1 ''glovars.mysql_poll_timeout_maintenance'' 100 1000 0 0 100,
     int_var ''mysql'' ''mysql_maintenance_timeout'' 1 ''glovars.mysql_maintenance_timeout'' 1000 60000 0 0 10000,
     int64_var ''mysql'' ''mysql_wait_timeout'' 1 ''glovars.mysql_wait_timeout'' 1 604800 0 1000000 28800,
     (int_var ''mysql'' ''mysql_hostgroups'' 0 ''glovars.mysql_hostgroups'' 2 64 0 0 8)\<lparr>ge_func_post := Some PostGlomysrvs\<rparr>,
     int64_var ''fundadb'' ''fundadb_hash_purge_time'' 1 ''fdb_system_var.hash_purge_time'' 100 600000 0 1000 10000,
     int64_var ''fundadb'' ''fundadb_hash_purge_loop'' 1 ''fdb_system_var.hash_purge_loop'' 100 600000 0 100 100,
     int_var ''fundadb'' ''fundadb_hash_expire_default'' 0 ''fdb_system_var.hash_expire_default'' 1 315360000 0 0 10,
     int_var ''fundadb'' ''fundadb_hash_purge_threshold_pct_min'' 1 ''fdb_system_var.purge_threshold_pct_min'' 0 90 0 0 50,
     int_var ''fundadb'' ''fundadb_hash_purge_threshold_pct_max'' 1 ''fdb_system_var.purge_threshold_pct_max'' 50 100 0 0 90]"

subsection \<open>Reading the variables\<close>

record users =
  us_mysql_users_name :: "cstr list"
  us_mysql_users_pass :: "cstr list"
  us_usernames :: "cstr \<Rightarrow> cstr option"

record debug_level =
  dl_module :: nat
  dl_verbosity :: int
  dl_name :: nat \<comment> \<open>a pointer\<close>

record config =
  cf_int :: "string \<Rightarrow> int"
  cf_str :: "string \<Rightarrow> cstr option"
  cf_glomysrvs :: glomysrvs
  cf_connpools :: "mysql_connpool list"
  cf_query_rules :: "query_rule list option"
  cf_users :: users
  cf_gdbg_lvl :: "debug_level list"

abbreviation set_int :: "string \<Rightarrow> int \<Rightarrow> config \<Rightarrow> config" where
  "set_int a v cf \<equiv> cf\<lparr>cf_int := (cf_int cf)(a := v)\<rparr>"

abbreviation set_str :: "string \<Rightarrow> cstr option \<Rightarrow> config \<Rightarrow> config" where
  "set_str a v cf \<equiv> cf\<lparr>cf_str := (cf_str cf)(a := v)\<rparr>"

text \<open>
  What the operating system answers: the number of processors, whether the core size limit can be set,
  and whether a server answers and is read only.
\<close>

record os_env =
  os_nprocessors :: int
  os_setrlimit_core :: "int \<Rightarrow> bool"
  os_check_alive :: "cstr \<Rightarrow> nat \<Rightarrow> int"

definition pre_variable_mysql_threads :: "os_env \<Rightarrow> global_variable_entry \<Rightarrow> config \<Rightarrow> config option" where
  "pre_variable_mysql_threads os gve cf =
     (let rc = c_int (os_nprocessors os * 2)
      in if rc > 0 then Some (set_int (ge_arg_data gve) rc cf) else None)"

definition post_variable_core_dump_file_size :: "os_env \<Rightarrow> global_variable_entry \<Rightarrow> config \<Rightarrow> config option" where
  "post_variable_core_dump_file_size os gve cf =
     (let r = cf_int cf (ge_arg_data gve) in if os_setrlimit_core os r then Some cf else None)"

definition mysql_connpool_init :: "config \<Rightarrow> config" where
  "mysql_connpool_init cf = cf\<lparr>cf_connpools := []\<rparr>"

definition run_pre :: "os_env \<Rightarrow> global_variable_entry \<Rightarrow> config \<Rightarrow> config option" where
  "run_pre os gve cf =
     (case ge_func_pre gve of None \<Rightarrow> Some cf | Some PreMysqlThreads \<Rightarrow> pre_variable_mysql_threads os gve cf)"

definition run_post :: "os_env \<Rightarrow> global_variable_entry \<Rightarrow> config \<Rightarrow> config option" where
  "run_post os gve cf =
     (case ge_func_post gve of
        None \<Rightarrow> Some cf
      | Some PostCoreDumpFileSize \<Rightarrow> post_variable_core_dump_file_size os gve cf
      | Some PostConnpoolInit \<Rightarrow> Some (mysql_connpool_init cf)
      | Some PostGlomysrvs \<Rightarrow>
          Some (cf\<lparr>cf_glomysrvs := init_glomysrvs (nat (cf_int cf ''glovars.mysql_hostgroups''))\<rparr>))"

text \<open>
  The integer branches. \<^verbatim>\<open>r\<close> is a \<^verbatim>\<open>gint\<close>: assigning a limit to it truncates. The default that
  the code stores first is always overwritten.
\<close>

definition multiplier :: "global_variable_entry \<Rightarrow> int" where
  "multiplier gve = (if ge_value_multiplier gve > 0 then ge_value_multiplier gve else 1)"

definition clamp_value :: "global_variable_entry \<Rightarrow> int \<Rightarrow> int" where
  "clamp_value gve r =
     (let r = (if r < ge_value_min gve then c_int (ge_value_min gve) else r);
          r = (if r > ge_value_max gve then c_int (ge_value_max gve) else r)
      in if ge_value_round gve \<noteq> 0 then c_int (c_int (r sdiv ge_value_round gve) * ge_value_round gve) else r)"

definition store_int :: "global_variable_entry \<Rightarrow> int \<Rightarrow> config \<Rightarrow> config" where
  "store_int gve r cf =
     (case ge_arg gve of
        ARG_STRING \<Rightarrow> cf
      | ARG_INT \<Rightarrow> set_int (ge_arg_data gve) (c_int (r * multiplier gve)) cf
      | ARG_INT64 \<Rightarrow> set_int (ge_arg_data gve) (c_longlong (r * multiplier gve)) cf)"

definition read_variable :: "keyfile \<Rightarrow> global_variable_entry \<Rightarrow> config \<Rightarrow> config" where
  "read_variable gkf gve cf =
     (if kf_has_key gkf (ge_group_name gve) (ge_key_name gve) then
        (if ge_arg gve = ARG_STRING
         then set_str (ge_arg_data gve) (kf_get_string gkf (ge_group_name gve) (ge_key_name gve)) cf
         else store_int gve (clamp_value gve (kf_get_integer gkf (ge_group_name gve) (ge_key_name gve))) cf)
      else if ge_func_pre gve = None then
        (if ge_arg gve = ARG_STRING then set_str (ge_arg_data gve) (Some (str (ge_char_default gve))) cf
         else store_int gve (ge_int_default gve) cf)
      else cf)"

definition process_entry :: "keyfile \<Rightarrow> os_env \<Rightarrow> int \<Rightarrow> global_variable_entry \<Rightarrow> config \<Rightarrow> config option" where
  "process_entry gkf os dyn gve cf =
     (if dyn > ge_dynamic gve then Some cf
      else do {
        cf \<leftarrow> run_pre os gve cf;
        run_post os gve (read_variable gkf gve cf)
      })"

fun process_entries :: "keyfile \<Rightarrow> os_env \<Rightarrow> int \<Rightarrow> global_variable_entry list \<Rightarrow> config \<Rightarrow> config option" where
  "process_entries gkf os dyn [] cf = Some cf"
| "process_entries gkf os dyn (gve # gves) cf = do { cf \<leftarrow> process_entry gkf os dyn gve cf; process_entries gkf os dyn gves cf }"

definition process_global_variables_from_file :: "keyfile \<Rightarrow> os_env \<Rightarrow> int \<Rightarrow> config \<Rightarrow> config option" where
  "process_global_variables_from_file gkf os dyn cf = process_entries gkf os dyn glo_entries cf"

subsection \<open>Debug levels\<close>

text \<open>
  \<open>lit\<close> gives the address of a string literal. The array is laid out as in memory, 16 bytes per
  module: the module number, the verbosity, the pointer to the name.
\<close>

definition debug_names :: "string list" where
  "debug_names = [''debug_generic'', ''debug_net'', ''debug_pkt_array'', ''debug_poll'', ''debug_mysql_com'',
     ''debug_mysql_server'', ''debug_mysql_connection'', ''debug_mysql_rw_split'', ''debug_mysql_auth'', ''debug_memory'',
     ''debug_admin'', ''debug_sqlite'', ''debug_ipc'', ''debug_query_cache'', ''debug_query_statistics'']"

definition PROXY_DEBUG_UNKNOWN :: nat where
  "PROXY_DEBUG_UNKNOWN = 15"

definition init_debug_struct :: "(string \<Rightarrow> nat) \<Rightarrow> int \<Rightarrow> debug_level list" where
  "init_debug_struct lit gdbg =
     map (\<lambda>i. \<lparr>dl_module = i, dl_verbosity = (if gdbg \<noteq> 0 then 2147483647 else 0), dl_name = lit (debug_names ! i)\<rparr>)
       [0..<PROXY_DEBUG_UNKNOWN]"

definition level_bytes :: "debug_level \<Rightarrow> byte list" where
  "level_bytes d = le_bytes 4 (dl_module d) @ le_bytes 4 (nat (dl_verbosity d mod 2 ^ 32)) @ le_bytes 8 (dl_name d)"

definition level_of_bytes :: "byte list \<Rightarrow> debug_level" where
  "level_of_bytes bs =
     \<lparr>dl_module = le_nat (take 4 bs), dl_verbosity = c_int (int (le_nat (take 4 (drop 4 bs)))), dl_name = le_nat (take 8 (drop 8 bs))\<rparr>"

fun levels_of_bytes :: "nat \<Rightarrow> byte list \<Rightarrow> debug_level list" where
  "levels_of_bytes 0 bs = []"
| "levels_of_bytes (Suc n) bs = level_of_bytes (take 16 bs) # levels_of_bytes n (drop 16 bs)"

text \<open>\<^verbatim>\<open>memset(gdbg_lvl, 0, n)\<close>.\<close>

definition memset_levels :: "nat \<Rightarrow> debug_level list \<Rightarrow> debug_level list option" where
  "memset_levels n ls = do {
     mem \<leftarrow> mem_write (concat (map level_bytes ls)) 0 (replicate n 0);
     Some (levels_of_bytes (length ls) mem)
   }"

text \<open>\<open>txt\<close> reads the string a name points to; a name that is no string ends the process.\<close>

fun read_levels :: "keyfile \<Rightarrow> (nat \<Rightarrow> string option) \<Rightarrow> debug_level list \<Rightarrow> debug_level list option" where
  "read_levels gkf txt [] = Some []"
| "read_levels gkf txt (d # ds) = do {
     let d = d\<lparr>dl_verbosity := 0\<rparr>;
     name \<leftarrow> txt (dl_name d);
     let d = (if kf_has_key gkf ''debug'' name
              then let r = kf_get_integer gkf ''debug'' name in if r \<ge> 0 then d\<lparr>dl_verbosity := r\<rparr> else d
              else d);
     ds \<leftarrow> read_levels gkf txt ds;
     Some (d # ds)
   }"

definition process_debug_section :: "keyfile \<Rightarrow> (nat \<Rightarrow> string option) \<Rightarrow> debug_level list \<Rightarrow> debug_level list option" where
  "process_debug_section gkf txt ls =
     (if \<not> kf_has_group gkf ''debug'' then memset_levels (4 * PROXY_DEBUG_UNKNOWN) ls else read_levels gkf txt ls)"

subsection \<open>Users and servers of the file\<close>

fun load_users :: "(cstr \<times> cstr option) list \<Rightarrow> users \<Rightarrow> users option" where
  "load_users [] us = Some us"
| "load_users ((name, pass) # rest) us = do {
     pass \<leftarrow> pass;
     load_users rest
       \<lparr>us_mysql_users_name = us_mysql_users_name us @ [name], us_mysql_users_pass = us_mysql_users_pass us @ [pass],
        us_usernames = (us_usernames us)(name \<mapsto> pass)\<rparr>
   }"

definition load_mysql_users_from_file :: "keyfile \<Rightarrow> users option" where
  "load_mysql_users_from_file gkf =
     (let us = \<lparr>us_mysql_users_name = [], us_mysql_users_pass = [], us_usernames = Map.empty\<rparr>
      in if kf_users gkf = [] then None else load_users (kf_users gkf) us)"

text \<open>\<open>addrs\<close> are the addresses at which the servers are allocated.\<close>

definition load_servers_section :: "keyfile \<Rightarrow> os_env \<Rightarrow> nat list \<Rightarrow> config \<Rightarrow> config option" where
  "load_servers_section gkf os addrs cf = do {
     let cf = set_int ''glomysrvs.mysql_use_masters_for_reads'' 1 cf;
     let cf = (if kf_has_key gkf ''mysql'' ''mysql_use_masters_for_reads''
                  \<and> kf_get_integer gkf ''mysql'' ''mysql_use_masters_for_reads'' = 0
               then set_int ''glomysrvs.mysql_use_masters_for_reads'' 0 cf else cf);
     if kf_has_key gkf ''mysql'' ''mysql_servers''
     then do { gs \<leftarrow> load_mysql_servers_list_from_file (os_check_alive os) (zip addrs (kf_servers gkf)) (cf_glomysrvs cf);
               Some (cf\<lparr>cf_glomysrvs := gs\<rparr>) }
     else None
   }"

subsection \<open>Initialisation\<close>

text \<open>
  The capability flags are those of the MySQL protocol: found rows 2, connect with schema 8, protocol
  41 512, ignore sigpipe 4096, transactions 8192, secure connection 32768.
\<close>

definition fixed_variables :: "config \<Rightarrow> config" where
  "fixed_variables cf =
     set_int ''fdb_system_var.hash_expire_max'' (3600 * 24 * 365 * 10)
      (set_int ''glovars.shutdown'' 0 (set_int ''glovars.thread_id'' 1 (set_int ''glovars.server_status'' 2
        (set_int ''glovars.server_language'' 33
          (set_int ''glovars.server_capabilities'' (2 + 512 + 4096 + 8192 + 32768 + 8)
            (set_int ''glovars.protocol_version'' 10 cf))))))"

definition init_global_variables ::
    "keyfile \<Rightarrow> os_env \<Rightarrow> (nat \<Rightarrow> string option) \<Rightarrow> nat list \<Rightarrow> int \<Rightarrow> config \<Rightarrow> (int \<times> config) option" where
  "init_global_variables gkf os txt addrs runtime cf =
     (if \<not> kf_has_group gkf ''global'' \<or> \<not> kf_has_group gkf ''mysql users''
      then (if runtime = 0 then None else Some (-1, cf))
      else do {
        levels \<leftarrow> process_debug_section gkf txt (cf_gdbg_lvl cf);
        let cf = cf\<lparr>cf_gdbg_lvl := levels\<rparr>;
        let cf = (if runtime = 0 then (fixed_variables cf)\<lparr>cf_query_rules := init_gloQR\<rparr> else cf);
        cf \<leftarrow> process_global_variables_from_file gkf os 0 cf;
        cf \<leftarrow> (if runtime = 0
               then do { cf \<leftarrow> load_servers_section gkf os addrs cf;
                         us \<leftarrow> load_mysql_users_from_file gkf;
                         Some (cf\<lparr>cf_users := us\<rparr>) }
               else Some cf);
        let cf = (if cf_int cf ''fdb_system_var.hash_purge_loop'' > cf_int cf ''fdb_system_var.hash_purge_time''
                  then set_int ''fdb_system_var.hash_purge_loop'' (cf_int cf ''fdb_system_var.hash_purge_time'') cf else cf);
        Some (0, cf)
      })"

text \<open>
  \<open>isfile\<close>, \<open>readable\<close> and \<open>load\<close> are the file system and the parser of GLib: which names are files,
  which of them can be read, and the parsed contents.
\<close>

definition config_file_is_readable :: "(cstr \<Rightarrow> bool) \<Rightarrow> (cstr \<Rightarrow> bool) \<Rightarrow> cstr \<Rightarrow> bool" where
  "config_file_is_readable isfile readable config_file =
     (if \<not> isfile config_file then False else if \<not> readable config_file then False else True)"

definition main_opts ::
    "(cstr \<Rightarrow> bool) \<Rightarrow> (cstr \<Rightarrow> bool) \<Rightarrow> (cstr \<Rightarrow> keyfile option) \<Rightarrow> os_env \<Rightarrow> (string \<Rightarrow> nat) \<Rightarrow> (nat \<Rightarrow> string option) \<Rightarrow> nat list
       \<Rightarrow> cstr option \<Rightarrow> config \<Rightarrow> config option" where
  "main_opts isfile readable load os lit txt addrs config_file_ptr cf = do {
     let cf = cf\<lparr>cf_gdbg_lvl := init_debug_struct lit (cf_int cf ''gdbg'')\<rparr>;
     let config_file = (case config_file_ptr of Some f \<Rightarrow> f
                        | None \<Rightarrow> if isfile (str ''proxysql.cnf'') then str ''proxysql.cnf'' else str ''/etc/proxysql.cnf'');
     if \<not> config_file_is_readable isfile readable config_file then None
     else do {
       keyfile \<leftarrow> load config_file;
       (_, cf) \<leftarrow> init_global_variables keyfile os txt addrs 0 cf;
       Some (set_str ''glovars.proxy_configfile'' (Some config_file) cf)
     }
   }"

text \<open>\<^verbatim>\<open>sighup_handler\<close> of \<^verbatim>\<open>src/admin.c\<close> reads the file again.\<close>

definition sighup_handler ::
    "(cstr \<Rightarrow> bool) \<Rightarrow> (cstr \<Rightarrow> bool) \<Rightarrow> (cstr \<Rightarrow> keyfile option) \<Rightarrow> os_env \<Rightarrow> (nat \<Rightarrow> string option) \<Rightarrow> config \<Rightarrow> config option" where
  "sighup_handler isfile readable load os txt cf = do {
     config_file \<leftarrow> cf_str cf ''glovars.proxy_configfile'';
     if \<not> config_file_is_readable isfile readable config_file then Some cf
     else case load config_file of
            None \<Rightarrow> Some cf
          | Some keyfile \<Rightarrow> map_option snd (init_global_variables keyfile os txt [] 1 cf)
   }"

subsection \<open>Lemmas: the variables\<close>

lemma c_int_id: "- (2 ^ 31) \<le> x \<Longrightarrow> x < 2 ^ 31 \<Longrightarrow> c_int x = x"
  unfolding c_int_def by (rule signed_take_bit_int_eq_self)

lemma c_longlong_id: "- (2 ^ 63) \<le> x \<Longrightarrow> x < 2 ^ 63 \<Longrightarrow> c_longlong x = x"
  unfolding c_longlong_def by (rule signed_take_bit_int_eq_self)

text \<open>What the table has to satisfy for the limits to hold.\<close>

definition width_max :: "global_variable_entry \<Rightarrow> int" where
  "width_max gve = min (ge_value_max gve) (2 ^ 31 - 1)"

definition gve_ok :: "global_variable_entry \<Rightarrow> bool" where
  "gve_ok gve \<longleftrightarrow> 0 \<le> ge_value_min gve \<and> ge_value_min gve < 2 ^ 31 \<and> ge_value_min gve \<le> ge_int_default gve
     \<and> ge_int_default gve \<le> width_max gve
     \<and> (ge_value_round gve = 0 \<or> 0 < ge_value_round gve \<and> ge_value_round gve dvd ge_value_min gve)
     \<and> width_max gve * multiplier gve < (if ge_arg gve = ARG_INT then 2 ^ 31 else 2 ^ 63)"

definition in_bounds :: "global_variable_entry \<Rightarrow> int \<Rightarrow> bool" where
  "in_bounds gve v \<longleftrightarrow> ge_value_min gve * multiplier gve \<le> v \<and> v \<le> width_max gve * multiplier gve"

lemma multiplier_pos: "0 < multiplier gve"
  by (simp add: multiplier_def)

lemma round_bounds:
  assumes "0 < k" and "k dvd m" and "m \<le> r" and "0 \<le> (m :: int)"
  shows "m \<le> r div k * k" and "r div k * k \<le> r"
proof -
  have "m div k * k \<le> r div k * k" using zdiv_mono1 [OF assms(3,1)] assms(1) by (simp add: mult_right_mono)
  then show "m \<le> r div k * k" using assms(2) by simp
  show "r div k * k \<le> r" using pos_mod_sign [OF assms(1), of r] div_mult_mod_eq [of r k] by linarith
qed

lemma clamp_value_bounds:
  assumes "gve_ok gve" and "- (2 ^ 31) \<le> r" and "r < 2 ^ 31"
  shows "ge_value_min gve \<le> clamp_value gve r \<and> clamp_value gve r \<le> width_max gve"
proof -
  let ?lo = "ge_value_min gve" and ?hi = "ge_value_max gve"
  have t: "0 \<le> ?lo" "?lo < 2 ^ 31" "?lo \<le> width_max gve" using assms(1) by (auto simp: gve_ok_def)
  define r1 where "r1 = (if r < ?lo then c_int ?lo else r)"
  have r1: "?lo \<le> r1" "r1 < 2 ^ 31" using assms t c_int_id [of ?lo] by (auto simp: r1_def)
  define r2 where "r2 = (if r1 > ?hi then c_int ?hi else r1)"
  have r2: "?lo \<le> r2" "r2 \<le> width_max gve" using r1 t c_int_id [of ?hi] by (auto simp: r2_def width_max_def)
  show ?thesis
  proof (cases "ge_value_round gve = 0")
    case True
    then show ?thesis using r2 by (simp add: clamp_value_def Let_def r1_def [symmetric] r2_def [symmetric])
  next
    case False
    then have k: "0 < ge_value_round gve" "ge_value_round gve dvd ?lo" using assms(1) by (auto simp: gve_ok_def)
    have b: "?lo \<le> r2 div ge_value_round gve * ge_value_round gve" "r2 div ge_value_round gve * ge_value_round gve \<le> r2"
      using round_bounds [OF k r2(1) t(1)] .
    have q0: "0 \<le> r2 div ge_value_round gve" using k(1) r2(1) t(1) by (simp add: pos_imp_zdiv_nonneg_iff)
    then have "r2 div ge_value_round gve \<le> r2 div ge_value_round gve * ge_value_round gve" using k(1) by (simp add: mult_le_cancel_left1)
    with b(2) q0 have q: "0 \<le> r2 div ge_value_round gve" "r2 div ge_value_round gve \<le> r2" by linarith+
    have "r2 sdiv ge_value_round gve = r2 div ge_value_round gve"
      using k(1) r2(1) t(1) by (cases "r2 = 0") (simp_all add: signed_divide_int_def sgn_if)
    then have "clamp_value gve r = r2 div ge_value_round gve * ge_value_round gve"
      using False b q r2 t(1) c_int_id by (simp add: clamp_value_def Let_def r1_def [symmetric] r2_def [symmetric] width_max_def)
    then show ?thesis using b r2 by linarith
  qed
qed

lemma store_int_bounds:
  assumes "gve_ok gve" and "ge_arg gve \<noteq> ARG_STRING" and "ge_value_min gve \<le> r" and "r \<le> width_max gve"
  shows "in_bounds gve (cf_int (store_int gve r cf) (ge_arg_data gve))"
proof -
  have b: "ge_value_min gve * multiplier gve \<le> r * multiplier gve" "r * multiplier gve \<le> width_max gve * multiplier gve"
    using assms(3,4) multiplier_pos [of gve] by (simp_all add: mult_right_mono)
  have "0 \<le> ge_value_min gve * multiplier gve" using assms(1) multiplier_pos [of gve] by (simp add: gve_ok_def)
  moreover have "width_max gve * multiplier gve < (if ge_arg gve = ARG_INT then 2 ^ 31 else 2 ^ 63)"
    using assms(1) by (simp add: gve_ok_def)
  ultimately show ?thesis using b assms(2) c_int_id [of "r * multiplier gve"] c_longlong_id [of "r * multiplier gve"]
    by (cases "ge_arg gve") (simp_all add: store_int_def in_bounds_def)
qed

text \<open>\<^verbatim>\<open>g_key_file_get_integer\<close> returns a \<^verbatim>\<open>gint\<close>.\<close>

definition kf_ok :: "keyfile \<Rightarrow> bool" where
  "kf_ok gkf \<longleftrightarrow> (\<forall>g k. - (2 ^ 31) \<le> kf_get_integer gkf g k \<and> kf_get_integer gkf g k < 2 ^ 31)"

text \<open>An entry writes where its pointer points and nowhere else.\<close>

lemma read_variable_frame:
  "a \<noteq> ge_arg_data gve \<Longrightarrow> cf_int (read_variable gkf gve cf) a = cf_int cf a"
  "a \<noteq> ge_arg_data gve \<Longrightarrow> cf_str (read_variable gkf gve cf) a = cf_str cf a"
  by (auto simp: read_variable_def store_int_def split: option_arg.splits)

lemma run_pre_frame: "run_pre os gve cf = Some cf' \<Longrightarrow> a \<noteq> ge_arg_data gve \<Longrightarrow> cf_int cf' a = cf_int cf a"
  by (auto simp: run_pre_def pre_variable_mysql_threads_def Let_def split: option.splits func_pre.splits if_splits)

lemma run_post_frame: "run_post os gve cf = Some cf' \<Longrightarrow> cf_int cf' = cf_int cf \<and> cf_str cf' = cf_str cf"
  by (auto simp: run_post_def post_variable_core_dump_file_size_def mysql_connpool_init_def Let_def
      split: option.splits func_post.splits if_splits)

lemma process_entry_frame:
  assumes "process_entry gkf os dyn gve cf = Some cf'" and "a \<noteq> ge_arg_data gve"
  shows "cf_int cf' a = cf_int cf a"
proof (cases "dyn > ge_dynamic gve")
  case True
  then show ?thesis using assms(1) by (simp add: process_entry_def)
next
  case False
  then obtain cf1 where "run_pre os gve cf = Some cf1" "run_post os gve (read_variable gkf gve cf1) = Some cf'"
    using assms(1) by (auto simp: process_entry_def split: Option.bind_splits)
  then show ?thesis using run_pre_frame [OF _ assms(2)] run_post_frame read_variable_frame(1) [OF assms(2)] by metis
qed

lemma process_entries_frame:
  "process_entries gkf os dyn gves cf = Some cf' \<Longrightarrow> a \<notin> ge_arg_data ` set gves \<Longrightarrow> cf_int cf' a = cf_int cf a"
  by (induction gves arbitrary: cf) (auto split: Option.bind_splits dest: process_entry_frame)

lemma process_entry_bounds:
  assumes "process_entry gkf os dyn gve cf = Some cf'" and "dyn \<le> ge_dynamic gve" and "gve_ok gve" and "kf_ok gkf"
    and "ge_arg gve \<noteq> ARG_STRING" and "ge_func_pre gve = None \<or> kf_has_key gkf (ge_group_name gve) (ge_key_name gve)"
  shows "in_bounds gve (cf_int cf' (ge_arg_data gve))"
proof -
  obtain cf1 where "run_post os gve (read_variable gkf gve cf1) = Some cf'"
    using assms(1,2) by (auto simp: process_entry_def split: Option.bind_splits)
  then have "cf_int cf' = cf_int (read_variable gkf gve cf1)" using run_post_frame by blast
  moreover have "in_bounds gve (cf_int (read_variable gkf gve cf1) (ge_arg_data gve))"
  proof (cases "kf_has_key gkf (ge_group_name gve) (ge_key_name gve)")
    case True
    then show ?thesis using store_int_bounds [OF assms(3,5)] clamp_value_bounds [OF assms(3)] assms(4,5)
      by (simp add: read_variable_def kf_ok_def)
  next
    case False
    then show ?thesis using store_int_bounds [OF assms(3,5), of "ge_int_default gve"] assms(3,5,6)
      by (simp add: read_variable_def gve_ok_def)
  qed
  ultimately show ?thesis by simp
qed

lemma process_entries_bounds:
  assumes "process_entries gkf os 0 gves cf = Some cf'" and "\<forall>gve \<in> set gves. gve_ok gve \<and> 0 \<le> ge_dynamic gve"
    and "distinct (map ge_arg_data gves)" and "kf_ok gkf" and "gve \<in> set gves" and "ge_arg gve \<noteq> ARG_STRING"
    and "ge_func_pre gve = None \<or> kf_has_key gkf (ge_group_name gve) (ge_key_name gve)"
  shows "in_bounds gve (cf_int cf' (ge_arg_data gve))"
  using assms(1-3,5)
proof (induction gves arbitrary: cf)
  case (Cons g gs)
  obtain cf1 where cf1: "process_entry gkf os 0 g cf = Some cf1" "process_entries gkf os 0 gs cf1 = Some cf'"
    using Cons.prems(1) by (auto split: Option.bind_splits)
  show ?case
  proof (cases "gve = g")
    case True
    then have "in_bounds gve (cf_int cf1 (ge_arg_data gve))"
      using process_entry_bounds [OF cf1(1)] Cons.prems(2) assms(4,6,7) by simp
    then show ?thesis using process_entries_frame [OF cf1(2), of "ge_arg_data gve"] Cons.prems(3) True by simp
  next
    case False
    then show ?thesis using Cons.IH [OF cf1(2)] Cons.prems by simp
  qed
qed simp

lemma glo_entries_ok: "\<forall>gve \<in> set glo_entries. gve_ok gve \<and> 0 \<le> ge_dynamic gve"
proof -
  have "list_all (\<lambda>gve. gve_ok gve \<and> 0 \<le> ge_dynamic gve) glo_entries" by code_simp
  then show ?thesis by (simp add: list_all_iff)
qed

lemma glo_entries_distinct: "distinct (map ge_arg_data glo_entries)"
  by (simp add: glo_entries_def int_var_def int64_var_def str_var_def)

text \<open>The process goes on if it can set the core size and knows its processors.\<close>

definition os_ok :: "os_env \<Rightarrow> bool" where
  "os_ok os \<longleftrightarrow> 0 < os_nprocessors os \<and> os_nprocessors os < 2 ^ 30 \<and> (\<forall>r. os_setrlimit_core os r)"

lemma process_entry_total:
  assumes "os_ok os"
  shows "\<exists>cf'. process_entry gkf os dyn gve cf = Some cf'"
proof -
  have "c_int (os_nprocessors os * 2) = os_nprocessors os * 2" using assms by (intro c_int_id) (simp_all add: os_ok_def)
  then have "run_pre os gve cf \<noteq> None"
    using assms by (auto simp: run_pre_def pre_variable_mysql_threads_def os_ok_def split: option.splits func_pre.splits)
  moreover have "run_post os gve cf2 \<noteq> None" for cf2
    using assms by (auto simp: run_post_def post_variable_core_dump_file_size_def os_ok_def split: option.splits func_post.splits)
  ultimately show ?thesis by (auto simp: process_entry_def)
qed

lemma process_entries_total: "os_ok os \<Longrightarrow> \<exists>cf'. process_entries gkf os dyn gves cf = Some cf'"
proof (induction gves arbitrary: cf)
  case (Cons g gs)
  obtain cf1 where "process_entry gkf os dyn g cf = Some cf1" using process_entry_total [OF Cons.prems] by blast
  then show ?case using Cons by simp
qed simp

lemma process_entries_snoc:
  "process_entries gkf os dyn (gves @ [g]) cf = Option.bind (process_entries gkf os dyn gves cf) (process_entry gkf os dyn g)"
  by (induction gves arbitrary: cf) (simp_all split: Option.bind_splits)

text \<open>The table of servers has as many hostgroups as the variable says.\<close>

lemma process_entry_servers:
  assumes "process_entry gkf os 0 g cf = Some cf'" and "0 \<le> ge_dynamic g"
  shows "cf_glomysrvs cf' = (if ge_func_post g = Some PostGlomysrvs
    then init_glomysrvs (nat (cf_int cf' ''glovars.mysql_hostgroups'')) else cf_glomysrvs cf)"
proof -
  obtain cf1 where cf1: "run_pre os g cf = Some cf1" "run_post os g (read_variable gkf g cf1) = Some cf'"
    using assms by (auto simp: process_entry_def split: Option.bind_splits)
  have "cf_glomysrvs cf1 = cf_glomysrvs cf"
    using cf1(1) by (auto simp: run_pre_def pre_variable_mysql_threads_def Let_def split: option.splits func_pre.splits if_splits)
  moreover have "cf_glomysrvs (read_variable gkf g cf1) = cf_glomysrvs cf1"
    by (simp add: read_variable_def store_int_def split: option_arg.splits)
  ultimately show ?thesis using cf1(2)
    by (auto simp: run_post_def post_variable_core_dump_file_size_def mysql_connpool_init_def Let_def
        split: option.splits func_post.splits if_splits)
qed

lemma process_entries_servers:
  assumes "process_entries gkf os 0 gves cf = Some cf'" and "\<forall>g \<in> set gves. 0 \<le> ge_dynamic g"
    and "\<forall>g \<in> set gves. ge_func_post g = Some PostGlomysrvs \<longrightarrow> ge_arg_data g = ''glovars.mysql_hostgroups''"
    and "distinct (map ge_arg_data gves)" and "\<exists>g \<in> set gves. ge_func_post g = Some PostGlomysrvs"
  shows "cf_glomysrvs cf' = init_glomysrvs (nat (cf_int cf' ''glovars.mysql_hostgroups''))"
  using assms
proof (induction gves arbitrary: cf' rule: rev_induct)
  case (snoc g gs)
  obtain cf1 where cf1: "process_entries gkf os 0 gs cf = Some cf1" "process_entry gkf os 0 g cf1 = Some cf'"
    using snoc.prems(1) by (auto simp: process_entries_snoc split: Option.bind_splits)
  have e: "cf_glomysrvs cf' = (if ge_func_post g = Some PostGlomysrvs
    then init_glomysrvs (nat (cf_int cf' ''glovars.mysql_hostgroups'')) else cf_glomysrvs cf1)"
    using process_entry_servers [OF cf1(2)] snoc.prems(2) by simp
  show ?case
  proof (cases "ge_func_post g = Some PostGlomysrvs")
    case False
    then have ex: "\<exists>h \<in> set gs. ge_func_post h = Some PostGlomysrvs" using snoc.prems(5) by simp
    then obtain h where h: "h \<in> set gs" "ge_func_post h = Some PostGlomysrvs" by blast
    have "ge_arg_data h = ''glovars.mysql_hostgroups''" using snoc.prems(3) [rule_format, of h] h by simp
    moreover have "ge_arg_data h \<noteq> ge_arg_data g" using snoc.prems(4) imageI [OF h(1), of ge_arg_data] by force
    ultimately have "cf_int cf' ''glovars.mysql_hostgroups'' = cf_int cf1 ''glovars.mysql_hostgroups''"
      using process_entry_frame [OF cf1(2)] by metis
    moreover have "cf_glomysrvs cf1 = init_glomysrvs (nat (cf_int cf1 ''glovars.mysql_hostgroups''))"
      using snoc.IH [OF cf1(1)] snoc.prems(2-4) ex by simp
    ultimately show ?thesis using e False by simp
  qed (use e in simp)
qed simp

lemma process_entry_rules: "process_entry gkf os dyn g cf = Some cf' \<Longrightarrow> cf_query_rules cf' = cf_query_rules cf"
  by (auto simp: process_entry_def run_pre_def pre_variable_mysql_threads_def read_variable_def store_int_def run_post_def
      post_variable_core_dump_file_size_def mysql_connpool_init_def Let_def
      split: Option.bind_splits option.splits func_pre.splits func_post.splits option_arg.splits if_splits)

lemma process_entries_rules: "process_entries gkf os dyn gves cf = Some cf' \<Longrightarrow> cf_query_rules cf' = cf_query_rules cf"
  by (induction gves arbitrary: cf) (auto split: Option.bind_splits dest: process_entry_rules)

lemma glo_entries_servers:
  "\<forall>g \<in> set glo_entries. ge_func_post g = Some PostGlomysrvs \<longrightarrow> ge_arg_data g = ''glovars.mysql_hostgroups''"
  "\<exists>g \<in> set glo_entries. ge_func_post g = Some PostGlomysrvs"
proof -
  have "list_all (\<lambda>g. ge_func_post g = Some PostGlomysrvs \<longrightarrow> ge_arg_data g = ''glovars.mysql_hostgroups'') glo_entries"
    "list_ex (\<lambda>g. ge_func_post g = Some PostGlomysrvs) glo_entries" by code_simp+
  then show "\<forall>g \<in> set glo_entries. ge_func_post g = Some PostGlomysrvs \<longrightarrow> ge_arg_data g = ''glovars.mysql_hostgroups''"
    "\<exists>g \<in> set glo_entries. ge_func_post g = Some PostGlomysrvs" unfolding list_all_iff list_ex_iff .
qed

subsection \<open>Lemmas: users and debug levels\<close>

definition file_users :: "keyfile \<Rightarrow> (cstr \<times> cstr) list" where
  "file_users gkf = map (\<lambda>(n, p). (n, the p)) (kf_users gkf)"

lemma load_users_ok:
  assumes "\<forall>(n, p) \<in> set l. p \<noteq> None"
  shows "\<exists>us'. load_users l us = Some us' \<and> us_mysql_users_name us' = us_mysql_users_name us @ map fst l
    \<and> us_mysql_users_pass us' = us_mysql_users_pass us @ map (the \<circ> snd) l
    \<and> us_usernames us' = us_usernames us ++ map_of (rev (map (\<lambda>(n, p). (n, the p)) l))"
  using assms by (induction l us rule: load_users.induct) auto

lemma load_mysql_users_ok:
  assumes "kf_users gkf \<noteq> []" and "\<forall>(n, p) \<in> set (kf_users gkf). p \<noteq> None" and "distinct (map fst (kf_users gkf))"
  shows "\<exists>us. load_mysql_users_from_file gkf = Some us \<and> us_mysql_users_name us = map fst (file_users gkf)
    \<and> us_mysql_users_pass us = map snd (file_users gkf) \<and> us_usernames us = map_of (file_users gkf)"
proof -
  have d: "distinct (map fst (file_users gkf))" using assms(3) by (simp add: file_users_def comp_def case_prod_beta)
  then have "map_of (rev (file_users gkf)) = map_of (file_users gkf)"
    by (intro map_of_inject_set [THEN iffD2]) (simp_all add: rev_map [symmetric])
  then show ?thesis
    using load_users_ok [OF assms(2), of "\<lparr>us_mysql_users_name = [], us_mysql_users_pass = [], us_usernames = Map.empty\<rparr>"] assms(1)
    by (auto simp: load_mysql_users_from_file_def file_users_def comp_def case_prod_beta)
qed

lemma read_levels_ok:
  "\<forall>d \<in> set ls. txt (dl_name d) \<noteq> None \<Longrightarrow> \<exists>ls'. read_levels gkf txt ls = Some ls' \<and> map dl_name ls' = map dl_name ls"
  by (induction ls) (auto simp: Let_def split: Option.bind_splits)

lemma read_levels_verbosity:
  "read_levels gkf txt ls = Some ls' \<Longrightarrow> \<forall>d \<in> set ls'. 0 \<le> dl_verbosity d"
  by (induction ls arbitrary: ls') (auto simp: Let_def split: Option.bind_splits)

definition level_ok :: "debug_level \<Rightarrow> bool" where
  "level_ok d \<longleftrightarrow> dl_module d < 2 ^ 32 \<and> 0 \<le> dl_verbosity d \<and> dl_verbosity d < 2 ^ 31 \<and> dl_name d < 2 ^ 64"

lemma length_level_bytes [simp]: "length (level_bytes d) = 16"
  by (simp add: level_bytes_def)

lemma level_of_level_bytes:
  assumes "level_ok d"
  shows "level_of_bytes (level_bytes d) = d"
proof -
  have "le_nat (le_bytes 4 (dl_module d)) = dl_module d" "le_nat (le_bytes 8 (dl_name d)) = dl_name d"
    "le_nat (le_bytes 4 (nat (dl_verbosity d mod 2 ^ 32))) = nat (dl_verbosity d)"
    using assms by (simp_all add: le_nat_bytes level_ok_def nat_less_iff)
  moreover have "c_int (dl_verbosity d) = dl_verbosity d" using assms by (intro c_int_id) (simp_all add: level_ok_def)
  ultimately show ?thesis using assms by (simp add: level_of_bytes_def level_bytes_def level_ok_def)
qed

lemma levels_of_level_bytes: "\<forall>d \<in> set ls. level_ok d \<Longrightarrow> levels_of_bytes (length ls) (concat (map level_bytes ls)) = ls"
  by (induction ls) (simp_all add: level_of_level_bytes)

lemma level_of_zeros: "level_of_bytes (replicate 16 0) = \<lparr>dl_module = 0, dl_verbosity = 0, dl_name = 0\<rparr>"
  by (simp add: level_of_bytes_def c_int_def numeral_eq_Suc)

lemma le_nat_zeros: "le_nat (replicate n 0 @ bs) = 256 ^ n * le_nat bs"
  by (induction n) simp_all

lemma drop_le_bytes: "k \<le> n \<Longrightarrow> drop k (le_bytes n v) = le_bytes (n - k) (v div 256 ^ k)"
proof (induction k arbitrary: n v)
  case (Suc k)
  then obtain m where "n = Suc m" by (cases n) auto
  then show ?case using Suc by (simp add: div_mult2_eq)
qed simp

lemma memset_60:
  assumes "\<forall>d \<in> set (a # b # c # d # ls). level_ok d"
  shows "memset_levels 60 (a # b # c # d # ls) = Some (\<lparr>dl_module = 0, dl_verbosity = 0, dl_name = 0\<rparr>
    # \<lparr>dl_module = 0, dl_verbosity = 0, dl_name = 0\<rparr> # \<lparr>dl_module = 0, dl_verbosity = 0, dl_name = 0\<rparr>
    # \<lparr>dl_module = 0, dl_verbosity = 0, dl_name = dl_name d div 2 ^ 32 * 2 ^ 32\<rparr> # ls)"
proof -
  let ?rest = "concat (map level_bytes ls)"
  let ?z = "\<lparr>dl_module = 0, dl_verbosity = 0, dl_name = 0\<rparr>"
  have d12: "drop 12 (level_bytes d) = le_bytes 4 (dl_name d div 2 ^ 32)"
    by (simp add: level_bytes_def drop_le_bytes)
  have m: "mem_write (concat (map level_bytes (a # b # c # d # ls))) 0 (replicate 60 0)
      = Some (replicate 16 0 @ replicate 16 0 @ replicate 16 0 @ (replicate 12 0 @ le_bytes 4 (dl_name d div 2 ^ 32)) @ ?rest)"
    by (simp add: mem_write_def d12 flip: replicate_add append_assoc)
  have "level_of_bytes (replicate 12 0 @ le_bytes 4 (dl_name d div 2 ^ 32)) = \<lparr>dl_module = 0, dl_verbosity = 0, dl_name = dl_name d div 2 ^ 32 * 2 ^ 32\<rparr>"
  proof -
    have "dl_name d < 2 ^ 32 * 2 ^ 32" using assms by (simp add: level_ok_def)
    then have "dl_name d div 2 ^ 32 < 2 ^ 32" by (rule less_mult_imp_div_less)
    then have "le_nat (le_bytes 4 (dl_name d div 2 ^ 32)) = dl_name d div 2 ^ 32"
      by (simp add: le_nat_bytes)
    then show ?thesis using le_nat_zeros [of 4 "[]"] le_nat_zeros [of 4 "le_bytes 4 (dl_name d div 2 ^ 32)"]
      by (simp add: level_of_bytes_def c_int_def)
  qed
  then show ?thesis using levels_of_level_bytes [of ls] assms unfolding memset_levels_def m
    by (simp add: level_of_zeros)
qed

subsection \<open>Properties\<close>


definition sample_keyfile :: keyfile where
  "sample_keyfile = \<lparr>kf_has_group = (\<lambda>_. True), kf_has_key = (\<lambda>g k. k = ''stack_size'' \<or> k = ''mysql_servers''),
     kf_get_integer = (\<lambda>_ _. 70000), kf_get_string = (\<lambda>_ _. None), kf_users = [([97], Some [98])], kf_servers = [[100, 98]]\<rparr>"

definition sample_os :: os_env where
  "sample_os = \<lparr>os_nprocessors = 4, os_setrlimit_core = (\<lambda>_. True), os_check_alive = (\<lambda>_ _. 0)\<rparr>"

definition sample_config :: config where
  "sample_config = \<lparr>cf_int = (\<lambda>_. 0), cf_str = (\<lambda>_. None), cf_glomysrvs = init_glomysrvs 0, cf_connpools = [],
     cf_query_rules = None, cf_users = \<lparr>us_mysql_users_name = [], us_mysql_users_pass = [], us_usernames = Map.empty\<rparr>,
     cf_gdbg_lvl = []\<rparr>"

lemma sample_keyfile_ok: "kf_ok sample_keyfile" "os_ok sample_os"
  by (simp_all add: kf_ok_def sample_keyfile_def os_ok_def sample_os_def)

lemma hostgroups_entry:
  "(int_var ''mysql'' ''mysql_hostgroups'' 0 ''glovars.mysql_hostgroups'' 2 64 0 0 8)\<lparr>ge_func_post := Some PostGlomysrvs\<rparr> \<in> set glo_entries"
  by (simp add: glo_entries_def)


text \<open>
  C11. Startup: with a configuration file that has the sections, users with passwords and a list of
  servers, \<^verbatim>\<open>init_global_variables\<close> returns 0 and leaves a well formed state: between 2 and 64
  hostgroups, and as many in the table of servers; every server of the list once in the table; exactly
  the users of the file; an empty rule table; and a purge loop not longer than the purge time.
\<close>

theorem startup_state:
  assumes "kf_ok gkf" and "os_ok os" and "kf_has_group gkf ''global''" and "kf_has_group gkf ''mysql users''" and "kf_has_group gkf ''debug''"
    and "\<forall>d \<in> set (cf_gdbg_lvl cf). txt (dl_name d) \<noteq> None"
    and "kf_has_key gkf ''mysql'' ''mysql_servers''" and "distinct addrs" and "length (kf_servers gkf) \<le> length addrs"
    and "kf_users gkf \<noteq> []" and "\<forall>(n, p) \<in> set (kf_users gkf). p \<noteq> None" and "distinct (map fst (kf_users gkf))"
  shows "\<exists>cf'. init_global_variables gkf os txt addrs 0 cf = Some (0, cf')
    \<and> 2 \<le> cf_int cf' ''glovars.mysql_hostgroups'' \<and> cf_int cf' ''glovars.mysql_hostgroups'' \<le> 64
    \<and> srv_ok (nat (cf_int cf' ''glovars.mysql_hostgroups'')) (cf_glomysrvs cf')
    \<and> distinct (server_keys (cf_glomysrvs cf')) \<and> set (server_keys (cf_glomysrvs cf')) = parse_server_name ` set (kf_servers gkf)
    \<and> us_usernames (cf_users cf') = map_of (file_users gkf) \<and> cf_query_rules cf' = Some []
    \<and> cf_int cf' ''fdb_system_var.hash_purge_loop'' \<le> cf_int cf' ''fdb_system_var.hash_purge_time''"
proof -
  obtain levels where lv: "read_levels gkf txt (cf_gdbg_lvl cf) = Some levels" using read_levels_ok [OF assms(6)] by blast
  define cf1 where "cf1 = (fixed_variables (cf\<lparr>cf_gdbg_lvl := levels\<rparr>))\<lparr>cf_query_rules := init_gloQR\<rparr>"
  obtain cf2 where cf2: "process_entries gkf os 0 glo_entries cf1 = Some cf2" using process_entries_total [OF assms(2)] by blast
  let ?n = "cf_int cf2 ''glovars.mysql_hostgroups''"
  have hg: "2 \<le> ?n" "?n \<le> 64"
    using process_entries_bounds [OF cf2 glo_entries_ok glo_entries_distinct assms(1) hostgroups_entry]
    by (simp_all add: int_var_def in_bounds_def width_max_def multiplier_def)
  have sv: "cf_glomysrvs cf2 = init_glomysrvs (nat ?n)"
    using process_entries_servers [OF cf2 _ glo_entries_servers(1) glo_entries_distinct glo_entries_servers(2)] glo_entries_ok by simp
  have "map fst (zip addrs (kf_servers gkf)) = take (length (kf_servers gkf)) addrs"
    "snd ` set (zip addrs (kf_servers gkf)) = set (kf_servers gkf)"
    using assms(9) by (simp_all add: map_fst_zip_take map_snd_zip_take min_absorb2 flip: set_map)
  then obtain gs where gs: "load_mysql_servers_list_from_file (os_check_alive os) (zip addrs (kf_servers gkf)) (init_glomysrvs (nat ?n)) = Some gs"
      "srv_ok (nat ?n) gs" "distinct (server_keys gs)" "set (server_keys gs) = parse_server_name ` set (kf_servers gkf)"
    using servers_loaded_once [of "zip addrs (kf_servers gkf)" "os_check_alive os" "nat ?n"] assms(8) by (auto simp: image_comp)
  obtain us where us: "load_mysql_users_from_file gkf = Some us" "us_usernames us = map_of (file_users gkf)"
    using load_mysql_users_ok [OF assms(10-12)] by blast
  have rules: "cf_query_rules cf2 = Some []"
    using process_entries_rules [OF cf2] by (simp add: cf1_def init_gloQR_def reset_query_rules_def)
  define cf3 where "cf3 = set_int ''glomysrvs.mysql_use_masters_for_reads''
    (if kf_has_key gkf ''mysql'' ''mysql_use_masters_for_reads'' \<and> kf_get_integer gkf ''mysql'' ''mysql_use_masters_for_reads'' = 0 then 0 else 1) cf2"
  have sec: "load_servers_section gkf os addrs cf2 = Some (cf3\<lparr>cf_glomysrvs := gs\<rparr>)"
    using gs(1) assms(7) sv by (auto simp: load_servers_section_def cf3_def Let_def)
  have n3: "cf_int cf3 ''glovars.mysql_hostgroups'' = ?n" by (simp add: cf3_def)
  have "cf_query_rules cf3 = Some []" using rules by (simp add: cf3_def)
  moreover define cf4 where "cf4 = cf3\<lparr>cf_glomysrvs := gs, cf_users := us\<rparr>"
  define cf5 where "cf5 = (if cf_int cf4 ''fdb_system_var.hash_purge_loop'' > cf_int cf4 ''fdb_system_var.hash_purge_time''
                  then set_int ''fdb_system_var.hash_purge_loop'' (cf_int cf4 ''fdb_system_var.hash_purge_time'') cf4 else cf4)"
  ultimately have "cf_query_rules cf5 = Some []" "cf_users cf5 = us" "cf_glomysrvs cf5 = gs"
    "cf_int cf5 ''glovars.mysql_hostgroups'' = ?n" "cf_int cf5 ''fdb_system_var.hash_purge_loop'' \<le> cf_int cf5 ''fdb_system_var.hash_purge_time''"
    using n3 by (simp_all add: cf5_def cf4_def)
  moreover have "init_global_variables gkf os txt addrs 0 cf = Some (0, cf5)"
    using assms(3-5) lv cf2 sec us(1)
    by (simp add: init_global_variables_def process_debug_section_def cf1_def [symmetric] process_global_variables_from_file_def
        cf5_def cf4_def Let_def)
  ultimately show ?thesis using hg gs us by (intro exI [of _ cf5]) simp
qed

theorem startup_state_witness:
  "\<exists>cf'. init_global_variables sample_keyfile sample_os (\<lambda>_. None) [7] 0 sample_config = Some (0, cf')
    \<and> us_usernames (cf_users cf') [97] = Some [98] \<and> set (server_keys (cf_glomysrvs cf')) = {([100, 98], 3306)}"
proof -
  have p: "parse_server_name [100, 98] = ([100, 98], 3306)" by (simp add: parse_server_name_def)
  have k: "kf_has_group sample_keyfile g" "kf_has_key sample_keyfile ''mysql'' ''mysql_servers''" "kf_servers sample_keyfile = [[100, 98]]"
    "kf_users sample_keyfile = [([97], Some [98])]" "cf_gdbg_lvl sample_config = []" for g
    by (simp_all add: sample_keyfile_def sample_config_def)
  have "map_of (file_users sample_keyfile) [97] = Some [98]" by (simp add: file_users_def k)
  moreover have "parse_server_name ` set (kf_servers sample_keyfile) = {([100, 98], 3306)}" by (simp add: k p)
  ultimately show ?thesis
    using startup_state [OF sample_keyfile_ok k(1) k(1) k(1) _ k(2), of sample_config "\<lambda>_. None" "[7]"] k(3-5) by auto
qed

text \<open>
  A configuration file without \<^verbatim>\<open>[debug]\<close> destroys the table of debug modules: \<^verbatim>\<open>memset\<close> clears four bytes
  per module instead of the verbosities. The names of the first three modules become \<^verbatim>\<open>NULL\<close>, the name
  of the fourth loses the lower half of its address, and the other modules keep their verbosity.
\<close>

theorem missing_debug_section:
  assumes "\<not> kf_has_group gkf ''debug''" and "\<forall>s. lit s < 2 ^ 64"
  shows "\<exists>ls. process_debug_section gkf txt (init_debug_struct lit gdbg) = Some ls
    \<and> map dl_name (take 4 ls) = [0, 0, 0, lit ''debug_poll'' div 2 ^ 32 * 2 ^ 32]
    \<and> drop 4 ls = drop 4 (init_debug_struct lit gdbg)"
proof -
  define f where "f = (\<lambda>i. \<lparr>dl_module = i, dl_verbosity = (if gdbg \<noteq> 0 then 2147483647 else 0), dl_name = lit (debug_names ! i)\<rparr>)"
  have u: "[0..<15] = [0, 1, 2, 3] @ [4..<(15 :: nat)]" by code_simp
  have l: "init_debug_struct lit gdbg = f 0 # f 1 # f 2 # f 3 # map f [4..<15]"
    unfolding init_debug_struct_def f_def [symmetric] PROXY_DEBUG_UNKNOWN_def u by simp
  have ok: "level_ok (f i)" if "i < 15" for i using that assms(2) by (simp add: level_ok_def f_def)
  have "memset_levels 60 (f 0 # f 1 # f 2 # f 3 # map f [4..<15]) = Some (\<lparr>dl_module = 0, dl_verbosity = 0, dl_name = 0\<rparr>
    # \<lparr>dl_module = 0, dl_verbosity = 0, dl_name = 0\<rparr> # \<lparr>dl_module = 0, dl_verbosity = 0, dl_name = 0\<rparr>
    # \<lparr>dl_module = 0, dl_verbosity = 0, dl_name = dl_name (f 3) div 2 ^ 32 * 2 ^ 32\<rparr> # map f [4..<15])"
    using ok by (intro memset_60) auto
  moreover have "dl_name (f 3) = lit ''debug_poll''" by (simp add: f_def debug_names_def)
  ultimately show ?thesis using assms(1) unfolding l by (simp add: process_debug_section_def PROXY_DEBUG_UNKNOWN_def)
qed

theorem missing_debug_section_witness:
  "\<exists>ls. process_debug_section (sample_keyfile\<lparr>kf_has_group := (\<lambda>g. g \<noteq> ''debug'')\<rparr>) (\<lambda>_. None)
      (init_debug_struct (\<lambda>s. 2 ^ 40 + length s mod 100) 1) = Some ls
    \<and> map dl_name (take 4 ls) = [0, 0, 0, 2 ^ 40] \<and> dl_verbosity (hd (drop 4 ls)) = 2147483647"
proof -
  have "(2 ^ 40 + length s mod 100) < (2 ^ 64 :: nat)" for s :: string
    using mod_less_divisor [of 100 "length s"] by (simp del: mod_less_divisor)
  moreover have "dl_verbosity (hd (drop 4 (init_debug_struct (\<lambda>s. 2 ^ 40 + length s mod 100) 1))) = 2147483647"
    by (simp add: init_debug_struct_def PROXY_DEBUG_UNKNOWN_def drop_map drop_upt hd_map)
  ultimately show ?thesis
    using missing_debug_section [of "sample_keyfile\<lparr>kf_has_group := (\<lambda>g. g \<noteq> ''debug'')\<rparr>" "\<lambda>s. 2 ^ 40 + length s mod 100" "\<lambda>_. None" 1]
    by auto
qed

end
