(* ===== verification/AdminDB.thy ===== *)
theory AdminDB
  imports GlobalVars QueryCache
begin

section \<open>The administration database\<close>

text \<open>
  The functions of \<^verbatim>\<open>src/admin_sqlite.c\<close> that move the configuration between memory and the SQLite
  database: users, servers and hostgroups, debug levels, and the tables that show the state of the
  running proxy. (Query rules and default hostgroups are in \<^verbatim>\<open>QueryRules\<close>.)

  SQLite is not modelled. What a function sends to it is its result, a list of \<open>sql\<close> statements: the
  text given to \<^verbatim>\<open>sqlite3_exec\<close>, or a prepared statement with the values bound to its parameters.
  What a \<^verbatim>\<open>SELECT\<close> returns is an argument. Text that is printed with \<^verbatim>\<open>sprintf\<close> is printed into a buffer of
  the size the code computes. \<open>None\<close> is an overflow of this buffer, a dangling pointer or a failed
  \<^verbatim>\<open>assert\<close>.
\<close>

datatype sql_val = SqlInt int | SqlText "cstr option"

datatype sql = Exec cstr | Bound cstr "sql_val list"

subsection \<open>Printing\<close>

text \<open>\<^verbatim>\<open>sprintf\<close> with the conversions \<^verbatim>\<open>%s\<close>, \<^verbatim>\<open>%d\<close> and \<^verbatim>\<open>%llu\<close>; the argument tells which one.\<close>

datatype printf_arg = PStr cstr | PInt int | PNat nat

function c_sprintf :: "cstr \<Rightarrow> printf_arg list \<Rightarrow> cstr" where
  "c_sprintf f args =
     (case f of [] \<Rightarrow> []
      | c # f' \<Rightarrow>
          if c \<noteq> 37 then c # c_sprintf f' args
          else (case args of
                  PStr s # args' \<Rightarrow> s @ c_sprintf (drop 1 f') args'
                | PInt i # args' \<Rightarrow> dec i @ c_sprintf (drop 1 f') args'
                | PNat n # args' \<Rightarrow> dec_nat n @ c_sprintf (drop 3 f') args'
                | [] \<Rightarrow> []))"
  by pat_completeness auto

termination
  by (relation "measure (\<lambda>(f, _). length f)") auto

declare c_sprintf.simps [simp del]

lemma c_sprintf_simps [simp]:
  "c_sprintf [] args = []"
  "c \<noteq> 37 \<Longrightarrow> c_sprintf (c # f) args = c # c_sprintf f args"
  "c_sprintf (37 # c # f) (PStr s # args) = s @ c_sprintf f args"
  "c_sprintf (37 # c # f) (PInt i # args) = dec i @ c_sprintf f args"
  "c_sprintf (37 # a # b # c # f) (PNat n # args) = dec_nat n @ c_sprintf f args"
  by (subst c_sprintf.simps; simp)+

text \<open>A zeroed buffer of \<open>l\<close> bytes, the text printed into it, and the statement it then holds.\<close>

definition exec_printed :: "nat \<Rightarrow> cstr \<Rightarrow> printf_arg list \<Rightarrow> sql option" where
  "exec_printed l f args = do {
     buff \<leftarrow> mem_write (replicate l 0) 0 (c_sprintf f args @ [0]);
     Some (Exec (c_string buff))
   }"

subsection \<open>Users\<close>

definition users_format :: "bool \<Rightarrow> cstr" where
  "users_format replace =
     (if replace then str ''REPLACE INTO users(username,password,active) VALUES(\"%s\",\"%s\",%d)''
      else str ''INSERT OR IGNORE INTO users(username,password,active) VALUES(\"%s\",\"%s\",%d)'')"

fun flush_users :: "cstr \<Rightarrow> int \<Rightarrow> cstr list \<Rightarrow> cstr list \<Rightarrow> sql list option" where
  "flush_users a active [] passes = Some []"
| "flush_users a active (name # names) [] = None"
| "flush_users a active (name # names) (pass # passes) = do {
     s \<leftarrow> exec_printed (length a + length name + length pass) a [PStr name, PStr pass, PInt active];
     ss \<leftarrow> flush_users a active names passes;
     Some (s # ss)
   }"

definition sqlite3_flush_users_mem_to_db :: "bool \<Rightarrow> int \<Rightarrow> users \<Rightarrow> sql list option" where
  "sqlite3_flush_users_mem_to_db replace active us =
     flush_users (users_format replace) active (us_mysql_users_name us) (us_mysql_users_pass us)"

function remove_users :: "users \<Rightarrow> users" where
  "remove_users us =
     (case us_mysql_users_name us of
        [] \<Rightarrow> us
      | p # _ \<Rightarrow> remove_users (us\<lparr>us_mysql_users_name := remove_index_fast 0 (us_mysql_users_name us),
                                 us_usernames := (us_usernames us)(p := None)\<rparr>))"
  by pat_completeness auto

termination
  by (relation "measure (\<lambda>us. length (us_mysql_users_name us))") auto

function remove_passes :: "cstr list \<Rightarrow> cstr list" where
  "remove_passes ps = (if ps = [] then [] else remove_passes (remove_index_fast 0 ps))"
  by pat_completeness auto

termination
  by (relation "measure length") auto

declare remove_users.simps [simp del] remove_passes.simps [simp del]

fun add_users :: "(cstr \<times> cstr) list \<Rightarrow> users \<Rightarrow> users" where
  "add_users [] us = us"
| "add_users ((user, pass) # rows) us =
     add_users rows (us\<lparr>us_mysql_users_name := us_mysql_users_name us @ [user],
                       us_mysql_users_pass := us_mysql_users_pass us @ [pass],
                       us_usernames := (us_usernames us)(user \<mapsto> pass)\<rparr>)"

text \<open>\<open>rows\<close> is the result of the query, \<open>None\<close> if it cannot be prepared.\<close>

definition sqlite3_flush_users_db_to_mem :: "(cstr \<times> cstr) list option \<Rightarrow> users \<Rightarrow> int \<times> users" where
  "sqlite3_flush_users_db_to_mem rows us =
     (case rows of
        None \<Rightarrow> (0, us)
      | Some rows \<Rightarrow>
          let us = remove_users us;
              us = us\<lparr>us_mysql_users_pass := remove_passes (us_mysql_users_pass us)\<rparr>
          in (int (length rows), add_users rows us))"

subsection \<open>Debug levels\<close>

definition levels_format :: "bool \<Rightarrow> cstr" where
  "levels_format replace =
     (if replace then str ''REPLACE INTO debug_levels(module,verbosity) VALUES(\"%s\",%d)''
      else str ''INSERT OR IGNORE INTO debug_levels(module,verbosity) VALUES(\"%s\",%d)'')"

text \<open>\<open>txt\<close> reads the string at an address; \<open>None\<close> for an address without a string.\<close>

fun flush_levels :: "(nat \<Rightarrow> string option) \<Rightarrow> cstr \<Rightarrow> debug_level list \<Rightarrow> sql list option" where
  "flush_levels txt a [] = Some []"
| "flush_levels txt a (d # ds) = do {
     name \<leftarrow> txt (dl_name d);
     s \<leftarrow> exec_printed (length a + 100) a [PStr (str name), PInt (dl_verbosity d)];
     ss \<leftarrow> flush_levels txt a ds;
     Some (s # ss)
   }"

definition sqlite3_flush_debug_levels_mem_to_db :: "(nat \<Rightarrow> string option) \<Rightarrow> bool \<Rightarrow> debug_level list \<Rightarrow> sql list option" where
  "sqlite3_flush_debug_levels_mem_to_db txt replace levels = do {
     ss \<leftarrow> flush_levels txt (levels_format replace) levels;
     Some (Exec (str ''DELETE FROM debug_levels WHERE verbosity=0'') # ss)
   }"

text \<open>
  \<open>verbs\<close> gives the rows of the query for a module, \<open>None\<close> if it cannot be prepared; the last row
  counts. The first component is the number of rows, or the early \<^verbatim>\<open>return 0\<close>.
\<close>

fun load_levels :: "(nat \<Rightarrow> string option) \<Rightarrow> (string \<Rightarrow> int list option) \<Rightarrow> debug_level list \<Rightarrow> (nat option \<times> debug_level list) option" where
  "load_levels txt verbs [] = Some (Some 0, [])"
| "load_levels txt verbs (d # ds) = do {
     name \<leftarrow> txt (dl_name d);
     _ \<leftarrow> mem_write (replicate (length ''SELECT verbosity FROM debug_levels WHERE module=\"%s\"'' + 100) 0) 0
             (c_sprintf (str ''SELECT verbosity FROM debug_levels WHERE module=\"%s\"'') [PStr (str name)] @ [0]);
     case verbs name of
       None \<Rightarrow> Some (None, d # ds)
     | Some vs \<Rightarrow> do {
         (n, ds) \<leftarrow> load_levels txt verbs ds;
         Some (map_option ((+) (length vs)) n, foldl (\<lambda>d v. d\<lparr>dl_verbosity := v\<rparr>) d vs # ds)
       }}"

definition sqlite3_flush_debug_levels_db_to_mem ::
    "(nat \<Rightarrow> string option) \<Rightarrow> (string \<Rightarrow> int list option) \<Rightarrow> debug_level list \<Rightarrow> (int \<times> debug_level list) option" where
  "sqlite3_flush_debug_levels_db_to_mem txt verbs levels = do {
     (n, levels) \<leftarrow> load_levels txt verbs levels;
     Some (case n of None \<Rightarrow> 0 | Some n \<Rightarrow> int n, levels)
   }"

subsection \<open>Servers and hostgroups\<close>

primrec status_int :: "server_status \<Rightarrow> int" where
  "status_int OFFLINE_HARD = 0"
| "status_int OFFLINE_SOFT = 1"
| "status_int SHUNNED = 2"
| "status_int ONLINE = 3"

definition fill_server_status :: "sql list" where
  "fill_server_status =
     [Exec (str ''INSERT INTO server_status VALUES (0, \"OFFLINE_HARD\")''),
      Exec (str ''INSERT INTO server_status VALUES (1, \"OFFLINE_SOFT\")''),
      Exec (str ''INSERT INTO server_status VALUES (2, \"SHUNNED\")''),
      Exec (str ''INSERT INTO server_status VALUES (3, \"ONLINE\")'')]"

definition insert_server_query :: cstr where
  "insert_server_query = str ''INSERT INTO servers VALUES (?1 , ?2 , ?3 , ?4)''"

definition insert_hostgroup_query :: cstr where
  "insert_hostgroup_query = str ''INSERT INTO hostgroups VALUES (?1 , ?2 , ?3)''"

definition server_stmts :: "mysql_server \<Rightarrow> sql list" where
  "server_stmts ms =
     (if sr_status ms = ONLINE \<and> (sr_read_only ms = 0 \<or> sr_read_only ms = 1)
      then [Bound insert_server_query [SqlText (Some (sr_address ms)), SqlInt (int (sr_port ms)), SqlInt (sr_read_only ms), SqlInt (status_int (sr_status ms))]]
      else [])"

definition hostgroup_stmts :: "mysql_server \<Rightarrow> sql list" where
  "hostgroup_stmts ms =
     (if sr_status ms = ONLINE
      then (if sr_read_only ms = 0 \<or> sr_read_only ms = 1
            then [Bound insert_hostgroup_query [SqlInt 1, SqlText (Some (sr_address ms)), SqlInt (int (sr_port ms))]] else [])
         @ (if sr_read_only ms = 0
            then [Bound insert_hostgroup_query [SqlInt 0, SqlText (Some (sr_address ms)), SqlInt (int (sr_port ms))]] else [])
      else [])"

text \<open>Read the server at every address of the list.\<close>

fun read_servers :: "(nat \<Rightarrow> mysql_server option) \<Rightarrow> nat list \<Rightarrow> mysql_server list option" where
  "read_servers h [] = Some []"
| "read_servers h (a # as) = do { ms \<leftarrow> h a; mss \<leftarrow> read_servers h as; Some (ms # mss) }"

text \<open>The three counts are the results of the \<^verbatim>\<open>SELECT COUNT(*)\<close> queries.\<close>

definition sqlite3_flush_servers_mem_to_db :: "nat \<Rightarrow> nat \<Rightarrow> nat \<Rightarrow> glomysrvs \<Rightarrow> sql list option" where
  "sqlite3_flush_servers_mem_to_db n_status n_servers n_hostgroups gs = do {
     mss \<leftarrow> read_servers (gs_heap gs) (gs_servers gs);
     Some ((if n_status = 0 then fill_server_status else [])
           @ (if n_servers = 0 then concat (map server_stmts mss) else [])
           @ (if n_hostgroups = 0 then concat (map hostgroup_stmts mss) else []))
   }"

text \<open>
  The other direction. All entries of the hostgroups are freed first. (The loop also appends every
  hostgroup to the array of hostgroups once more; these copies lie behind \<^verbatim>\<open>mysql_hostgroups\<close>, where no
  function reads, and are left out.)
\<close>

definition free_hostgroups :: "glomysrvs \<Rightarrow> glomysrvs" where
  "free_hostgroups gs =
     gs\<lparr>gs_mshge := (\<lambda>m. if m \<in> set (concat (gs_hostgroups gs)) then None else gs_mshge gs m),
        gs_hostgroups := map (\<lambda>_. []) (gs_hostgroups gs)\<rparr>"

record server_row =
  sw_hostgroup_id :: int
  sw_hostname :: cstr
  sw_port :: int
  sw_read_only :: int
  sw_status :: server_status

text \<open>
  \<open>a\<close> and \<open>m\<close> are the addresses of a new server and of a new entry of a hostgroup. A known server is
  updated, an unknown one added.
\<close>

definition place_server :: "nat \<Rightarrow> server_row \<Rightarrow> glomysrvs \<Rightarrow> (nat \<times> glomysrvs) option" where
  "place_server a r gs = do {
     let port = nat (sw_port r mod 65536);
     ms \<leftarrow> find_server_ptr gs (sw_hostname r) port;
     case ms of
       None \<Rightarrow> Some (a, mysql_server_entry_add a
                 (mysql_server_entry_create a (sw_hostname r) port (sw_read_only r) (sw_status r) gs))
     | Some b \<Rightarrow> do { s \<leftarrow> gs_heap gs b;
                     Some (b, gs\<lparr>gs_heap := (gs_heap gs)(b \<mapsto> s\<lparr>sr_read_only := sw_read_only r, sr_status := sw_status r\<rparr>)\<rparr>) }
   }"

definition load_server_row :: "nat \<Rightarrow> nat \<times> nat \<times> server_row \<Rightarrow> glomysrvs \<Rightarrow> glomysrvs option" where
  "load_server_row mysql_hostgroups = (\<lambda>(a, m, r) gs. do {
     (ms, gs) \<leftarrow> place_server a r gs;
     if sw_status r = ONLINE then mysql_server_entry_add_hostgroup mysql_hostgroups m ms (sw_hostgroup_id r) gs else Some gs
   })"

fun load_server_rows :: "nat \<Rightarrow> (nat \<times> nat \<times> server_row) list \<Rightarrow> glomysrvs \<Rightarrow> glomysrvs option" where
  "load_server_rows mysql_hostgroups [] gs = Some gs"
| "load_server_rows mysql_hostgroups (r # rows) gs = do { gs \<leftarrow> load_server_row mysql_hostgroups r gs; load_server_rows mysql_hostgroups rows gs }"

definition sqlite3_flush_servers_db_to_mem :: "nat \<Rightarrow> (nat \<times> nat \<times> server_row) list \<Rightarrow> glomysrvs \<Rightarrow> (int \<times> glomysrvs) option" where
  "sqlite3_flush_servers_db_to_mem mysql_hostgroups rows gs = do {
     gs \<leftarrow> load_server_rows mysql_hostgroups rows (free_hostgroups gs);
     Some (int (length rows), gs)
   }"

subsection \<open>The tables of the running state\<close>

definition dump_default_hostgroup :: "default_hostgroup \<Rightarrow> sql option" where
  "dump_default_hostgroup dhg =
     (if dh_username dhg = Wild \<or> dh_schemaname dhg = Wild then None
      else let text = (\<lambda>p. SqlText (case p of Valid s \<Rightarrow> Some s | _ \<Rightarrow> None));
               b = [SqlText None, SqlText None, SqlText None];
               b = b[0 := text (dh_username dhg)];
               b = b[0 := text (dh_schemaname dhg)];
               b = b[2 := SqlInt (dh_hostgroup_id dhg)]
           in Some (Bound (str ''INSERT INTO runtime_default_hostgroups(username, schemaname, hostgroup_id) VALUES (?1 , ?2, ?3)'') b))"

fun dump_default_hostgroups :: "default_hostgroup list \<Rightarrow> sql list option" where
  "dump_default_hostgroups [] = Some []"
| "dump_default_hostgroups (d # ds) = do { s \<leftarrow> dump_default_hostgroup d; ss \<leftarrow> dump_default_hostgroups ds; Some (s # ss) }"

definition sqlite3_dump_runtime_default_hostgroups :: "global_default_hostgroups \<Rightarrow> (int \<times> sql list) option" where
  "sqlite3_dump_runtime_default_hostgroups DefHG = do {
     ss \<leftarrow> dump_default_hostgroups (dg_default_hostgroups DefHG);
     Some (int (length (dg_default_hostgroups DefHG)),
       Exec (str ''DROP TABLE IF EXISTS runtime_default_hostgroups'')
       # Exec (str ''CREATE TABLE runtime_default_hostgroups (username VARCHAR, schemaname VARCHAR, hostgroup_id INT NOT NULL, PRIMARY KEY (username, schemaname))'')
       # ss)
   }"

definition rule_stmt :: "query_rule \<Rightarrow> sql" where
  "rule_stmt qr = Bound (str (''INSERT INTO runtime_query_rules(rule_id, hits, flagIN, username, schemaname, match_pattern, negate_match_pattern, flagOUT, replace_pattern, destination_hostgroup, audit_log, performance_log, cache_tag, invalidate_cache_tag, invalidate_cache_pattern, cache_ttl) ''
       @ ''VALUES (?1 , ?2, ?3 , ?4 , ?5 , ?6 , ?7 , ?8 , ?9 , ?10 , ?11 , ?12 , ?13 , ?14 , ?15 , ?16 )''))
     [SqlInt (qr_rule_id qr), SqlInt (sint (qr_hits qr)), SqlInt (qr_flagIN qr), SqlText (qr_username qr),
      SqlText (qr_schemaname qr), SqlText (qr_match_pattern qr), SqlInt (qr_negate_match_pattern qr), SqlInt (qr_flagOUT qr),
      SqlText (qr_replace_pattern qr), SqlInt (qr_destination_hostgroup qr), SqlInt (qr_audit_log qr),
      SqlInt (qr_performance_log qr), SqlInt (qr_cache_tag qr), SqlInt (qr_invalidate_cache_tag qr),
      SqlText (qr_invalidate_cache_pattern qr), SqlInt (qr_cache_ttl qr)]"

definition sqlite3_dump_runtime_query_rules :: "query_rule list \<Rightarrow> int \<times> sql list" where
  "sqlite3_dump_runtime_query_rules rules =
     (int (length rules),
      Exec (str ''DROP TABLE IF EXISTS runtime_query_rules'')
      # Exec (str (''CREATE TABLE runtime_query_rules (rule_id INT NOT NULL PRIMARY KEY, hits INT NOT NULL DEFAULT 0, username VARCHAR, schemaname VARCHAR, ''
          @ ''flagIN INT NOT NULL DEFAULT 0, match_pattern VARCHAR NOT NULL, negate_match_pattern INT NOT NULL DEFAULT 0, flagOUT INT NOT NULL DEFAULT 0, ''
          @ ''replace_pattern VARCHAR, destination_hostgroup INT NOT NULL DEFAULT 0, audit_log INT NOT NULL DEFAULT 0, performance_log INT NOT NULL DEFAULT 0, ''
          @ ''cache_tag INT NOT NULL DEFAULT 0, invalidate_cache_tag INT NOT NULL DEFAULT 0, invalidate_cache_pattern VARCHAR, cache_ttl INT NOT NULL DEFAULT 0)''))
      # map rule_stmt rules)"

definition runtime_hostgroups_format :: cstr where
  "runtime_hostgroups_format = str ''INSERT INTO runtime_hostgroups VALUES (%d ,\"%s\", %d, %llu, %llu, %llu, %llu)''"

definition runtime_servers_format :: cstr where
  "runtime_servers_format = str ''INSERT INTO runtime_servers VALUES (\"%s\", %d, %d, %d)''"

text \<open>\<^verbatim>\<open>%llu\<close> prints the 64 bits of a counter as an unsigned number.\<close>

definition ull :: "int \<Rightarrow> nat" where
  "ull i = nat (i mod 2 ^ 64)"

fun dump_hostgroup :: "glomysrvs \<Rightarrow> nat \<Rightarrow> nat list \<Rightarrow> sql list option" where
  "dump_hostgroup gs i [] = Some []"
| "dump_hostgroup gs i (m # ms) = do {
     e \<leftarrow> gs_mshge gs m;
     sr \<leftarrow> gs_heap gs (mh_MSptr e);
     s \<leftarrow> exec_printed (length runtime_hostgroups_format + length (sr_address sr) + 14 + 80) runtime_hostgroups_format
            [PInt (int i), PStr (sr_address sr), PInt (int (sr_port sr)), PNat (ull (mh_connections_active e)),
             PNat (ull (mh_connections_created e)), PNat (ull (int (bs_sent (mh_server_bytes e)))), PNat (ull (int (bs_recv (mh_server_bytes e))))];
     ss \<leftarrow> dump_hostgroup gs i ms;
     Some (s # ss)
   }"

fun dump_hostgroups :: "glomysrvs \<Rightarrow> nat \<Rightarrow> nat list list \<Rightarrow> sql list option" where
  "dump_hostgroups gs i [] = Some []"
| "dump_hostgroups gs i (sl # sls) = do { ss \<leftarrow> dump_hostgroup gs i sl; tt \<leftarrow> dump_hostgroups gs (Suc i) sls; Some (ss @ tt) }"

fun dump_servers :: "mysql_server list \<Rightarrow> sql list option" where
  "dump_servers [] = Some []"
| "dump_servers (ms # mss) = do {
     s \<leftarrow> exec_printed (length runtime_servers_format + length (sr_address ms) + 24) runtime_servers_format
            [PStr (sr_address ms), PInt (int (sr_port ms)), PInt (sr_read_only ms), PInt (status_int (sr_status ms))];
     ss \<leftarrow> dump_servers mss;
     Some (s # ss)
   }"

definition sqlite3_dump_runtime_hostgroups :: "nat \<Rightarrow> glomysrvs \<Rightarrow> (int \<times> sql list) option" where
  "sqlite3_dump_runtime_hostgroups mysql_hostgroups gs =
     (if length (gs_hostgroups gs) < mysql_hostgroups then None
      else do {
        hs \<leftarrow> dump_hostgroups gs 0 (take mysql_hostgroups (gs_hostgroups gs));
        mss \<leftarrow> read_servers (gs_heap gs) (gs_servers gs);
        ss \<leftarrow> dump_servers mss;
        Some (int (length hs + length ss),
          [Exec (str ''DROP TABLE IF EXISTS runtime_hostgroups''),
           Exec (str (''CREATE TABLE runtime_hostgroups ( hostgroup_id INT NOT NULL DEFAULT 0, hostname VARCHAR NOT NULL , port INT NOT NULL DEFAULT 3306, ''
             @ ''connections_active INT NOT NULL, connections_created INT NOT NULL, bytes_sent INT NOT NULL, bytes_recv INT NOT NULL, PRIMARY KEY (hostgroup_id, hostname, port) )'')),
           Exec (str ''DROP TABLE IF EXISTS runtime_servers''),
           Exec (str ''CREATE TABLE runtime_servers ( hostname VARCHAR NOT NULL , port INT NOT NULL, read_only INT NOT NULL, status NOT NULL )'')]
          @ hs @ ss)
      })"

definition sqlite3_dump_runtime_query_cache :: "fdb_hashes_group \<Rightarrow> int \<times> sql list" where
  "sqlite3_dump_runtime_query_cache QC =
     (let QC_entries = sum_list (map (\<lambda>h. length (ht_array h)) (take (hg_size QC) (hg_fdb_hashes QC)))
      in (1, [Exec (str ''DROP TABLE IF EXISTS runtime_query_cache''),
        Exec (str (''CREATE TABLE runtime_query_cache ( current_entries INT NOT NULL, size_keys INT NOT NULL, size_values INT NOT NULL, size_metas INT NOT NULL, ''
          @ ''count_SET INT NOT NULL, count_SET_ERR INT NOT NULL, count_GET INT NOT NULL, count_GET_OK INT NOT NULL, count_purged INT NOT NULL, dataIN INT NOT NULL, dataOUT INT NOT NULL)'')),
        Bound (str ''INSERT INTO runtime_query_cache VALUES (?1 , ?2 , ?3 , ?4 , ?5 , ?6 , ?7 , ?8 , ?9 , ?10 , ?11)'')
          [SqlInt (c_int (int QC_entries)), SqlInt (sint (hg_size_keys QC)), SqlInt (sint (hg_size_values QC)), SqlInt (sint (hg_size_metas QC)),
           SqlInt (sint (hg_cntSet QC)), SqlInt (sint (hg_cntSetERR QC)), SqlInt (sint (hg_cntGet QC)), SqlInt (sint (hg_cntGetOK QC)),
           SqlInt (sint (hg_cntPurge QC)), SqlInt (sint (hg_dataIN QC)), SqlInt (sint (hg_dataOUT QC))]]))"

subsection \<open>Query statistics and synchronisation\<close>

text \<open>One entry of the reported table; an unknown key is a \<^verbatim>\<open>NULL\<close> entry.\<close>

definition flush_query_stats :: "int \<Rightarrow> qr_hash \<Rightarrow> cstr \<Rightarrow> sql option" where
  "flush_query_stats curtime ht key = do {
     entry \<leftarrow> qh_p ht key;
     Some (Bound (str (''INSERT INTO query_stats (timestamp, query_digest_md5, query_digest_text, username, schemaname, hostgroup_id, server_address, server_port, query_time, exec_cnt) ''
             @ ''VALUES (?1 , ?2 , ?3 , ?4 , ?5 , ?6 , ?7 , ?8 , ?9 , ?10)''))
       [SqlInt (c_int curtime), SqlText (Some (qe_query_digest_md5 entry)), SqlText (Some (qe_query_digest_text entry)),
        SqlText (Some (qe_username entry)), SqlText (Some (qe_schemaname entry)), SqlInt (c_int (qe_hostgroup_id entry)),
        SqlText (qe_mysql_server_address entry), SqlInt (c_int (qe_mysql_server_port entry)), SqlInt (c_int (qe_query_time entry)),
        SqlInt (c_int (int (qe_exec_cnt entry)))])
   }"

definition disk_tables :: "string list" where
  "disk_tables = [''servers'', ''hostgroups'', ''query_rules'', ''users'', ''default_hostgroups'']"

definition delete_disktable :: "sql list" where
  "delete_disktable = map (\<lambda>t. Exec (str (''DELETE FROM disk.'' @ t))) disk_tables"

definition insert_or_replace_disktable_select_maintable :: "sql list" where
  "insert_or_replace_disktable_select_maintable =
     map (\<lambda>t. Exec (str (''INSERT OR REPLACE INTO disk.'' @ t @ '' SELECT * FROM main.'' @ t))) disk_tables"

definition insert_or_ignore_maintable_select_disktable :: "sql list" where
  "insert_or_ignore_maintable_select_disktable =
     [Exec (str ''PRAGMA foreign_keys = OFF'')]
     @ map (\<lambda>t. Exec (str (''INSERT OR IGNORE INTO main.'' @ t @ '' SELECT * FROM disk.'' @ t))) disk_tables
     @ [Exec (str ''PRAGMA foreign_keys = ON'')]"

definition sqlite3_config_sync_mem_to_disk :: "int \<times> sql list" where
  "sqlite3_config_sync_mem_to_disk =
     (0, [Exec (str ''PRAGMA foreign_keys = OFF''), Exec (str ''BEGIN'')]
         @ delete_disktable @ insert_or_replace_disktable_select_maintable
         @ [Exec (str ''COMMIT''), Exec (str ''PRAGMA foreign_keys = ON'')])"

subsection \<open>Lemmas: users\<close>

lemma remove_passes_Nil [simp]: "remove_passes ps = []"
  by (induction ps rule: remove_passes.induct) (subst remove_passes.simps, simp)

lemma remove_users_spec:
  "us_mysql_users_name (remove_users us) = [] \<and> us_mysql_users_pass (remove_users us) = us_mysql_users_pass us
   \<and> us_usernames (remove_users us) = (\<lambda>u. if u \<in> set (us_mysql_users_name us) then None else us_usernames us u)"
proof (induction us rule: remove_users.induct)
  case (1 us)
  show ?case
  proof (cases "us_mysql_users_name us")
    case Nil
    then show ?thesis by (subst (1 2 3) remove_users.simps) simp
  next
    case (Cons p ps)
    have "mset (remove_index_fast 0 (p # ps)) = mset ps" using mset_remove_index_fast [of 0 "p # ps"] by simp
    then have "set (remove_index_fast 0 (p # ps)) = set ps" by (rule mset_eq_setD)
    then show ?thesis using 1 [OF Cons] Cons by (subst (1 2 3) remove_users.simps) (auto simp: fun_eq_iff)
  qed
qed

lemma add_users_spec:
  "us_mysql_users_name (add_users rows us) = us_mysql_users_name us @ map fst rows
   \<and> us_mysql_users_pass (add_users rows us) = us_mysql_users_pass us @ map snd rows
   \<and> us_usernames (add_users rows us) = us_usernames us ++ map_of (rev rows)"
  by (induction rows us rule: add_users.induct) (auto simp: map_add_def fun_eq_iff split: option.splits)

text \<open>The hash table knows exactly the users of the array.\<close>

definition users_ok :: "users \<Rightarrow> bool" where
  "users_ok us \<longleftrightarrow> dom (us_usernames us) = set (us_mysql_users_name us)
     \<and> length (us_mysql_users_pass us) = length (us_mysql_users_name us)"

lemma flush_users_db_ok:
  assumes "users_ok us"
  shows "users_ok (snd (sqlite3_flush_users_db_to_mem (Some rows) us))
    \<and> us_usernames (snd (sqlite3_flush_users_db_to_mem (Some rows) us)) = map_of (rev rows)"
proof -
  have "us_usernames (remove_users us) = Map.empty" using assms remove_users_spec [of us] by (auto simp: users_ok_def fun_eq_iff dom_def)
  moreover have "dom (map_of (rev rows)) = set (map fst rows)" by (simp add: dom_map_of_conv_image_fst)
  ultimately show ?thesis using remove_users_spec [of us]
    by (simp add: sqlite3_flush_users_db_to_mem_def Let_def users_ok_def add_users_spec)
qed

lemma load_mysql_users_users_ok:
  assumes "load_users l us = Some us'" and "users_ok us"
  shows "users_ok us'"
  using assms by (induction l us rule: load_users.induct) (auto simp: users_ok_def split: Option.bind_splits)

subsection \<open>Lemmas: buffers\<close>

lemma exec_printed_ok:
  assumes "length (c_sprintf f args) < l"
  shows "exec_printed l f args \<noteq> None"
  using assms by (simp add: exec_printed_def mem_write_def)

lemma length_dec: "- (10 ^ k) < i \<Longrightarrow> i < 10 ^ k \<Longrightarrow> 0 < k \<Longrightarrow> length (dec i) \<le> k + 1"
  using length_dec_nat [of "nat \<bar>i\<bar>" k] by (auto simp: dec_def nat_less_iff le_SucI abs_if split: if_splits)

lemma length_dec_int: "- (2 ^ 31) \<le> i \<Longrightarrow> i < 2 ^ 31 \<Longrightarrow> length (dec i) \<le> 11"
  using length_dec [of 10 i] by simp

lemma length_dec_small: "0 \<le> i \<Longrightarrow> i < 10 ^ k \<Longrightarrow> 0 < k \<Longrightarrow> length (dec i) \<le> k"
  using length_dec_nat [of "nat i" k] by (simp add: dec_def nat_less_iff)

lemma length_ull: "length (dec_nat (ull i)) \<le> 20"
proof -
  have "i mod 2 ^ 64 < 2 ^ 64" by (rule pos_mod_bound) simp
  then have "ull i < 2 ^ 64" by (simp add: ull_def nat_less_iff)
  then show ?thesis by (intro length_dec_nat) simp_all
qed

lemma users_text_length:
  "length (c_sprintf (users_format replace) [PStr u, PStr p, PInt a]) + 6 = length (users_format replace) + length u + length p + length (dec a)"
  by (cases replace) (simp_all add: users_format_def str_def)

lemma flush_users_ok:
  assumes "length names = length passes" and "0 \<le> active" and "active < 100000"
  shows "\<exists>ss. flush_users (users_format replace) active names passes = Some ss \<and> length ss = length names"
  using assms(1)
proof (induction names passes rule: list_induct2)
  case (Cons u us p ps)
  have "length (dec active) \<le> 5" using assms(2,3) by (intro length_dec_small) simp_all
  then have "exec_printed (length (users_format replace) + length u + length p) (users_format replace) [PStr u, PStr p, PInt active] \<noteq> None"
    using users_text_length [of replace u p active] by (intro exec_printed_ok) linarith
  then show ?case using Cons.IH by auto
qed simp

lemma levels_text_length:
  "length (c_sprintf (levels_format replace) [PStr s, PInt v]) + 4 = length (levels_format replace) + length s + length (dec v)"
  by (cases replace) (simp_all add: levels_format_def str_def)

lemma flush_levels_ok:
  assumes "\<forall>d \<in> set ds. \<exists>s. txt (dl_name d) = Some s \<and> length s \<le> 80 \<and> - (2 ^ 31) \<le> dl_verbosity d \<and> dl_verbosity d < 2 ^ 31"
  shows "\<exists>ss. flush_levels txt (levels_format replace) ds = Some ss \<and> length ss = length ds"
  using assms
proof (induction ds)
  case (Cons d ds)
  obtain s where s: "txt (dl_name d) = Some s" "length s \<le> 80" "- (2 ^ 31) \<le> dl_verbosity d" "dl_verbosity d < 2 ^ 31"
    using Cons.prems by auto
  have "exec_printed (length (levels_format replace) + 100) (levels_format replace) [PStr (str s), PInt (dl_verbosity d)] \<noteq> None"
    using levels_text_length [of replace "str s" "dl_verbosity d"] length_dec_int [OF s(3,4)] s(2)
    by (intro exec_printed_ok) simp
  then show ?case using Cons s(1) by auto
qed simp

lemma runtime_hostgroups_text_length:
  "length (c_sprintf runtime_hostgroups_format [PInt i, PStr a, PInt p, PNat w, PNat x, PNat y, PNat z]) + 22
     = length runtime_hostgroups_format + length (dec i) + length a + length (dec p)
       + length (dec_nat w) + length (dec_nat x) + length (dec_nat y) + length (dec_nat z)"
  by (simp add: runtime_hostgroups_format_def str_def)

lemma runtime_servers_text_length:
  "length (c_sprintf runtime_servers_format [PStr a, PInt p, PInt r, PInt t]) + 8
     = length runtime_servers_format + length a + length (dec p) + length (dec r) + length (dec t)"
  by (simp add: runtime_servers_format_def str_def)

lemma dump_hostgroup_ok:
  assumes "\<forall>m \<in> set ms. \<exists>e sr. gs_mshge gs m = Some e \<and> gs_heap gs (mh_MSptr e) = Some sr \<and> sr_port sr < 65536" and "i < 100"
  shows "\<exists>ss. dump_hostgroup gs i ms = Some ss"
  using assms(1)
proof (induction ms)
  case (Cons m ms)
  obtain e sr where m: "gs_mshge gs m = Some e" "gs_heap gs (mh_MSptr e) = Some sr" "sr_port sr < 65536" using Cons.prems by auto
  let ?args = "[PInt (int i), PStr (sr_address sr), PInt (int (sr_port sr)), PNat (ull (mh_connections_active e)),
             PNat (ull (mh_connections_created e)), PNat (ull (int (bs_sent (mh_server_bytes e)))), PNat (ull (int (bs_recv (mh_server_bytes e))))]"
  have "length (dec (int i)) \<le> 2" "length (dec (int (sr_port sr))) \<le> 5" using assms(2) m(3) by (intro length_dec_small; simp)+
  then have "length (c_sprintf runtime_hostgroups_format ?args) < length runtime_hostgroups_format + length (sr_address sr) + 14 + 80"
    using runtime_hostgroups_text_length [of "int i" "sr_address sr" "int (sr_port sr)" "ull (mh_connections_active e)"
        "ull (mh_connections_created e)" "ull (int (bs_sent (mh_server_bytes e)))" "ull (int (bs_recv (mh_server_bytes e)))"]
      length_ull [of "mh_connections_active e"] length_ull [of "mh_connections_created e"]
      length_ull [of "int (bs_sent (mh_server_bytes e))"] length_ull [of "int (bs_recv (mh_server_bytes e))"] by linarith
  then obtain s where "exec_printed (length runtime_hostgroups_format + length (sr_address sr) + 14 + 80) runtime_hostgroups_format ?args = Some s"
    using exec_printed_ok by blast
  moreover obtain ss where "dump_hostgroup gs i ms = Some ss" using Cons by auto
  ultimately show ?case using m(1,2) by simp
qed simp

lemma dump_hostgroups_ok:
  assumes "\<forall>sl \<in> set sls. \<forall>m \<in> set sl. \<exists>e sr. gs_mshge gs m = Some e \<and> gs_heap gs (mh_MSptr e) = Some sr \<and> sr_port sr < 65536"
    and "i + length sls \<le> 100"
  shows "\<exists>ss. dump_hostgroups gs i sls = Some ss"
  using assms
proof (induction sls arbitrary: i)
  case (Cons sl sls)
  then have "\<exists>ss. dump_hostgroup gs i sl = Some ss" by (intro dump_hostgroup_ok) auto
  moreover have "\<exists>ss. dump_hostgroups gs (Suc i) sls = Some ss" using Cons by simp
  ultimately show ?case by auto
qed simp

lemma dump_servers_ok:
  assumes "\<forall>ms \<in> set mss. sr_port ms < 65536 \<and> - (2 ^ 31) \<le> sr_read_only ms \<and> sr_read_only ms < 2 ^ 31"
  shows "\<exists>ss. dump_servers mss = Some ss"
  using assms
proof (induction mss)
  case (Cons ms mss)
  have "length (dec (int (sr_port ms))) \<le> 5" using Cons.prems by (intro length_dec_small) simp_all
  moreover have "length (dec (sr_read_only ms)) \<le> 11" using Cons.prems by (intro length_dec_int) simp_all
  moreover have "length (dec (status_int (sr_status ms))) \<le> 1" by (intro length_dec_small; cases "sr_status ms"; simp)
  ultimately have "exec_printed (length runtime_servers_format + length (sr_address ms) + 24) runtime_servers_format
      [PStr (sr_address ms), PInt (int (sr_port ms)), PInt (sr_read_only ms), PInt (status_int (sr_status ms))] \<noteq> None"
    using runtime_servers_text_length [of "sr_address ms" "int (sr_port ms)" "sr_read_only ms" "status_int (sr_status ms)"]
    by (intro exec_printed_ok) linarith
  then show ?case using Cons by auto
qed simp

lemma read_servers_map: "\<forall>a \<in> set as. h a \<noteq> None \<Longrightarrow> read_servers h as = Some (map (\<lambda>a. the (h a)) as)"
  by (induction as) auto

subsection \<open>Lemmas: servers\<close>

text \<open>The keys of the servers in a hostgroup.\<close>

definition server_key :: "mysql_server \<Rightarrow> cstr \<times> nat" where
  "server_key ms = (sr_address ms, sr_port ms)"

definition group_keys :: "glomysrvs \<Rightarrow> nat \<Rightarrow> (cstr \<times> nat) list" where
  "group_keys gs h = map (\<lambda>m. server_key (the (gs_heap gs (mh_MSptr (the (gs_mshge gs m)))))) (gs_hostgroups gs ! h)"

lemma free_hostgroups_ok: "srv_ok n gs \<Longrightarrow> srv_ok n (free_hostgroups gs)"
  by (auto simp: srv_ok_def free_hostgroups_def)

definition row_key :: "server_row \<Rightarrow> cstr \<times> nat" where
  "row_key r = (sw_hostname r, nat (sw_port r mod 65536))"

lemma place_server_ok:
  assumes ok: "srv_ok n gs" and a: "gs_heap gs a = None"
  shows "\<exists>b gs'. place_server a r gs = Some (b, gs') \<and> srv_ok n gs' \<and> b \<in> set (gs_servers gs')
    \<and> (\<exists>ms. gs_heap gs' b = Some ms \<and> server_key ms = row_key r \<and> sr_status ms = sw_status r \<and> sr_read_only ms = sw_read_only r)
    \<and> gs_mshge gs' = gs_mshge gs \<and> gs_hostgroups gs' = gs_hostgroups gs
    \<and> (\<forall>c ms. gs_heap gs c = Some ms \<longrightarrow> (\<exists>ms'. gs_heap gs' c = Some ms' \<and> server_key ms' = server_key ms))
    \<and> dom (gs_heap gs') \<subseteq> insert a (dom (gs_heap gs))"
proof -
  let ?p = "nat (sw_port r mod 65536)"
  have al: "\<forall>a \<in> set (gs_servers gs). gs_heap gs a \<noteq> None" using ok by (simp add: srv_ok_def)
  obtain x where x': "find_server (gs_heap gs) (gs_servers gs) (sw_hostname r) ?p = Some x"
      "\<forall>b. x = Some b \<longrightarrow> b \<in> set (gs_servers gs) \<and> (\<exists>ms. gs_heap gs b = Some ms \<and> sr_address ms = sw_hostname r \<and> sr_port ms = ?p)"
    using find_server_spec [OF al, of "sw_hostname r" ?p] by (elim exE conjE) (rule that)
  then have x: "find_server_ptr gs (sw_hostname r) ?p = Some x" by (simp add: find_server_ptr_def)
  have na: "a \<notin> set (gs_servers gs)" using ok a by (auto simp: srv_ok_def)
  show ?thesis
  proof (cases x)
    case None
    define ms where "ms = \<lparr>sr_address = sw_hostname r, sr_port = ?p, sr_read_only = sw_read_only r, sr_status = sw_status r\<rparr>"
    define gs' where "gs' = gs\<lparr>gs_heap := (gs_heap gs)(a \<mapsto> ms), gs_servers := gs_servers gs @ [a]\<rparr>"
    have p: "place_server a r gs = Some (a, gs')"
      using x None by (simp add: place_server_def mysql_server_entry_add_def mysql_server_entry_create_def gs'_def ms_def)
    have "srv_ok n gs'" using ok na unfolding srv_ok_def gs'_def by (auto; blast)
    then show ?thesis using p a by (intro exI [of _ a] exI [of _ gs']) (auto simp: gs'_def ms_def server_key_def row_key_def)
  next
    case (Some b)
    then obtain ms where b: "b \<in> set (gs_servers gs)" "gs_heap gs b = Some ms" "sr_address ms = sw_hostname r" "sr_port ms = ?p"
      using x'(2) by blast
    define gs' where "gs' = gs\<lparr>gs_heap := (gs_heap gs)(b \<mapsto> ms\<lparr>sr_read_only := sw_read_only r, sr_status := sw_status r\<rparr>)\<rparr>"
    have p: "place_server a r gs = Some (b, gs')" using x Some b(2) by (simp add: place_server_def gs'_def)
    have "srv_ok n gs'" using ok by (auto simp: srv_ok_def gs'_def)
    then show ?thesis using p b by (intro exI [of _ b] exI [of _ gs']) (auto simp: gs'_def server_key_def row_key_def)
  qed
qed

text \<open>Adding the entry \<open>m\<close> for the server at \<open>b\<close> extends one hostgroup by the key of this server.\<close>

lemma add_hostgroup_keys:
  assumes ok: "srv_ok n gs" and b: "b \<in> set (gs_servers gs)" "gs_heap gs b = Some ms" and hg: "0 \<le> h" and m: "gs_mshge gs m = None"
  shows "\<exists>gs'. mysql_server_entry_add_hostgroup n m b h gs = Some gs' \<and> srv_ok n gs' \<and> gs_heap gs' = gs_heap gs
    \<and> gs_servers gs' = gs_servers gs \<and> dom (gs_mshge gs') \<subseteq> insert m (dom (gs_mshge gs))
    \<and> (\<forall>i < n. group_keys gs' i = group_keys gs i @ (if int i = h then [server_key ms] else []))"
proof -
  obtain gs' where g: "mysql_server_entry_add_hostgroup n m b h gs = Some gs'" "srv_ok n gs'" "gs_heap gs' = gs_heap gs" "gs_servers gs' = gs_servers gs"
    using add_hostgroup_ok [OF ok b(1) hg m] by metis
  have l: "length (gs_hostgroups gs) = n" using ok by (simp add: srv_ok_def)
  have old: "x \<noteq> m" if "i < n" "x \<in> set (gs_hostgroups gs ! i)" for x i
    using that ok m unfolding srv_ok_def by (metis nth_mem option.distinct(1))
  have "dom (gs_mshge gs') \<subseteq> insert m (dom (gs_mshge gs)) \<and> (\<forall>i < n. group_keys gs' i = group_keys gs i @ (if int i = h then [server_key ms] else []))"
  proof (cases "h \<ge> int n")
    case True
    then show ?thesis using g(1) hg by (auto simp: mysql_server_entry_add_hostgroup_def)
  next
    case False
    then have "nat h < n" using hg by linarith
    then have "gs' = gs\<lparr>gs_mshge := (gs_mshge gs)(m \<mapsto> \<lparr>mh_MSptr = b, mh_connections_created = 0, mh_connections_active = 0,
          mh_server_bytes = \<lparr>bs_recv = 0, bs_sent = 0\<rparr>\<rparr>),
        gs_hostgroups := (gs_hostgroups gs)[nat h := gs_hostgroups gs ! nat h @ [m]]\<rparr>"
      using g(1) hg l False by (simp add: mysql_server_entry_add_hostgroup_def Let_def)
    moreover have "m \<notin> set (gs_hostgroups gs ! nat h)" using old [of "nat h" m] \<open>nat h < n\<close> by blast
    ultimately show ?thesis using l b(2) old hg False
      by (auto simp: group_keys_def nth_list_update)
  qed
  then show ?thesis using g by blast
qed

lemma srv_ok_entry:
  assumes "srv_ok n gs" and "i < n" and "m \<in> set (gs_hostgroups gs ! i)"
  shows "\<exists>e s. gs_mshge gs m = Some e \<and> gs_heap gs (mh_MSptr e) = Some s \<and> mh_MSptr e \<in> set (gs_servers gs)"
proof -
  have l: "i < length (gs_hostgroups gs)" and
    e: "\<forall>hg \<in> set (gs_hostgroups gs). \<forall>m \<in> set hg. \<exists>e. gs_mshge gs m = Some e \<and> mh_MSptr e \<in> set (gs_servers gs)" and
    h: "\<forall>a \<in> set (gs_servers gs). gs_heap gs a \<noteq> None" using assms(1,2) by (simp_all add: srv_ok_def)
  from e [rule_format, OF nth_mem [OF l] assms(3)] h show ?thesis by fast
qed

lemma load_server_row_ok:
  assumes ok: "srv_ok n gs" and a: "gs_heap gs a = None" and hg: "0 \<le> sw_hostgroup_id r" and m: "gs_mshge gs m = None"
  shows "\<exists>gs'. load_server_row n (a, m, r) gs = Some gs' \<and> srv_ok n gs'
    \<and> dom (gs_heap gs') \<subseteq> insert a (dom (gs_heap gs)) \<and> dom (gs_mshge gs') \<subseteq> insert m (dom (gs_mshge gs))
    \<and> (\<forall>i < n. group_keys gs' i = group_keys gs i @ (if sw_status r = ONLINE \<and> int i = sw_hostgroup_id r then [row_key r] else []))"
proof -
  obtain b gs1 ms where p: "place_server a r gs = Some (b, gs1)" "srv_ok n gs1" "b \<in> set (gs_servers gs1)"
      "gs_heap gs1 b = Some ms" "server_key ms = row_key r" "gs_mshge gs1 = gs_mshge gs" "gs_hostgroups gs1 = gs_hostgroups gs"
      "\<forall>c ms. gs_heap gs c = Some ms \<longrightarrow> (\<exists>ms'. gs_heap gs1 c = Some ms' \<and> server_key ms' = server_key ms)"
      "dom (gs_heap gs1) \<subseteq> insert a (dom (gs_heap gs))"
    using place_server_ok [OF ok a, of r] by (elim exE conjE) (rule that)
  have keys: "group_keys gs1 i = group_keys gs i" if "i < n" for i
  proof -
    have "server_key (the (gs_heap gs1 (mh_MSptr (the (gs_mshge gs x))))) = server_key (the (gs_heap gs (mh_MSptr (the (gs_mshge gs x)))))"
      if x: "x \<in> set (gs_hostgroups gs ! i)" for x
    proof -
      obtain e s where e: "gs_mshge gs x = Some e" "gs_heap gs (mh_MSptr e) = Some s"
        using srv_ok_entry [OF ok \<open>i < n\<close> x] by blast
      obtain s' where "gs_heap gs1 (mh_MSptr e) = Some s'" "server_key s' = server_key s"
        using p(8) [rule_format, OF e(2)] by blast
      then show ?thesis using e by simp
    qed
    then show ?thesis by (simp add: group_keys_def p(6,7))
  qed
  show ?thesis
  proof (cases "sw_status r = ONLINE")
    case False
    then show ?thesis using p(1,2,6,9) keys by (intro exI [of _ gs1]) (auto simp: load_server_row_def)
  next
    case True
    obtain gs2 where "mysql_server_entry_add_hostgroup n m b (sw_hostgroup_id r) gs1 = Some gs2" "srv_ok n gs2" "gs_heap gs2 = gs_heap gs1"
        "dom (gs_mshge gs2) \<subseteq> insert m (dom (gs_mshge gs1))"
        "\<forall>i < n. group_keys gs2 i = group_keys gs1 i @ (if int i = sw_hostgroup_id r then [server_key ms] else [])"
      using add_hostgroup_keys [OF p(2,3,4) hg, of m] m p(6) by auto
    then show ?thesis using True p(1,5,6,9) keys by (intro exI [of _ gs2]) (auto simp: load_server_row_def)
  qed
qed

lemma load_server_rows_ok:
  assumes "srv_ok n gs" and "distinct (map fst rows)" and "distinct (map (fst \<circ> snd) rows)"
    and "\<forall>(a, m, r) \<in> set rows. gs_heap gs a = None \<and> gs_mshge gs m = None \<and> 0 \<le> sw_hostgroup_id r"
  shows "\<exists>gs'. load_server_rows n rows gs = Some gs' \<and> srv_ok n gs'
    \<and> (\<forall>i < n. group_keys gs' i = group_keys gs i
          @ map row_key (filter (\<lambda>r. sw_status r = ONLINE \<and> int i = sw_hostgroup_id r) (map (snd \<circ> snd) rows)))"
  using assms
proof (induction rows arbitrary: gs)
  case (Cons x rows)
  obtain a m r where x: "x = (a, m, r)" by (rule prod_cases3)
  obtain gs1 where g: "load_server_row n (a, m, r) gs = Some gs1" "srv_ok n gs1"
      "dom (gs_heap gs1) \<subseteq> insert a (dom (gs_heap gs))" "dom (gs_mshge gs1) \<subseteq> insert m (dom (gs_mshge gs))"
      "\<forall>i < n. group_keys gs1 i = group_keys gs i @ (if sw_status r = ONLINE \<and> int i = sw_hostgroup_id r then [row_key r] else [])"
    using load_server_row_ok [OF Cons.prems(1), of a r m] Cons.prems(4) x by auto
  have fr: "\<forall>(b, k, s) \<in> set rows. gs_heap gs1 b = None \<and> gs_mshge gs1 k = None \<and> 0 \<le> sw_hostgroup_id s"
  proof (clarify)
    fix b k s assume bks: "(b, k, s) \<in> set rows"
    then have "b \<noteq> a" "k \<noteq> m" using Cons.prems(2,3) x by (force simp: image_iff)+
    then show "gs_heap gs1 b = None \<and> gs_mshge gs1 k = None \<and> 0 \<le> sw_hostgroup_id s"
      using g(3,4) Cons.prems(4) bks x by fastforce
  qed
  have d: "distinct (map fst rows)" "distinct (map (fst \<circ> snd) rows)"
    using Cons.prems(2,3) unfolding list.map distinct.simps by blast+
  obtain gs' where "load_server_rows n rows gs1 = Some gs'" "srv_ok n gs'"
      "\<forall>i < n. group_keys gs' i = group_keys gs1 i
          @ map row_key (filter (\<lambda>r. sw_status r = ONLINE \<and> int i = sw_hostgroup_id r) (map (snd \<circ> snd) rows))"
    using Cons.IH [OF g(2) d fr] by (elim exE conjE) (rule that)
  then show ?case using g(1,5) by (intro exI [of _ gs']) (simp add: x comp_def)
qed simp

subsection \<open>Properties\<close>

text \<open>
  What the \<^verbatim>\<open>SELECT\<close> over \<^verbatim>\<open>hostgroups\<close> and \<^verbatim>\<open>servers\<close> returns for given contents of the two tables: the join on
  host and port.
\<close>

definition bound_rows :: "cstr \<Rightarrow> sql list \<Rightarrow> sql_val list list" where
  "bound_rows q ss = concat (map (\<lambda>s. case s of Bound q' vs \<Rightarrow> if q' = q then [vs] else [] | Exec _ \<Rightarrow> []) ss)"

definition status_of_int :: "int \<Rightarrow> server_status" where
  "status_of_int i = (if i = 0 then OFFLINE_HARD else if i = 1 then OFFLINE_SOFT else if i = 2 then SHUNNED else ONLINE)"

fun join_row :: "sql_val list \<Rightarrow> sql_val list \<Rightarrow> server_row list" where
  "join_row [SqlInt h, SqlText (Some host), SqlInt port] [SqlText (Some host'), SqlInt port', SqlInt ro, SqlInt st] =
     (if host = host' \<and> port = port'
      then [\<lparr>sw_hostgroup_id = h, sw_hostname = host, sw_port = port, sw_read_only = ro, sw_status = status_of_int st\<rparr>] else [])"
| "join_row _ _ = []"

definition servers_join :: "sql_val list list \<Rightarrow> sql_val list list \<Rightarrow> server_row list" where
  "servers_join hgs srvs = concat (map (\<lambda>h. concat (map (join_row h) srvs)) hgs)"

lemma bound_rows_append [simp]: "bound_rows q (ss @ tt) = bound_rows q ss @ bound_rows q tt"
  by (simp add: bound_rows_def)

lemma bound_rows_concat: "bound_rows q (concat (map f xs)) = concat (map (\<lambda>x. bound_rows q (f x)) xs)"
  by (induction xs) (simp_all, simp add: bound_rows_def)

lemma queries_differ: "insert_server_query \<noteq> insert_hostgroup_query"
proof -
  have "length insert_server_query \<noteq> length insert_hostgroup_query" by (simp add: insert_server_query_def insert_hostgroup_query_def)
  then show ?thesis by auto
qed

lemma bound_rows_stmts:
  "bound_rows insert_server_query fill_server_status = []" "bound_rows insert_hostgroup_query fill_server_status = []"
  "bound_rows insert_server_query (hostgroup_stmts ms) = []" "bound_rows insert_hostgroup_query (server_stmts ms) = []"
  using queries_differ queries_differ [symmetric]
  by (auto simp: bound_rows_def fill_server_status_def hostgroup_stmts_def server_stmts_def split: if_splits)

definition serves :: "mysql_server \<Rightarrow> bool" where
  "serves ms \<longleftrightarrow> sr_status ms = ONLINE \<and> (sr_read_only ms = 0 \<or> sr_read_only ms = 1)"

definition loaded_row :: "mysql_server \<Rightarrow> mysql_server \<Rightarrow> int \<Rightarrow> server_row" where
  "loaded_row ms ms' h = \<lparr>sw_hostgroup_id = h, sw_hostname = sr_address ms, sw_port = int (sr_port ms),
     sw_read_only = sr_read_only ms', sw_status = ONLINE\<rparr>"

definition goes :: "mysql_server \<Rightarrow> int \<Rightarrow> bool" where
  "goes ms h \<longleftrightarrow> h = 1 \<and> serves ms \<or> h = 0 \<and> sr_status ms = ONLINE \<and> sr_read_only ms = 0"

lemma bound_rows_server:
  "bound_rows insert_server_query (server_stmts ms)
     = (if serves ms then [[SqlText (Some (sr_address ms)), SqlInt (int (sr_port ms)), SqlInt (sr_read_only ms), SqlInt (status_int ONLINE)]] else [])"
  by (simp add: bound_rows_def server_stmts_def serves_def)

lemma bound_rows_hostgroup:
  "bound_rows insert_hostgroup_query (hostgroup_stmts ms)
     = map (\<lambda>h. [SqlInt h, SqlText (Some (sr_address ms)), SqlInt (int (sr_port ms))]) (filter (goes ms) [1, 0])"
  by (cases "sr_status ms = ONLINE"; cases "sr_read_only ms = 0"; cases "sr_read_only ms = 1")
    (simp_all add: bound_rows_def hostgroup_stmts_def serves_def goes_def)

lemma join_row_key:
  "join_row [SqlInt h, SqlText (Some (sr_address ms)), SqlInt (int (sr_port ms))]
      [SqlText (Some (sr_address ms')), SqlInt (int (sr_port ms')), SqlInt (sr_read_only ms'), SqlInt (status_int ONLINE)]
     = (if server_key ms = server_key ms' then [loaded_row ms ms' h] else [])"
  by (simp add: server_key_def loaded_row_def status_of_int_def)

lemma goes_hostgroup: "goes ms h \<Longrightarrow> h \<in> {0, 1}"
  by (auto simp: goes_def)

lemma join_of_stmts:
  "set (servers_join (bound_rows insert_hostgroup_query (hostgroup_stmts ms)) (bound_rows insert_server_query (server_stmts ms')))
     = {loaded_row ms ms' h | h. server_key ms = server_key ms' \<and> serves ms' \<and> goes ms h}"
proof -
  have "servers_join (bound_rows insert_hostgroup_query (hostgroup_stmts ms)) (bound_rows insert_server_query (server_stmts ms'))
      = (if serves ms' \<and> server_key ms = server_key ms' then map (loaded_row ms ms') (filter (goes ms) [1, 0]) else [])"
    unfolding servers_join_def bound_rows_server bound_rows_hostgroup by (simp add: join_row_key del: join_row.simps status_int.simps)
  then show ?thesis using goes_hostgroup [of ms] by auto
qed

lemma set_servers_join: "set (servers_join (concat (map f xs)) (concat (map g ys))) = (\<Union>x \<in> set xs. \<Union>y \<in> set ys. set (servers_join (f x) (g y)))"
  by (auto simp: servers_join_def)

definition mem_servers :: "glomysrvs \<Rightarrow> mysql_server list" where
  "mem_servers gs = map (\<lambda>a. the (gs_heap gs a)) (gs_servers gs)"

definition split_rows :: "mysql_server list \<Rightarrow> server_row set" where
  "split_rows mss = {loaded_row ms ms' h | ms ms' h. ms \<in> set mss \<and> ms' \<in> set mss \<and> server_key ms = server_key ms' \<and> serves ms' \<and> goes ms h}"

lemma flush_servers_stmts:
  assumes "srv_ok n gs"
  shows "\<exists>ss. sqlite3_flush_servers_mem_to_db 0 0 0 gs = Some ss
    \<and> set (servers_join (bound_rows insert_hostgroup_query ss) (bound_rows insert_server_query ss)) = split_rows (mem_servers gs)"
proof -
  let ?ms = "mem_servers gs"
  have r: "read_servers (gs_heap gs) (gs_servers gs) = Some ?ms"
    using assms by (simp add: read_servers_map srv_ok_def mem_servers_def)
  define ss where "ss = fill_server_status @ concat (map server_stmts ?ms) @ concat (map hostgroup_stmts ?ms)"
  have f: "sqlite3_flush_servers_mem_to_db 0 0 0 gs = Some ss" by (simp add: sqlite3_flush_servers_mem_to_db_def r ss_def)
  have b: "bound_rows insert_hostgroup_query ss = concat (map (\<lambda>ms. bound_rows insert_hostgroup_query (hostgroup_stmts ms)) ?ms)"
    "bound_rows insert_server_query ss = concat (map (\<lambda>ms. bound_rows insert_server_query (server_stmts ms)) ?ms)"
    by (simp_all add: ss_def bound_rows_concat bound_rows_stmts)
  show ?thesis unfolding f by (intro exI [of _ ss] conjI refl, unfold b set_servers_join join_of_stmts split_rows_def) blast
qed

lemma split_rows_keys:
  assumes "\<forall>ms \<in> set mss. sr_port ms < 65536"
  shows "row_key ` {r \<in> split_rows mss. int i = sw_hostgroup_id r} = server_key ` {ms \<in> set mss. goes ms (int i)}"
proof (intro equalityI subsetI)
  have k: "row_key (loaded_row ms ms' h) = server_key ms" if "ms \<in> set mss" for ms ms' h
    using that assms by (simp add: row_key_def loaded_row_def server_key_def)
  {
    fix x assume "x \<in> row_key ` {r \<in> split_rows mss. int i = sw_hostgroup_id r}"
    then obtain ms ms' where "x = row_key (loaded_row ms ms' (int i))" "ms \<in> set mss" "goes ms (int i)"
      by (auto simp: split_rows_def loaded_row_def)
    then show "x \<in> server_key ` {ms \<in> set mss. goes ms (int i)}" by (simp add: k)
  next
    fix x assume "x \<in> server_key ` {ms \<in> set mss. goes ms (int i)}"
    then obtain ms where ms: "ms \<in> set mss" "goes ms (int i)" "x = row_key (loaded_row ms ms (int i))" using k by auto
    have "serves ms" using ms(2) by (auto simp: goes_def serves_def)
    then have "loaded_row ms ms (int i) \<in> split_rows mss"
      unfolding split_rows_def mem_Collect_eq using ms by (intro exI [of _ ms] exI [of _ "int i"]) simp
    then show "x \<in> row_key ` {r \<in> split_rows mss. int i = sw_hostgroup_id r}"
      unfolding ms(3) by (intro imageI) (simp add: loaded_row_def)
  }
qed


lemma split_rows_code:
  "split_rows mss = set (concat (map (\<lambda>ms. concat (map (\<lambda>ms'. if server_key ms = server_key ms' \<and> serves ms'
     then map (loaded_row ms ms') (filter (goes ms) [1, 0]) else []) mss)) mss))" (is "_ = ?R")
proof (intro equalityI subsetI)
  fix r assume "r \<in> split_rows mss"
  then obtain ms ms' h where m: "r = loaded_row ms ms' h" "ms \<in> set mss" "ms' \<in> set mss" "server_key ms = server_key ms'" "serves ms'" "goes ms h"
    unfolding split_rows_def by blast
  then have "r \<in> loaded_row ms ms' ` set (filter (goes ms) [1, 0])" using goes_hostgroup [OF m(6)] by auto
  then show "r \<in> ?R" using m(2-5) by (simp del: filter.simps) (intro bexI [of _ ms] bexI [of _ ms']; simp)
next
  fix r assume "r \<in> ?R"
  then obtain ms ms' where m: "ms \<in> set mss" "ms' \<in> set mss" "server_key ms = server_key ms'" "serves ms'"
      "r \<in> loaded_row ms ms' ` set (filter (goes ms) [1, 0])"
    by (auto split: if_splits)
  then obtain h where "r = loaded_row ms ms' h" "goes ms h" unfolding set_filter by blast
  then show "r \<in> split_rows mss" unfolding split_rows_def mem_Collect_eq using m(1-4) by blast
qed

definition sample_srvs :: glomysrvs where
  "sample_srvs = (init_glomysrvs 2)\<lparr>gs_servers := [1, 2],
     gs_heap := [1 \<mapsto> \<lparr>sr_address = [97], sr_port = 3306, sr_read_only = 0, sr_status = ONLINE\<rparr>,
                 2 \<mapsto> \<lparr>sr_address = [98], sr_port = 3306, sr_read_only = 1, sr_status = ONLINE\<rparr>]\<rparr>"

definition sample_rows :: "(nat \<times> nat \<times> server_row) list" where
  "sample_rows = [(3, 1, \<lparr>sw_hostgroup_id = 1, sw_hostname = [97], sw_port = 3306, sw_read_only = 0, sw_status = ONLINE\<rparr>),
     (4, 2, \<lparr>sw_hostgroup_id = 0, sw_hostname = [97], sw_port = 3306, sw_read_only = 0, sw_status = ONLINE\<rparr>),
     (5, 3, \<lparr>sw_hostgroup_id = 1, sw_hostname = [98], sw_port = 3306, sw_read_only = 1, sw_status = ONLINE\<rparr>)]"

lemma sample_srvs_ok: "srv_ok 2 sample_srvs"
  "mem_servers sample_srvs = [\<lparr>sr_address = [97], sr_port = 3306, sr_read_only = 0, sr_status = ONLINE\<rparr>,
     \<lparr>sr_address = [98], sr_port = 3306, sr_read_only = 1, sr_status = ONLINE\<rparr>]"
  by (auto simp: srv_ok_def sample_srvs_def init_glomysrvs_def mem_servers_def)


text \<open>
  Reloading the users replaces them all: afterwards array and hash table agree, a user has the
  password of the last row with this name, and a user without a row is unknown.
\<close>

theorem users_reload:
  assumes "users_ok us"
  shows "\<exists>us'. sqlite3_flush_users_db_to_mem (Some rows) us = (int (length rows), us') \<and> users_ok us'
    \<and> us_usernames us' = map_of (rev rows) \<and> us_mysql_users_name us' = map fst rows \<and> us_mysql_users_pass us' = map snd rows"
  using flush_users_db_ok [OF assms, of rows] remove_users_spec [of us]
  by (simp add: sqlite3_flush_users_db_to_mem_def Let_def add_users_spec)

theorem users_reload_witness:
  "us_usernames (snd (sqlite3_flush_users_db_to_mem (Some [([98], [1]), ([98], [2])])
      \<lparr>us_mysql_users_name = [[97]], us_mysql_users_pass = [[7]], us_usernames = [[97] \<mapsto> [7]]\<rparr>)) = [[98] \<mapsto> [2]]"
proof -
  have "users_ok \<lparr>us_mysql_users_name = [[97]], us_mysql_users_pass = [[7]], us_usernames = [[97] \<mapsto> [7]]\<rparr>" by (simp add: users_ok_def)
  from users_reload [OF this, of "[([98], [1]), ([98], [2])]"] show ?thesis by auto
qed

text \<open>
  C33. The statements printed for the users and for the tables of the running servers fit into the buffers
  allocated for them, with up to 100 hostgroups.
\<close>

theorem sql_buffers_fit:
  assumes "users_ok us" and "0 \<le> active" and "active < 100000"
    and "srv_ok n gs" and "n \<le> 100"
    and "\<forall>ms \<in> set (mem_servers gs). sr_port ms < 65536 \<and> - (2 ^ 31) \<le> sr_read_only ms \<and> sr_read_only ms < 2 ^ 31"
  shows "(\<exists>ss. sqlite3_flush_users_mem_to_db replace active us = Some ss \<and> length ss = length (us_mysql_users_name us))
    \<and> (\<exists>k ss. sqlite3_dump_runtime_hostgroups n gs = Some (k, ss) \<and> int (length ss) = k + 4)"
proof -
  have r: "read_servers (gs_heap gs) (gs_servers gs) = Some (mem_servers gs)"
    using assms(4) by (simp add: read_servers_map srv_ok_def mem_servers_def)
  have port: "\<exists>sr. gs_heap gs a = Some sr \<and> sr_port sr < 65536" if "a \<in> set (gs_servers gs)" for a
    using that assms(4,6) by (fastforce simp: srv_ok_def mem_servers_def)
  have n: "length (gs_hostgroups gs) = n" using assms(4) by (simp add: srv_ok_def)
  have "\<forall>sl \<in> set (gs_hostgroups gs). \<forall>m \<in> set sl. \<exists>e sr. gs_mshge gs m = Some e \<and> gs_heap gs (mh_MSptr e) = Some sr \<and> sr_port sr < 65536"
    using assms(4) port unfolding srv_ok_def by metis
  then obtain hs where "dump_hostgroups gs 0 (gs_hostgroups gs) = Some hs" using dump_hostgroups_ok assms(5) n by fastforce
  moreover obtain ss where "dump_servers (mem_servers gs) = Some ss" using dump_servers_ok assms(6) by blast
  ultimately have "\<exists>k ss. sqlite3_dump_runtime_hostgroups n gs = Some (k, ss) \<and> int (length ss) = k + 4"
    by (simp add: sqlite3_dump_runtime_hostgroups_def n r)
  moreover have "\<exists>ss. sqlite3_flush_users_mem_to_db replace active us = Some ss \<and> length ss = length (us_mysql_users_name us)"
    unfolding sqlite3_flush_users_mem_to_db_def using assms(1-3) by (intro flush_users_ok) (simp_all add: users_ok_def)
  ultimately show ?thesis by blast
qed

theorem sql_buffers_fit_witness:
  "(\<exists>ss. sqlite3_flush_users_mem_to_db True 1 \<lparr>us_mysql_users_name = [[97]], us_mysql_users_pass = [[7]], us_usernames = [[97] \<mapsto> [7]]\<rparr> = Some ss \<and> length ss = 1)
    \<and> (\<exists>k ss. sqlite3_dump_runtime_hostgroups 2 sample_srvs = Some (k, ss) \<and> int (length ss) = k + 4)"
proof -
  have "users_ok \<lparr>us_mysql_users_name = [[97]], us_mysql_users_pass = [[7]], us_usernames = [[97] \<mapsto> [7]]\<rparr>" by (simp add: users_ok_def)
  from sql_buffers_fit [OF this, of 1 2 sample_srvs True] sample_srvs_ok show ?thesis by simp
qed

end
