(* ===== verification/SessionState.thy ===== *)
theory SessionState
  imports AdminDB
begin

section \<open>The state of a session and of the process\<close>

text \<open>
  The records on which the functions of \<^verbatim>\<open>src/mysql_session.c\<close>, \<^verbatim>\<open>src/mysql_backend.c\<close>, \<^verbatim>\<open>src/admin.c\<close> and
  \<^verbatim>\<open>src/main.c\<close> work.

  \<open>world\<close> is the state of the process: the global variables (\<open>config\<close>), default hostgroups, query
  cache, statistics, the connection pool of the thread, the connections that were closed, and the
  statements that went to SQLite. \<open>mysql_backend\<close> and \<open>mysql_session\<close> are the structs of the same name;
  \<^verbatim>\<open>server_mybe\<close>, a pointer into the array \<^verbatim>\<open>mybes\<close>, is an index, and \<^verbatim>\<open>mshge\<close> an address of the heap of
  hostgroup entries. An address that is not in the heap is a pointer to freed memory, and following it
  is \<open>None\<close>.

  \<open>sys\<close> holds the answers of the operating system and of the libraries. An answer that may differ from
  call to call is a function of \<open>wd_tick\<close>, which counts the calls.
\<close>

subsection \<open>Records\<close>

datatype sqlite_db = AdminDb | MonitorDb | ConfigDb | StatsDb | DebugDb

record world = config +
  wd_DefHG :: global_default_hostgroups
  wd_QC :: fdb_hashes_group
  wd_stats :: qr_hash
  wd_connpool :: conn_pools \<comment> \<open>\<^verbatim>\<open>__thr_myconnpool\<close>\<close>
  wd_closed :: "cp_entry list"
  wd_sql :: "(sqlite_db \<times> sql) list"
  wd_shutdown :: bool
  wd_admindb_lastupdate :: int
  wd_monitordb_lastupdate :: int
  wd_mysql_connections :: "nat list" \<comment> \<open>the sessions that are registered, by address\<close>
  wd_mysql_connections_cur :: "32 word"
  wd_wire :: "int \<Rightarrow> byte list" \<comment> \<open>the bytes each socket has accepted\<close>
  wd_tick :: nat

record sys =
  sy_rand :: "nat \<Rightarrow> nat"
  sy_connect :: "nat \<Rightarrow> (nat \<times> int) option"
  sy_send :: "nat \<Rightarrow> nat option" \<comment> \<open>the number of bytes a socket takes, if it is offered as many\<close>
  sy_recv :: "nat \<Rightarrow> byte list option" \<comment> \<open>the bytes that have arrived at a socket\<close>
  sy_time :: "nat \<Rightarrow> nat"
  sy_monotonic_time :: "nat \<Rightarrow> int"
  sy_junk :: "nat \<Rightarrow> nat \<Rightarrow> byte"
  sy_address :: "nat \<Rightarrow> nat"
  sy_after :: "nat \<Rightarrow> byte list" \<comment> \<open>the memory behind a packet\<close>
  sy_checksum :: "byte list \<Rightarrow> cstr" \<comment> \<open>\<^verbatim>\<open>g_checksum_get_string\<close>\<close>
  sy_sha1 :: "byte list \<Rightarrow> byte list"
  sy_md5 :: "byte list \<Rightarrow> byte list"
  sy_regex :: regex_lib

record mysql_backend =
  be_fd :: int
  be_mshge :: "nat option"
  be_last_mysql_connpool :: "nat option"
  be_server_myds :: "data_stream option"
  be_server_mycpe :: "cp_entry option"
  be_server_bytes_at_cmd :: bytes_stats

datatype resultset_progress =
  RESULTSET_WAITING | RESULTSET_COLUMN_COUNT | RESULTSET_COLUMN_DEFINITIONS | RESULTSET_EOF1 | RESULTSET_ROWS | RESULTSET_COMPLETED

datatype poll_flag = POLLIN | POLLOUT | POLLERR | POLLHUP | POLLNVAL

record pollfd =
  pf_fd :: int
  pf_events :: "poll_flag list"
  pf_revents :: "poll_flag list"

record mysql_session = rule_sess +
  ss_self :: nat \<comment> \<open>the address of the session\<close>
  ss_client_fd :: int
  ss_healthy :: bool
  ss_server_fd :: int
  ss_status :: "32 word"
  ss_force_close_backends :: int
  ss_ret :: int
  ss_fds :: "pollfd \<times> pollfd"
  ss_nfds :: nat
  ss_last_server_poll_fd :: int
  ss_server_bytes_at_cmd :: bytes_stats
  ss_client_command :: nat
  ss_resultset_progress :: resultset_progress
  ss_resultset_size :: nat
  ss_query_to_cache :: bool
  ss_resultset :: "pkt list"
  ss_client_myds :: data_stream
  ss_server_mybe :: "nat option"
  ss_mybes :: "mysql_backend list"
  ss_schema_new :: "cstr option"
  ss_mysql_query_cache_hit :: bool
  ss_mysql_server_reconnect :: bool
  ss_net_failure :: bool
  ss_send_to_slave :: bool

text \<open>The commands of the protocol that the code names; \<^verbatim>\<open>MYSQL_COM_END\<close> is none of them.\<close>

definition MYSQL_COM_QUIT :: nat where "MYSQL_COM_QUIT = 1"

definition MYSQL_COM_INIT_DB :: nat where "MYSQL_COM_INIT_DB = 2"

definition MYSQL_COM_QUERY :: nat where "MYSQL_COM_QUERY = 3"

definition MYSQL_COM_STATISTICS :: nat where "MYSQL_COM_STATISTICS = 9"

definition MYSQL_COM_CHANGE_USER :: nat where "MYSQL_COM_CHANGE_USER = 17"

definition MYSQL_COM_STMT :: "nat list" where "MYSQL_COM_STMT = [22, 23, 25, 26, 24]"

definition MYSQL_COM_END :: nat where "MYSQL_COM_END = 256"

lemmas com_defs = MYSQL_COM_QUIT_def MYSQL_COM_INIT_DB_def MYSQL_COM_QUERY_def MYSQL_COM_STATISTICS_def
  MYSQL_COM_CHANGE_USER_def MYSQL_COM_STMT_def MYSQL_COM_END_def

subsection \<open>Access\<close>

text \<open>A variable of \<^verbatim>\<open>glovars\<close>, and the ones that are used as switches.\<close>

definition glovar :: "string \<Rightarrow> 'a config_scheme \<Rightarrow> int" where
  "glovar name w = cf_int w (''glovars.'' @ name)"

definition mysql_hostgroups :: "'a config_scheme \<Rightarrow> nat" where
  "mysql_hostgroups w = nat (glovar ''mysql_hostgroups'' w)"

abbreviation tick :: "'a world_scheme \<Rightarrow> 'a world_scheme" where
  "tick w \<equiv> w\<lparr>wd_tick := wd_tick w + 1\<rparr>"

definition gloconnpool :: "'a config_scheme \<Rightarrow> conn_pools" where
  "gloconnpool w = \<lparr>cs_connpools = cf_connpools w, cs_enabled = cf_int w ''gloconnpool.enabled'' \<noteq> 0\<rparr>"

definition glo_users_of :: "'a config_scheme \<Rightarrow> glo_users option" where
  "glo_users_of w = do {
     au \<leftarrow> cf_str w ''glovars.proxy_admin_user''; ap \<leftarrow> cf_str w ''glovars.proxy_admin_password'';
     mu \<leftarrow> cf_str w ''glovars.proxy_monitor_user''; mp \<leftarrow> cf_str w ''glovars.proxy_monitor_password'';
     Some \<lparr>gu_admin_user = au, gu_admin_password = ap, gu_monitor_user = mu, gu_monitor_password = mp,
           gu_usernames = us_usernames (cf_users w)\<rparr>
   }"

text \<open>\<^verbatim>\<open>MY_SESS_ADD_PKT_OUT_CLIENT\<close> and \<^verbatim>\<open>MY_SESS_ADD_PKT_OUT_SERVER\<close>.\<close>

definition out_pkts :: "pkt list \<Rightarrow> data_stream \<Rightarrow> data_stream" where
  "out_pkts ps myds = myds\<lparr>ds_output := (ds_output myds)\<lparr>ud_pkts := ud_pkts (ds_output myds) @ ps\<rparr>\<rparr>"

definition MY_SESS_ADD_PKT_OUT_CLIENT :: "pkt \<Rightarrow> 'a mysql_session_scheme \<Rightarrow> 'a mysql_session_scheme" where
  "MY_SESS_ADD_PKT_OUT_CLIENT p sess = sess\<lparr>ss_client_myds := out_pkts [p] (ss_client_myds sess)\<rparr>"

definition backend :: "'a mysql_session_scheme \<Rightarrow> nat \<Rightarrow> mysql_backend option" where
  "backend sess i = (if i < length (ss_mybes sess) then Some (ss_mybes sess ! i) else None)"

definition set_backend :: "nat \<Rightarrow> mysql_backend \<Rightarrow> 'a mysql_session_scheme \<Rightarrow> 'a mysql_session_scheme" where
  "set_backend i mybe sess = sess\<lparr>ss_mybes := (ss_mybes sess)[i := mybe]\<rparr>"

definition MY_SESS_ADD_PKT_OUT_SERVER :: "pkt \<Rightarrow> 'a mysql_session_scheme \<Rightarrow> 'a mysql_session_scheme option" where
  "MY_SESS_ADD_PKT_OUT_SERVER p sess = do {
     i \<leftarrow> ss_server_mybe sess;
     mybe \<leftarrow> backend sess i;
     myds \<leftarrow> be_server_myds mybe;
     Some (set_backend i (mybe\<lparr>be_server_myds := Some (out_pkts [p] myds)\<rparr>) sess)
   }"

text \<open>The stream of the current backend, if there is one: \<^verbatim>\<open>sess->server_mybe && sess->server_mybe->server_myds\<close>.\<close>

definition server_myds :: "'a mysql_session_scheme \<Rightarrow> data_stream option" where
  "server_myds sess = do { i \<leftarrow> ss_server_mybe sess; mybe \<leftarrow> backend sess i; be_server_myds mybe }"

definition ACTIVE_TRANSACTION :: "'a mysql_session_scheme \<Rightarrow> int option" where
  "ACTIVE_TRANSACTION sess = map_option ds_active_transaction (server_myds sess)"

text \<open>The server behind a backend, \<^verbatim>\<open>mybe->mshge->MSptr\<close>.\<close>

definition backend_server :: "mysql_backend \<Rightarrow> 'a config_scheme \<Rightarrow> mysql_server option" where
  "backend_server mybe w = do {
     m \<leftarrow> be_mshge mybe;
     e \<leftarrow> gs_mshge (cf_glomysrvs w) m;
     gs_heap (cf_glomysrvs w) (mh_MSptr e)
   }"

definition upd_mshge :: "nat \<Rightarrow> (mshge \<Rightarrow> mshge) \<Rightarrow> 'a config_scheme \<Rightarrow> 'a config_scheme option" where
  "upd_mshge m f w = do {
     e \<leftarrow> gs_mshge (cf_glomysrvs w) m;
     Some (w\<lparr>cf_glomysrvs := (cf_glomysrvs w)\<lparr>gs_mshge := (gs_mshge (cf_glomysrvs w))(m \<mapsto> f e)\<rparr>\<rparr>)
   }"

subsection \<open>A small instance\<close>

text \<open>Two hostgroups, one server in each; used to show that the hypotheses of the theorems can hold.\<close>

definition sample_world :: world where
  "sample_world = \<lparr>cf_int = (\<lambda>_. 0)(''glovars.mysql_hostgroups'' := 2, ''glovars.net_buffer_size'' := 8), cf_str = (\<lambda>_. None),
     cf_glomysrvs = sample_srvs\<lparr>gs_hostgroups := [[5], [6]],
       gs_mshge := [5 \<mapsto> \<lparr>mh_MSptr = 1, mh_connections_created = 0, mh_connections_active = 0, mh_server_bytes = \<lparr>bs_recv = 0, bs_sent = 0\<rparr>\<rparr>,
                    6 \<mapsto> \<lparr>mh_MSptr = 2, mh_connections_created = 0, mh_connections_active = 0, mh_server_bytes = \<lparr>bs_recv = 0, bs_sent = 0\<rparr>\<rparr>]\<rparr>,
     cf_connpools = [], cf_query_rules = None,
     cf_users = \<lparr>us_mysql_users_name = [], us_mysql_users_pass = [], us_usernames = Map.empty\<rparr>, cf_gdbg_lvl = [],
     wd_DefHG = glo_DefHG_init, wd_QC = fdb_hashes_new 1 10 1000 5, wd_stats = \<lparr>qh_c = Map.empty, qh_p = Map.empty\<rparr>,
     wd_connpool = local_mysql_connpool_init True, wd_closed = [], wd_sql = [], wd_shutdown = False,
     wd_admindb_lastupdate = 0, wd_monitordb_lastupdate = 0, wd_mysql_connections = [], wd_mysql_connections_cur = 0, wd_wire = (\<lambda>_. []), wd_tick = 0\<rparr>"

text \<open>Every call succeeds: \<^verbatim>\<open>send\<close> takes all it is offered and \<^verbatim>\<open>connect\<close> gives descriptor 9.\<close>

definition sample_sys :: sys where
  "sample_sys = \<lparr>sy_rand = (\<lambda>_. 0), sy_connect = (\<lambda>t. Some (t, 9)), sy_send = (\<lambda>_. Some 1000), sy_recv = (\<lambda>_. None), sy_time = (\<lambda>_. 100),
     sy_monotonic_time = (\<lambda>_. 1), sy_junk = (\<lambda>_ _. 0), sy_address = (\<lambda>t. t), sy_after = (\<lambda>_. []), sy_checksum = (\<lambda>_. [99]),
     sy_sha1 = (\<lambda>b. replicate 20 0), sy_md5 = (\<lambda>b. replicate 16 0), sy_regex = sample_rx\<rparr>"

definition sample_stream :: data_stream where
  "sample_stream = fst (mysql_data_stream_new (\<lambda>_. 0) 64 4 False
     \<lparr>en_net_failure = False, en_server_bytes = \<lparr>bs_recv = 0, bs_sent = 0\<rparr>, en_connections_created = 0, en_connections_active = 0, en_wire = []\<rparr>)"

definition sample_session :: mysql_session where
  "sample_session = rule_sess.extend sample_sess
     (mysql_session.fields 1 4 True 0 0 0 0 (\<lparr>pf_fd = 4, pf_events = [POLLIN], pf_revents = []\<rparr>, \<lparr>pf_fd = 0, pf_events = [], pf_revents = []\<rparr>)
       1 0 \<lparr>bs_recv = 0, bs_sent = 0\<rparr> 256 RESULTSET_WAITING 0 False [] sample_stream None [] None False False False False)"

end
