(* ===== verification/Backend.thy ===== *)
theory Backend
  imports SessionState
begin

section \<open>Backends of a session\<close>

text \<open>
  \<^verbatim>\<open>src/mysql_backend.c\<close>, \<^verbatim>\<open>mysql_session_create_backend_for_hostgroup\<close> of \<^verbatim>\<open>src/mysql_handler.c\<close>,
  \<^verbatim>\<open>reconnect_server_on_shut_fd\<close> of \<^verbatim>\<open>src/mysql_connpool.c\<close> and \<^verbatim>\<open>write_one_pkt_to_net\<close> of
  \<^verbatim>\<open>src/network.c\<close>: how a session gets a server of a hostgroup and a connection to it, and how it gives
  both back.

  The main result: whatever the random choices and the answers of the servers, a session gets a
  backend for a hostgroup if and only if there is a server and one of ten attempts succeeds; the
  backend then belongs to the hostgroup, and its connection was opened for this server with the
  credentials of the session.
\<close>

subsection \<open>Giving back\<close>

definition backend_reset_server_mycpe :: "sys \<Rightarrow> int \<Rightarrow> mysql_backend \<Rightarrow> 'w world_scheme \<Rightarrow> (mysql_backend \<times> 'w world_scheme) option" where
  "backend_reset_server_mycpe sy fc mybe w =
     (case be_server_mycpe mybe of
        None \<Rightarrow> Some (mybe, w)
      | Some mc \<Rightarrow> do {
          (closed, cp) \<leftarrow> mysql_connpool_detach_connection (sy_time sy (wd_tick w)) (be_last_mysql_connpool mybe) mc (fc = 1) (wd_connpool w);
          Some (mybe\<lparr>be_server_mycpe := None\<rparr>, (tick w)\<lparr>wd_connpool := cp, wd_closed := wd_closed w @ closed\<rparr>)
        })"

definition backend_reset_server_myds :: "mysql_backend \<Rightarrow> (int \<times> mysql_backend) option" where
  "backend_reset_server_myds mybe =
     (case be_server_myds mybe of
        None \<Rightarrow> Some (0, mybe)
      | Some myds \<Rightarrow> do {
          _ \<leftarrow> mysql_data_stream_delete myds;
          Some (if ds_active myds then 0 else 1, mybe\<lparr>be_server_myds := None\<rparr>)
        })"

definition backend_detach :: "sys \<Rightarrow> int \<Rightarrow> mysql_backend \<Rightarrow> 'w world_scheme \<Rightarrow> (mysql_backend \<times> 'w world_scheme) option" where
  "backend_detach sy fc mybe w =
     (let mybe = mybe\<lparr>be_last_mysql_connpool := None\<rparr>
      in case be_server_mycpe mybe of
           None \<Rightarrow> Some (mybe, w)
         | Some mc \<Rightarrow> if ce_reusable mc then backend_reset_server_mycpe sy fc mybe w else Some (mybe, w))"

definition backend_reset :: "sys \<Rightarrow> int \<Rightarrow> mysql_backend \<Rightarrow> 'w world_scheme \<Rightarrow> (mysql_backend \<times> 'w world_scheme) option" where
  "backend_reset sy force_close mybe w = do {
     let mybe = mybe\<lparr>be_fd := 0, be_last_mysql_connpool := None\<rparr>;
     w \<leftarrow> (case be_mshge mybe of
            None \<Rightarrow> Some w
          | Some m \<Rightarrow> upd_mshge m (\<lambda>e. e\<lparr>mh_connections_active := mh_connections_active e - 1\<rparr>) w);
     let mybe = mybe\<lparr>be_mshge := None\<rparr>;
     (rc, mybe) \<leftarrow> backend_reset_server_myds mybe;
     let fc = (if force_close = 0 \<and> rc = 1 then 1 else force_close);
     (mybe, w) \<leftarrow> backend_reset_server_mycpe sy fc mybe w;
     Some (mybe\<lparr>be_server_bytes_at_cmd := \<lparr>bs_recv = 0, bs_sent = 0\<rparr>, be_fd := 0\<rparr>, w)
   }"

definition mysql_backend_new :: mysql_backend where
  "mysql_backend_new = \<lparr>be_fd = 0, be_mshge = None, be_last_mysql_connpool = None, be_server_myds = None,
     be_server_mycpe = None, be_server_bytes_at_cmd = \<lparr>bs_recv = 0, bs_sent = 0\<rparr>\<rparr>"

subsection \<open>Talking to the client\<close>

text \<open>What the stream functions see of the session and of the hostgroup entry behind the stream.\<close>

definition ds_env_of :: "bool \<Rightarrow> mshge \<Rightarrow> int \<Rightarrow> 'w world_scheme \<Rightarrow> ds_env" where
  "ds_env_of net_failure e fd w =
     \<lparr>en_net_failure = net_failure, en_server_bytes = mh_server_bytes e, en_connections_created = mh_connections_created e,
      en_connections_active = mh_connections_active e, en_wire = wd_wire w fd\<rparr>"

definition env_mshge :: "ds_env \<Rightarrow> mshge \<Rightarrow> mshge" where
  "env_mshge env e = e\<lparr>mh_server_bytes := en_server_bytes env, mh_connections_created := en_connections_created env,
     mh_connections_active := en_connections_active env\<rparr>"

definition no_mshge :: mshge where
  "no_mshge = \<lparr>mh_MSptr = 0, mh_connections_created = 0, mh_connections_active = 0, mh_server_bytes = \<lparr>bs_recv = 0, bs_sent = 0\<rparr>\<rparr>"

definition accepted :: "sys \<Rightarrow> data_stream \<Rightarrow> 'w world_scheme \<Rightarrow> nat option" where
  "accepted sy myds w = map_option (min (queue_data (ud_queue (ds_output myds)))) (sy_send sy (wd_tick w))"

definition client_write_to_net :: "sys \<Rightarrow> 'a mysql_session_scheme \<Rightarrow> 'w world_scheme \<Rightarrow> ('a mysql_session_scheme \<times> 'w world_scheme) option" where
  "client_write_to_net sy sess w = do {
     let fd = ds_fd (ss_client_myds sess);
     (_, myds, env) \<leftarrow> write_to_net (accepted sy (ss_client_myds sess) w) (ss_client_myds sess) (ds_env_of (ss_net_failure sess) no_mshge fd w);
     Some (sess\<lparr>ss_client_myds := myds, ss_net_failure := en_net_failure env\<rparr>, (tick w)\<lparr>wd_wire := (wd_wire w)(fd := en_wire env)\<rparr>)
   }"

partial_function (option) write_all :: "sys \<Rightarrow> 'a mysql_session_scheme \<Rightarrow> 'w world_scheme \<Rightarrow> ('a mysql_session_scheme \<times> 'w world_scheme) option" where
  "write_all sy sess w =
     (if queue_data (ud_queue (ds_output (ss_client_myds sess))) \<noteq> 0 \<and> ds_active (ss_client_myds sess)
      then do { (sess, w) \<leftarrow> client_write_to_net sy sess w; write_all sy sess w }
      else Some (sess, w))"

definition write_one_pkt_to_net :: "sys \<Rightarrow> pkt \<Rightarrow> 'a mysql_session_scheme \<Rightarrow> 'w world_scheme \<Rightarrow> ('a mysql_session_scheme \<times> 'w world_scheme) option" where
  "write_one_pkt_to_net sy p sess w = do {
     (_, myds) \<leftarrow> array2buffer (out_pkts [p] (ss_client_myds sess));
     write_all sy (sess\<lparr>ss_client_myds := myds\<rparr>) w
   }"

definition access_denied :: cstr where
  "access_denied = str ''#28000Access denied for user''"

definition authenticate_mysql_client_send_ERR :: "sys \<Rightarrow> nat \<Rightarrow> cstr \<Rightarrow> 'a mysql_session_scheme \<Rightarrow> 'w world_scheme \<Rightarrow> ('a mysql_session_scheme \<times> 'w world_scheme) option" where
  "authenticate_mysql_client_send_ERR sy errcode errstr sess w = do {
     hs \<leftarrow> create_err_packet (sy_junk sy (wd_tick w)) 2 errcode errstr;
     write_one_pkt_to_net sy hs sess (tick w)
   }"

subsection \<open>Getting a backend\<close>

text \<open>The server: an entry of the hostgroup chosen at random, unless the backend still has one.\<close>

definition choose_server :: "sys \<Rightarrow> int \<Rightarrow> mysql_backend \<Rightarrow> 'w world_scheme \<Rightarrow> (mysql_backend \<times> 'w world_scheme) option" where
  "choose_server sy hostgroup_id mybe w =
     (case be_mshge mybe of
        Some _ \<Rightarrow> Some (mybe, w)
      | None \<Rightarrow> do {
          m \<leftarrow> mysql_server_random_entry_from_hostgroup (mysql_hostgroups w) (sy_rand sy (wd_tick w)) hostgroup_id (cf_glomysrvs w);
          Some (mybe\<lparr>be_mshge := m\<rparr>, tick w)
        })"

definition session_key :: "'a auth_sess_scheme \<Rightarrow> mysql_server \<Rightarrow> conn_key" where
  "session_key sess ms = (Some (sr_address ms), as_username sess, as_password sess, as_schema_cur sess, sr_port ms)"

text \<open>The connection, unless the backend still has one.\<close>

definition choose_connection :: "sys \<Rightarrow> 'a auth_sess_scheme \<Rightarrow> mysql_backend \<Rightarrow> 'w world_scheme \<Rightarrow> (mysql_backend \<times> 'w world_scheme) option" where
  "choose_connection sy sess mybe w =
     (case be_server_mycpe mybe of
        Some _ \<Rightarrow> Some (mybe, w)
      | None \<Rightarrow> do {
          ms \<leftarrow> backend_server mybe w;
          (mycpe, mcp_ref, closed, lp, gp) \<leftarrow>
            mysql_connpool_get_connection (sy_time sy (wd_tick w)) (nat (glovar ''mysql_wait_timeout'' w)) (sy_connect sy (wd_tick w))
              (be_last_mysql_connpool mybe) (session_key sess ms) (wd_connpool w) (gloconnpool w);
          Some (mybe\<lparr>be_server_mycpe := mycpe, be_last_mysql_connpool := mcp_ref\<rparr>,
                (tick w)\<lparr>wd_connpool := lp, cf_connpools := cs_connpools gp, wd_closed := wd_closed w @ closed\<rparr>)
        })"

text \<open>The stream over the connection: a new one, or the one the backend still has.\<close>

definition attach_stream :: "sys \<Rightarrow> nat \<Rightarrow> cp_entry \<Rightarrow> mysql_backend \<Rightarrow> 'w world_scheme \<Rightarrow> (mysql_backend \<times> 'w world_scheme) option" where
  "attach_stream sy m mc mybe w = do {
     let mybe = mybe\<lparr>be_fd := ce_fd mc\<rparr>;
     (myds, w) \<leftarrow> (case be_server_myds mybe of
         None \<Rightarrow> do {
           e \<leftarrow> gs_mshge (cf_glomysrvs w) m;
           let (myds, env) = mysql_data_stream_new (sy_junk sy (wd_tick w)) (nat (glovar ''net_buffer_size'' w)) 0 True (ds_env_of False e 0 w);
           w \<leftarrow> upd_mshge m (env_mshge env) w;
           Some (myds, tick w)
         }
       | Some myds \<Rightarrow> Some (myds\<lparr>ds_mybe := True\<rparr>, w));
     Some (mybe\<lparr>be_server_myds := Some (mysql_data_stream_setfd myds (be_fd mybe))\<rparr>, w)
   }"

text \<open>The loop over \<^verbatim>\<open>goto\<close>; \<open>retries\<close> is the value of the variable at the label.\<close>

fun create_backend_loop :: "sys \<Rightarrow> int \<Rightarrow> 'a auth_sess_scheme \<Rightarrow> nat \<Rightarrow> mysql_backend \<Rightarrow> 'w world_scheme \<Rightarrow> (int \<times> mysql_backend \<times> 'w world_scheme) option" where
  "create_backend_loop sy hostgroup_id sess 0 mybe w = None"
| "create_backend_loop sy hostgroup_id sess (Suc retries) mybe w = do {
     (mybe, w) \<leftarrow> choose_server sy hostgroup_id mybe w;
     case be_mshge mybe of
       None \<Rightarrow> Some (0, mybe, w)
     | Some m \<Rightarrow> do {
         (mybe, w) \<leftarrow> choose_connection sy sess mybe w;
         case be_server_mycpe mybe of
           None \<Rightarrow> if retries \<noteq> 0 then create_backend_loop sy hostgroup_id sess retries (mybe\<lparr>be_mshge := None\<rparr>) w
                   else Some (-1, mybe, w)
         | Some mc \<Rightarrow> do { (mybe, w) \<leftarrow> attach_stream sy m mc mybe w; Some (1, mybe, w) }
       }
   }"

definition mysql_session_create_backend_for_hostgroup ::
    "sys \<Rightarrow> int \<Rightarrow> 'a mysql_session_scheme \<Rightarrow> 'w world_scheme \<Rightarrow> (int \<times> 'a mysql_session_scheme \<times> 'w world_scheme) option" where
  "mysql_session_create_backend_for_hostgroup sy hostgroup_id sess w =
     (if \<not> hostgroup_id < int (mysql_hostgroups w) \<or> hostgroup_id < 0 then None
      else do {
        mybe \<leftarrow> backend sess (nat hostgroup_id);
        (r, mybe, w) \<leftarrow> create_backend_loop sy hostgroup_id sess 10 mybe w;
        let sess = set_backend (nat hostgroup_id) mybe sess;
        if r = -1 then do { (sess, w) \<leftarrow> authenticate_mysql_client_send_ERR sy 1045 access_denied sess w; Some (-1, sess, w) }
        else Some (r, sess, w)
      })"

text \<open>The rest of this function follows an unconditional \<^verbatim>\<open>return FALSE\<close>.\<close>

definition reconnect_server_on_shut_fd :: "'a mysql_session_scheme \<Rightarrow> bool" where
  "reconnect_server_on_shut_fd sess = (case server_myds sess of None \<Rightarrow> True | Some myds \<Rightarrow> ds_active myds)"

subsection \<open>Connections through a remembered pool\<close>

text \<open>
  The loop keeps \<^verbatim>\<open>last_mysql_connpool\<close> when it goes on to another server. What saves it is that the pool
  it remembers was emptied by the attempt that failed.
\<close>

definition ref_free :: "nat option \<Rightarrow> conn_pools \<Rightarrow> bool" where
  "ref_free mcp_ref cp \<longleftrightarrow> (case mcp_ref of None \<Rightarrow> True | Some i \<Rightarrow> i < length (cs_connpools cp) \<and> mp_free_conns (cs_connpools cp ! i) = [])"

lemma take_conn_none: "take_conn t w conns = (cls, None, rest) \<Longrightarrow> rest = []"
proof (induction t w conns arbitrary: cls rest rule: take_conn.induct)
  case (1 t w conns)
  show ?case
  proof (cases "conns = [] \<or> \<not> ce_expire (conns ! 0) \<le> t")
    case True
    then show ?thesis using "1.prems" by (auto simp: take_conn.simps [of t w conns] Let_def split: if_splits)
  next
    case False
    obtain cl fo re where r: "take_conn t w (remove_index_fast 0 conns) = (cl, fo, re)" by (cases "take_conn t w (remove_index_fast 0 conns)")
    then have "fo = None" "re = rest" using "1.prems" False by (simp_all add: take_conn.simps [of t w conns] Let_def)
    then show ?thesis using "1.IH" [of "conns ! 0" "remove_index_fast 0 conns"] False r by simp
  qed
qed

lemma pool_take_none:
  assumes "pool_take t w i cp = Some (cls, None, cp')"
  shows "i < length (cs_connpools cp') \<and> mp_free_conns (cs_connpools cp' ! i) = []"
  using assms take_conn_none by (auto simp: pool_take_def Let_def split: if_splits prod.splits)

text \<open>What remains of a failed attempt.\<close>

lemma get_connection_none:
  assumes "mysql_connpool_get_connection t w connect mcp_ref key lp gp = Some (None, mcp_ref', cls, lp', gp')" and "ref_free mcp_ref lp"
  shows "ref_free mcp_ref' lp'"
proof (cases "cs_enabled lp")
  case True
  then obtain i lp1 cl where "pool_take t w i lp1 = Some (cl, None, lp')" "mcp_ref' = Some i"
    using assms(1) by (auto simp: mysql_connpool_get_connection_def split: Option.bind_splits option.splits)
  then show ?thesis using pool_take_none by (simp add: ref_free_def)
next
  case False
  then have "mcp_ref' = mcp_ref" "lp' = lp"
    using assms(1) by (auto simp: mysql_connpool_get_connection_def split: Option.bind_splits option.splits)
  then show ?thesis using assms(2) by simp
qed

lemma pool_take_empty:
  assumes "i < length (cs_connpools cp)" and "mp_free_conns (cs_connpools cp ! i) = []"
  shows "pool_take t w i cp = Some ([], None, cp)"
proof -
  have "(cs_connpools cp)[i := (cs_connpools cp ! i)\<lparr>mp_free_conns := []\<rparr>] = cs_connpools cp"
    using assms by (metis list_update_id mysql_connpool.surjective mysql_connpool.update_convs(6))
  then show ?thesis using assms by (simp add: pool_take_def take_conn.simps)
qed

text \<open>With an empty remembered pool the request is served as with local pools switched off.\<close>

lemma get_connection_stale:
  assumes "cs_enabled lp" and "i < length (cs_connpools lp)" and "mp_free_conns (cs_connpools lp ! i) = []"
    and "mysql_connpool_get_connection t w connect None key (lp\<lparr>cs_enabled := False\<rparr>) gp = Some (c, r, cls, lp', gp')"
  shows "mysql_connpool_get_connection t w connect (Some i) key lp gp = Some (c, Some i, cls, lp, gp')"
  using assms pool_take_empty [OF assms(2,3)]
  by (auto simp: mysql_connpool_get_connection_def split: Option.bind_splits option.splits)

lemma get_connection_usable:
  assumes lok: "pools_ok lp" and gok: "pools_ok gp" and key: "key_defined key" and r: "ref_free mcp_ref lp"
  shows "\<exists>c mcp_ref' cls lp' gp'. mysql_connpool_get_connection t w connect mcp_ref key lp gp = Some (c, mcp_ref', cls, lp', gp')
    \<and> pools_ok lp' \<and> pools_ok gp' \<and> (\<forall>mc. c = Some mc \<longrightarrow> conn_key_of mc = key) \<and> (c = None \<longrightarrow> connect = None)"
proof (cases mcp_ref)
  case None
  then show ?thesis using get_connection_ok [OF lok gok key, of mcp_ref t w connect] by (auto simp: ref_ok_def)
next
  case (Some i)
  then have i: "mcp_ref = Some i" "i < length (cs_connpools lp)" "mp_free_conns (cs_connpools lp ! i) = []"
    using r by (auto simp: ref_free_def)
  have off: "pools_ok (lp\<lparr>cs_enabled := False\<rparr>)" using lok by (simp add: pools_ok_def)
  obtain c ref' cls lp' gp' where g: "mysql_connpool_get_connection t w connect None key (lp\<lparr>cs_enabled := False\<rparr>) gp = Some (c, ref', cls, lp', gp')"
      "pools_ok gp'" "\<forall>mc. c = Some mc \<longrightarrow> conn_key_of mc = key \<and> ce_expire mc = t + w" "c = None \<longrightarrow> connect = None"
    using get_connection_ok [OF off gok key, of None t w connect] by (auto simp: ref_ok_def)
  show ?thesis
  proof (cases "cs_enabled lp")
    case True
    then show ?thesis using get_connection_stale [OF True i(2,3) g(1)] i(1) lok g(2-4) by auto
  next
    case False
    then have "lp\<lparr>cs_enabled := False\<rparr> = lp" by simp
    then have "mysql_connpool_get_connection t w connect mcp_ref key lp gp = Some (c, mcp_ref, cls, lp, gp')"
      using g(1) False by (auto simp: mysql_connpool_get_connection_def split: Option.bind_splits option.splits)
    then show ?thesis using lok g(2-4) by auto
  qed
qed

subsection \<open>Lemmas\<close>

definition world_ok :: "nat \<Rightarrow> 'w world_scheme \<Rightarrow> bool" where
  "world_ok n w \<longleftrightarrow> mysql_hostgroups w = n \<and> srv_ok n (cf_glomysrvs w) \<and> pools_ok (wd_connpool w) \<and> pools_ok (gloconnpool w)"

definition hostgroup :: "int \<Rightarrow> 'w config_scheme \<Rightarrow> nat list" where
  "hostgroup h w = gs_hostgroups (cf_glomysrvs w) ! nat h"

definition credentials :: "'a auth_sess_scheme \<Rightarrow> bool" where
  "credentials sess \<longleftrightarrow> as_username sess \<noteq> None \<and> as_password sess \<noteq> None \<and> as_schema_cur sess \<noteq> None"

lemma world_okD:
  assumes "world_ok n w"
  shows "mysql_hostgroups w = n" "srv_ok n (cf_glomysrvs w)" "pools_ok (wd_connpool w)" "pools_ok (gloconnpool w)"
  using assms by (simp_all add: world_ok_def)

lemma world_tick [simp]:
  "world_ok n (w\<lparr>wd_tick := t\<rparr>) = world_ok n w" "backend_server mybe (w\<lparr>wd_tick := t\<rparr>) = backend_server mybe w"
  "hostgroup h (w\<lparr>wd_tick := t\<rparr>) = hostgroup h w"
  by (simp_all add: world_ok_def mysql_hostgroups_def glovar_def gloconnpool_def backend_server_def hostgroup_def)

lemma backend_server_mshge: "be_mshge mybe = be_mshge mybe' \<Longrightarrow> backend_server mybe w = backend_server mybe' w"
  by (simp add: backend_server_def)

lemma session_key_defined: "credentials sess \<Longrightarrow> key_defined (session_key sess ms)"
  by (simp add: credentials_def session_key_def key_defined_def)

lemma choose_server_ok:
  assumes w: "world_ok n w" and h: "0 \<le> h" "h < int n" and none: "be_mshge mybe = None"
  shows "\<exists>m. choose_server sy h mybe w = Some (mybe\<lparr>be_mshge := m\<rparr>, tick w) \<and> (m = None \<longleftrightarrow> hostgroup h w = [])
    \<and> (\<forall>x. m = Some x \<longrightarrow> x \<in> set (hostgroup h w) \<and> (\<exists>ms. backend_server (mybe\<lparr>be_mshge := m\<rparr>) w = Some ms))"
proof -
  obtain r where r: "mysql_server_random_entry_from_hostgroup n (sy_rand sy (wd_tick w)) h (cf_glomysrvs w) = Some r"
      "r = None \<longleftrightarrow> hostgroup h w = []"
      "\<And>m. r = Some m \<Longrightarrow> m \<in> set (hostgroup h w)
          \<and> (\<exists>e ms. gs_mshge (cf_glomysrvs w) m = Some e \<and> mh_MSptr e \<in> set (gs_servers (cf_glomysrvs w)) \<and> gs_heap (cf_glomysrvs w) (mh_MSptr e) = Some ms)"
    by (rule random_entry_ok [OF world_okD(2) [OF w] h, of "sy_rand sy (wd_tick w)", folded hostgroup_def]) (rule that, assumption, assumption, blast)
  have "choose_server sy h mybe w = Some (mybe\<lparr>be_mshge := r\<rparr>, tick w)"
    using r(1) none world_okD(1) [OF w] by (simp add: choose_server_def)
  moreover have "x \<in> set (hostgroup h w) \<and> (\<exists>ms. backend_server (mybe\<lparr>be_mshge := r\<rparr>) w = Some ms)" if "r = Some x" for x
    using r(3) [OF that] that by (auto simp: backend_server_def)
  ultimately show ?thesis using r(2) by blast
qed

lemma choose_connection_ok:
  assumes w: "world_ok n w" and ms: "backend_server mybe w = Some ms" and none: "be_server_mycpe mybe = None"
    and cr: "credentials sess" and ref: "ref_free (be_last_mysql_connpool mybe) (wd_connpool w)"
  shows "\<exists>c r w'. choose_connection sy sess mybe w = Some (mybe\<lparr>be_server_mycpe := c, be_last_mysql_connpool := r\<rparr>, w')
    \<and> world_ok n w' \<and> cf_glomysrvs w' = cf_glomysrvs w \<and> wd_tick w' = wd_tick w + 1
    \<and> (\<forall>mc. c = Some mc \<longrightarrow> conn_key_of mc = session_key sess ms)
    \<and> (c = None \<longrightarrow> sy_connect sy (wd_tick w) = None \<and> ref_free r (wd_connpool w'))"
proof -
  let ?t = "sy_time sy (wd_tick w)" and ?to = "nat (glovar ''mysql_wait_timeout'' w)" and ?cn = "sy_connect sy (wd_tick w)"
  obtain c r cls lp gp where g: "mysql_connpool_get_connection ?t ?to ?cn (be_last_mysql_connpool mybe) (session_key sess ms) (wd_connpool w) (gloconnpool w)
        = Some (c, r, cls, lp, gp)"
      "pools_ok lp" "pools_ok gp" "\<forall>mc. c = Some mc \<longrightarrow> conn_key_of mc = session_key sess ms" "c = None \<longrightarrow> ?cn = None"
    using get_connection_usable [OF world_okD(3,4) [OF w] session_key_defined [OF cr, of ms] ref, of ?t ?to ?cn] by (elim exE conjE) (rule that)
  define w' where "w' = (tick w)\<lparr>wd_connpool := lp, cf_connpools := cs_connpools gp, wd_closed := wd_closed w @ cls\<rparr>"
  have "choose_connection sy sess mybe w = Some (mybe\<lparr>be_server_mycpe := c, be_last_mysql_connpool := r\<rparr>, w')"
    using none ms g(1) by (simp add: choose_connection_def w'_def)
  moreover have "world_ok n w'"
    using world_okD [OF w] g(2,3) by (simp add: world_ok_def w'_def mysql_hostgroups_def glovar_def gloconnpool_def pools_ok_def)
  moreover have "ref_free r (wd_connpool w')" if "c = None" using get_connection_none [of ?t ?to ?cn] g(1) ref that by (simp add: w'_def)
  ultimately show ?thesis using g(4,5) by (intro exI [of _ c] exI [of _ r] exI [of _ w']) (simp add: w'_def)
qed

lemma upd_mshge_ok:
  assumes w: "world_ok n w" and e: "gs_mshge (cf_glomysrvs w) m = Some e" and f: "mh_MSptr (f e) = mh_MSptr e"
  shows "\<exists>w'. upd_mshge m f w = Some w' \<and> world_ok n w' \<and> (\<forall>mybe. backend_server mybe w' = backend_server mybe w)
    \<and> (\<forall>h. hostgroup h w' = hostgroup h w) \<and> wd_tick w' = wd_tick w"
proof -
  define w' where "w' = w\<lparr>cf_glomysrvs := (cf_glomysrvs w)\<lparr>gs_mshge := (gs_mshge (cf_glomysrvs w))(m \<mapsto> f e)\<rparr>\<rparr>"
  have "upd_mshge m f w = Some w'" using e by (simp add: upd_mshge_def w'_def)
  moreover have "srv_ok n (cf_glomysrvs w')"
    using world_okD(2) [OF w] e f unfolding srv_ok_def w'_def by (auto split: if_splits)
  then have "world_ok n w'"
    using world_okD [OF w] by (simp add: world_ok_def w'_def mysql_hostgroups_def glovar_def gloconnpool_def)
  moreover have "backend_server mybe w' = backend_server mybe w" for mybe
    using e f by (cases "be_mshge mybe") (auto simp: backend_server_def w'_def)
  ultimately show ?thesis by (intro exI [of _ w']) (simp add: w'_def hostgroup_def)
qed

lemma attach_stream_ok:
  assumes w: "world_ok n w" and m: "be_mshge mybe = Some m" and ms: "backend_server mybe w = Some ms"
  shows "\<exists>myds w'. attach_stream sy m mc mybe w = Some (mybe\<lparr>be_fd := ce_fd mc, be_server_myds := Some myds\<rparr>, w') \<and> ds_fd myds = ce_fd mc
    \<and> world_ok n w' \<and> (\<forall>b. backend_server b w' = backend_server b w) \<and> (\<forall>h. hostgroup h w' = hostgroup h w)"
proof (cases "be_server_myds mybe")
  case (Some d)
  then show ?thesis using w
    by (intro exI [of _ "d\<lparr>ds_mybe := True, ds_fd := ce_fd mc\<rparr>"] exI [of _ w]) (simp add: attach_stream_def mysql_data_stream_setfd_def)
next
  case None
  obtain e where e: "gs_mshge (cf_glomysrvs w) m = Some e" using m ms by (auto simp: backend_server_def split: Option.bind_splits)
  obtain myds env where d: "mysql_data_stream_new (sy_junk sy (wd_tick w)) (nat (glovar ''net_buffer_size'' w)) 0 True (ds_env_of False e 0 w) = (myds, env)"
    by fastforce
  obtain w' where w': "upd_mshge m (env_mshge env) w = Some w'" "world_ok n w'" "\<forall>b. backend_server b w' = backend_server b w"
      "\<forall>h. hostgroup h w' = hostgroup h w"
    using upd_mshge_ok [OF w e, of "env_mshge env"] by (auto simp: env_mshge_def)
  then show ?thesis using None e d
    by (intro exI [of _ "myds\<lparr>ds_fd := ce_fd mc\<rparr>"] exI [of _ "tick w'"]) (simp add: attach_stream_def mysql_data_stream_setfd_def)
qed

text \<open>A backend that is ready: a server of the hostgroup, a connection to it for this session, and the stream over it.\<close>

definition attached :: "int \<Rightarrow> 'a auth_sess_scheme \<Rightarrow> mysql_backend \<Rightarrow> 'w world_scheme \<Rightarrow> bool" where
  "attached h sess mybe w \<longleftrightarrow> (\<exists>m ms mc myds. be_mshge mybe = Some m \<and> m \<in> set (hostgroup h w) \<and> backend_server mybe w = Some ms
     \<and> be_server_mycpe mybe = Some mc \<and> conn_key_of mc = session_key sess ms
     \<and> be_server_myds mybe = Some myds \<and> ds_fd myds = ce_fd mc \<and> be_fd mybe = ce_fd mc)"

lemma create_backend_loop_ok:
  assumes "world_ok n w" and h: "0 \<le> h" "h < int n" and cr: "credentials sess"
    and "be_mshge mybe = None" and "be_server_mycpe mybe = None" and "ref_free (be_last_mysql_connpool mybe) (wd_connpool w)" and "0 < retries"
  shows "\<exists>r mybe' w'. create_backend_loop sy h sess retries mybe w = Some (r, mybe', w') \<and> world_ok n w'
    \<and> (r = 1 \<and> attached h sess mybe' w'
       \<or> r = 0 \<and> hostgroup h w = [] \<and> be_mshge mybe' = None \<and> be_server_mycpe mybe' = None
       \<or> r = -1 \<and> be_mshge mybe' \<noteq> None \<and> be_server_mycpe mybe' = None \<and> (\<forall>i < retries. sy_connect sy (wd_tick w + 2 * i + 1) = None))"
  using assms(1,5-8)
proof (induction retries arbitrary: mybe w)
  case (Suc retries)
  obtain m where m: "choose_server sy h mybe w = Some (mybe\<lparr>be_mshge := m\<rparr>, tick w)" "m = None \<longleftrightarrow> hostgroup h w = []"
      "\<forall>x. m = Some x \<longrightarrow> x \<in> set (hostgroup h w) \<and> (\<exists>ms. backend_server (mybe\<lparr>be_mshge := m\<rparr>) w = Some ms)"
    using choose_server_ok [OF Suc.prems(1) h Suc.prems(2), of sy] by (elim exE conjE) (rule that)
  show ?case
  proof (cases m)
    case None
    then show ?thesis using m(1,2) Suc.prems(1,3) by simp
  next
    case (Some x)
    obtain ms where ms: "backend_server (mybe\<lparr>be_mshge := m\<rparr>) (tick w) = Some ms" using m(3) Some by auto
    have w1: "world_ok n (tick w)" "be_server_mycpe (mybe\<lparr>be_mshge := m\<rparr>) = None"
        "ref_free (be_last_mysql_connpool (mybe\<lparr>be_mshge := m\<rparr>)) (wd_connpool (tick w))"
      using Suc.prems(1,3,4) by simp_all
    obtain c r w2 where c: "choose_connection sy sess (mybe\<lparr>be_mshge := m\<rparr>) (tick w) = Some (mybe\<lparr>be_mshge := m\<rparr>\<lparr>be_server_mycpe := c, be_last_mysql_connpool := r\<rparr>, w2)"
        "world_ok n w2" "cf_glomysrvs w2 = cf_glomysrvs (tick w)" "wd_tick w2 = wd_tick (tick w) + 1"
        "\<forall>mc. c = Some mc \<longrightarrow> conn_key_of mc = session_key sess ms"
        "c = None \<longrightarrow> sy_connect sy (wd_tick (tick w)) = None \<and> ref_free r (wd_connpool w2)"
      using choose_connection_ok [OF w1(1) ms w1(2) cr w1(3), of sy] by (elim exE conjE) (rule that)
    let ?b = "mybe\<lparr>be_mshge := m, be_server_mycpe := c, be_last_mysql_connpool := r\<rparr>"
    have hg: "hostgroup h w2 = hostgroup h w" "backend_server ?b w2 = Some ms"
      using c(3) ms Some by (simp_all add: hostgroup_def backend_server_def)
    have bm: "be_mshge ?b = Some x" using Some by simp
    show ?thesis
    proof (cases c)
      case (Some mc)
      obtain myds w3 where a: "attach_stream sy x mc ?b w2 = Some (?b\<lparr>be_fd := ce_fd mc, be_server_myds := Some myds\<rparr>, w3)" "ds_fd myds = ce_fd mc"
          "world_ok n w3" "\<forall>b. backend_server b w3 = backend_server b w2" "\<forall>h. hostgroup h w3 = hostgroup h w2"
        using attach_stream_ok [OF c(2) bm hg(2), of sy mc] by (elim exE conjE) (rule that)
      let ?b' = "?b\<lparr>be_fd := ce_fd mc, be_server_myds := Some myds\<rparr>"
      have "backend_server ?b' w3 = Some ms" using a(4) hg(2) backend_server_mshge [of ?b' ?b w3] by simp
      moreover have "x \<in> set (hostgroup h w3)" using a(5) hg(1) m(3) \<open>m = Some x\<close> by simp
      ultimately have "attached h sess ?b' w3"
        unfolding attached_def using a(2) \<open>m = Some x\<close> Some c(5)
        by (intro exI [of _ x] exI [of _ ms] exI [of _ mc] exI [of _ myds]) simp
      then show ?thesis using m(1) c(1) a(1,3) \<open>m = Some x\<close> Some by simp
    next
      case None
      then have f: "sy_connect sy (wd_tick w + 1) = None" "ref_free r (wd_connpool w2)" using c(6) by simp_all
      show ?thesis
      proof (cases "retries = 0")
        case True
        then show ?thesis using m(1) c(1,2) None f(1) \<open>m = Some x\<close> by simp
      next
        case False
        have eq: "create_backend_loop sy h sess (Suc retries) mybe w = create_backend_loop sy h sess retries (?b\<lparr>be_mshge := None\<rparr>) w2"
          using m(1) c(1) None False \<open>m = Some x\<close> by simp
        have "\<exists>r' mybe' w'. create_backend_loop sy h sess retries (?b\<lparr>be_mshge := None\<rparr>) w2 = Some (r', mybe', w') \<and> world_ok n w'
          \<and> (r' = 1 \<and> attached h sess mybe' w'
             \<or> r' = 0 \<and> hostgroup h w2 = [] \<and> be_mshge mybe' = None \<and> be_server_mycpe mybe' = None
             \<or> r' = -1 \<and> be_mshge mybe' \<noteq> None \<and> be_server_mycpe mybe' = None \<and> (\<forall>i < retries. sy_connect sy (wd_tick w2 + 2 * i + 1) = None))"
          using c(2) None f(2) False by (intro Suc.IH) simp_all
        moreover have "(\<forall>i < retries. sy_connect sy (wd_tick w2 + 2 * i + 1) = None) \<longrightarrow> (\<forall>i < Suc retries. sy_connect sy (wd_tick w + 2 * i + 1) = None)"
        proof (intro impI allI)
          fix i assume all: "\<forall>i < retries. sy_connect sy (wd_tick w2 + 2 * i + 1) = None" and i: "i < Suc retries"
          show "sy_connect sy (wd_tick w + 2 * i + 1) = None"
          proof (cases i)
            case (Suc j)
            then show ?thesis using all i c(4) by (auto simp: algebra_simps dest: spec [of _ j])
          qed (use f(1) in simp)
        qed
        ultimately show ?thesis unfolding eq hg(1) by blast
      qed
    qed
  qed
qed simp

subsection \<open>Properties\<close>

text \<open>
  C10. \<^verbatim>\<open>mysql_session_create_backend_for_hostgroup\<close> on a backend that holds nothing yet. With an empty hostgroup it
  returns 0. Otherwise it returns 1 with a server of this hostgroup, a connection to this server opened
  with the credentials of the session, and a stream over this connection; or it returns -1 after
  telling the client, and then all of the ten attempts to connect had failed. The servers, the hostgroups
  and both connection pools stay consistent.
\<close>

theorem create_backend:
  assumes "world_ok n w" and "0 \<le> h" and "h < int n" and "credentials sess"
    and "backend sess (nat h) = Some mybe" and "be_mshge mybe = None" and "be_server_mycpe mybe = None"
    and "ref_free (be_last_mysql_connpool mybe) (wd_connpool w)"
  shows "\<exists>r mybe' w'. mysql_session_create_backend_for_hostgroup sy h sess w =
      (if r = -1
       then do { (sess', w'') \<leftarrow> authenticate_mysql_client_send_ERR sy 1045 access_denied (set_backend (nat h) mybe' sess) w'; Some (-1, sess', w'') }
       else Some (r, set_backend (nat h) mybe' sess, w'))
    \<and> world_ok n w'
    \<and> (r = 1 \<and> hostgroup h w \<noteq> [] \<and> attached h sess mybe' w'
       \<or> r = 0 \<and> hostgroup h w = []
       \<or> r = -1 \<and> hostgroup h w \<noteq> [] \<and> (\<forall>i < 10. sy_connect sy (wd_tick w + 2 * i + 1) = None))"
proof -
  have ten: "0 < (10 :: nat)" by simp
  obtain r mybe' w' where l: "create_backend_loop sy h sess 10 mybe w = Some (r, mybe', w')" "world_ok n w'"
      "r = 1 \<and> attached h sess mybe' w' \<or> r = 0 \<and> hostgroup h w = [] \<and> be_mshge mybe' = None \<and> be_server_mycpe mybe' = None
       \<or> r = -1 \<and> be_mshge mybe' \<noteq> None \<and> be_server_mycpe mybe' = None \<and> (\<forall>i < 10. sy_connect sy (wd_tick w + 2 * i + 1) = None)"
    using create_backend_loop_ok [OF assms(1-4,6-8) ten, of sy] by (elim exE conjE) (rule that)
  have "create_backend_loop sy h sess 10 mybe w = Some (r, mybe', w') \<Longrightarrow> hostgroup h w = [] \<Longrightarrow> r = 0"
    using choose_server_ok [OF assms(1-3,6), of sy] by (auto simp: eval_nat_numeral)
  then have "hostgroup h w = [] \<Longrightarrow> r = 0" using l(1) by simp
  moreover have "mysql_session_create_backend_for_hostgroup sy h sess w =
      (if r = -1
       then do { (sess', w'') \<leftarrow> authenticate_mysql_client_send_ERR sy 1045 access_denied (set_backend (nat h) mybe' sess) w'; Some (-1, sess', w'') }
       else Some (r, set_backend (nat h) mybe' sess, w'))"
    using assms(2,3,5) world_okD(1) [OF assms(1)] l(1) by (simp add: mysql_session_create_backend_for_hostgroup_def)
  ultimately show ?thesis using l(2,3) by (intro exI [of _ r] exI [of _ mybe'] exI [of _ w']) auto
qed

lemma sample_world_ok: "world_ok 2 sample_world" "hostgroup 1 sample_world = [6]" "wd_connpool sample_world = local_mysql_connpool_init True"
  by (auto simp: world_ok_def sample_world_def mysql_hostgroups_def glovar_def srv_ok_def sample_srvs_def init_glomysrvs_def
      pools_ok_def gloconnpool_def local_mysql_connpool_init_def hostgroup_def split: if_splits)

lemma sample_session_simps [simp]:
  "as_username sample_session = Some [97]" "as_password sample_session = Some []" "as_schema_cur sample_session = Some [98]"
  "ss_mybes sample_session = []" "ss_client_myds sample_session = sample_stream" "rs_query_info sample_session = sample_info"
  by (simp_all add: sample_session_def rule_sess.defs mysql_session.defs sample_sess_def)

theorem create_backend_witness:
  "\<exists>mybe w'. mysql_session_create_backend_for_hostgroup sample_sys 1 (sample_session\<lparr>ss_mybes := [mysql_backend_new, mysql_backend_new]\<rparr>) sample_world
      = Some (1, sample_session\<lparr>ss_mybes := [mysql_backend_new, mybe]\<rparr>, w')
    \<and> attached 1 sample_session mybe w'"
proof -
  let ?s = "sample_session\<lparr>ss_mybes := [mysql_backend_new, mysql_backend_new]\<rparr>"
  have "credentials ?s" "backend ?s (nat 1) = Some mysql_backend_new" by (simp_all add: credentials_def backend_def)
  moreover have "\<not> (\<forall>i < 10. sy_connect sample_sys (wd_tick sample_world + 2 * i + 1) = None)"
    by (simp add: sample_sys_def) (rule exI [of _ 0], simp)
  ultimately obtain mybe w' where "mysql_session_create_backend_for_hostgroup sample_sys 1 ?s sample_world = Some (1, set_backend (nat 1) mybe ?s, w')"
      "attached 1 ?s mybe w'"
    using create_backend [OF sample_world_ok(1), of 1 ?s mysql_backend_new sample_sys] sample_world_ok(2)
    by (auto simp: mysql_backend_new_def ref_free_def)
  moreover have "attached 1 ?s mybe w' = attached 1 sample_session mybe w'" by (simp add: attached_def session_key_def)
  ultimately show ?thesis by (auto simp: set_backend_def)
qed

text \<open>
  C30. Giving a backend back (\<^verbatim>\<open>backend_reset\<close>): it holds nothing afterwards, so that it can be used again. No
  connection is lost or doubled. The connection goes to the pool of its own credentials if it is reusable,
  has not expired, nobody asked to close it and its stream was still active; otherwise it is closed. The
  count of active connections of the server goes down by one.
\<close>

theorem reset_gives_back:
  assumes "pools_ok (wd_connpool w)" and "be_server_mycpe mybe = Some mc" and "key_defined (conn_key_of mc)"
    and "be_server_myds mybe = Some myds" and "mysql_data_stream_delete myds = Some frees"
    and "be_mshge mybe = Some m" and "gs_mshge (cf_glomysrvs w) m = Some e"
  shows "\<exists>w' closed. backend_reset sy fc mybe w = Some (mysql_backend_new, w') \<and> pools_ok (wd_connpool w')
    \<and> wd_closed w' = wd_closed w @ closed \<and> conn_ids (wd_connpool w) + {#ce_id mc#} = mset (map ce_id closed) + conn_ids (wd_connpool w')
    \<and> (closed = [] \<longleftrightarrow> cs_enabled (wd_connpool w) \<and> ce_reusable mc \<and> fc \<noteq> 1 \<and> (fc = 0 \<longrightarrow> ds_active myds) \<and> sy_time sy (wd_tick w) < ce_expire mc)
    \<and> gs_mshge (cf_glomysrvs w') = (gs_mshge (cf_glomysrvs w))(m \<mapsto> e\<lparr>mh_connections_active := mh_connections_active e - 1\<rparr>)"
proof -
  define f where "f \<longleftrightarrow> fc = 1 \<or> fc = 0 \<and> \<not> ds_active myds"
  define w1 where "w1 = w\<lparr>cf_glomysrvs := (cf_glomysrvs w)\<lparr>gs_mshge := (gs_mshge (cf_glomysrvs w))(m \<mapsto> e\<lparr>mh_connections_active := mh_connections_active e - 1\<rparr>)\<rparr>\<rparr>"
  obtain closed cp where d: "mysql_connpool_detach_connection (sy_time sy (wd_tick w)) None mc f (wd_connpool w) = Some (closed, cp)" "pools_ok cp"
      "conn_ids (wd_connpool w) + {#ce_id mc#} = mset (map ce_id closed) + conn_ids cp"
      "closed = [] \<longleftrightarrow> cs_enabled (wd_connpool w) \<and> ce_reusable mc \<and> \<not> f \<and> sy_time sy (wd_tick w) < ce_expire mc"
    using detach_ok [OF assms(1,3), of None "sy_time sy (wd_tick w)" f] unfolding ref_ok_def by (auto intro: that)
  have "upd_mshge m (\<lambda>e. e\<lparr>mh_connections_active := mh_connections_active e - 1\<rparr>) w = Some w1"
    using assms(7) by (simp add: upd_mshge_def w1_def)
  then have "backend_reset sy fc mybe w = Some (mysql_backend_new, (tick w1)\<lparr>wd_connpool := cp, wd_closed := wd_closed w @ closed\<rparr>)"
    using assms(2,4,5,6) d(1) unfolding f_def
    by (cases mybe; cases "ds_active myds"; cases "fc = 0")
      (simp_all add: backend_reset_def backend_reset_server_myds_def backend_reset_server_mycpe_def mysql_backend_new_def w1_def)
  then show ?thesis using d(2-4) by (simp add: f_def w1_def)
qed

theorem reset_gives_back_witness:
  "\<exists>w'. backend_reset sample_sys 0 (mysql_backend_new\<lparr>be_mshge := Some 6, be_server_mycpe := Some sample_conn, be_server_myds := Some sample_stream\<rparr>) sample_world
      = Some (mysql_backend_new, w') \<and> wd_closed w' = [] \<and> conn_ids (wd_connpool w') = {#5#}"
proof -
  have "pools_ok (wd_connpool sample_world)" "wd_closed sample_world = []" "cs_enabled (wd_connpool sample_world)" "conn_ids (wd_connpool sample_world) = {#}"
    by (simp_all add: sample_world_ok(3) pools_ok_def local_mysql_connpool_init_def conn_ids_def, simp add: sample_world_def)
  moreover obtain frees where "mysql_data_stream_delete sample_stream = Some frees"
    by (simp add: sample_stream_def mysql_data_stream_new_def mysql_data_stream_delete_def uni_ds_new_def free_mypkt_data_def)
  moreover obtain e where "gs_mshge (cf_glomysrvs sample_world) 6 = Some e" by (simp add: sample_world_def)
  moreover have "ds_active sample_stream" by (simp add: sample_stream_def mysql_data_stream_new_def)
  moreover have "ce_id sample_conn = 5" "ce_reusable sample_conn" "sy_time sample_sys t < ce_expire sample_conn" for t
    by (simp_all add: sample_conn_def sample_sys_def)
  ultimately show ?thesis
    using reset_gives_back [of sample_world "mysql_backend_new\<lparr>be_mshge := Some 6, be_server_mycpe := Some sample_conn, be_server_myds := Some sample_stream\<rparr>"
        sample_conn sample_stream frees 6 e sample_sys 0] sample_pools_ok(2) by auto
qed

end
