(* ===== verification/Results.thy ===== *)
theory Results
  imports Backend
begin

section \<open>Results on their way to the client\<close>

text \<open>
  The first part of \<^verbatim>\<open>src/mysql_session.c\<close>: the packets of a server (\<^verbatim>\<open>process_server_pkts\<close> and the
  \<^verbatim>\<open>server_COM_\<close> functions) and the lookup in the query cache (\<^verbatim>\<open>get_result_from_mysql_query_cache\<close>).

  A result is held back in \<^verbatim>\<open>sess->resultset\<close> until it is complete, so that it can be put into the query
  cache, or until it exceeds \<^verbatim>\<open>mysql_max_resultset_size\<close>; from then on its packets are passed on
  at once. The main results: every packet reaches the client exactly once and in order, and what is
  served from the cache later are the same bytes.
\<close>

subsection \<open>The query cache\<close>

definition sync_server_bytes_at_cmd :: "'a mysql_session_scheme \<Rightarrow> 'a mysql_session_scheme" where
  "sync_server_bytes_at_cmd sess =
     sess\<lparr>ss_server_bytes_at_cmd := (case server_myds sess of Some myds \<Rightarrow> ds_bytes_info myds | None \<Rightarrow> \<lparr>bs_recv = 0, bs_sent = 0\<rparr>)\<rparr>"

definition compute_query_checksum :: "'a rule_sess_scheme \<Rightarrow> 'a rule_sess_scheme option" where
  "compute_query_checksum sess =
     (if qi_query_checksum (rs_query_info sess) = None
      then do {
        query \<leftarrow> qi_query (rs_query_info sess);
        username \<leftarrow> as_username sess;
        schema \<leftarrow> as_schema_cur sess;
        Some (upd_info (\<lambda>q. q\<lparr>qi_query_checksum := Some (query @ username @ schema)\<rparr>) sess)
      }
      else Some sess)"

text \<open>\<^verbatim>\<open>g_checksum_get_string(sess->query_info.query_checksum)\<close>\<close>

definition checksum_string :: "sys \<Rightarrow> 'a rule_sess_scheme \<Rightarrow> cstr option" where
  "checksum_string sy sess = map_option (sy_checksum sy) (qi_query_checksum (rs_query_info sess))"

text \<open>
  \<^verbatim>\<open>query_statistics_set\<close> on the statement of the session. The entry then belongs to the statistics, or
  is freed there.
\<close>

definition session_statistics :: "sys \<Rightarrow> 'a rule_sess_scheme \<Rightarrow> 'w world_scheme \<Rightarrow> ('a rule_sess_scheme \<times> 'w world_scheme) option" where
  "session_statistics sy sess w =
     (if glovar ''mysql_query_statistics'' w = 0 then Some (sess, w)
      else case qi_query_stats (rs_query_info sess) of
             Stats e \<Rightarrow> do {
               ht \<leftarrow> query_statistics_set (sy_monotonic_time sy (wd_tick w)) e (wd_stats w);
               Some (upd_info (\<lambda>q. q\<lparr>qi_query_stats := NullStats\<rparr>) sess, (tick w)\<lparr>wd_stats := ht\<rparr>)
             }
           | _ \<Rightarrow> None)"

definition get_result_from_mysql_query_cache ::
    "sys \<Rightarrow> 'a mysql_session_scheme \<Rightarrow> 'w world_scheme \<Rightarrow> (int \<times> 'a mysql_session_scheme \<times> 'w world_scheme) option" where
  "get_result_from_mysql_query_cache sy sess w = do {
     sess \<leftarrow> compute_query_checksum sess;
     key \<leftarrow> checksum_string sy sess;
     (QCresult, qc) \<leftarrow> fdb_get key (wd_QC w);
     let w = w\<lparr>wd_QC := qc\<rparr>;
     case QCresult of
       None \<Rightarrow> Some (-1, sess, w)
     | Some data \<Rightarrow> do {
         let sess = MY_SESS_ADD_PKT_OUT_CLIENT \<lparr>pk_length = length data, pk_data = Some data\<rparr> sess;
         let sess = sess\<lparr>ss_mysql_query_cache_hit := True, ss_query_to_cache := False\<rparr>;
         (sess, w) \<leftarrow> session_statistics sy sess w;
         Some (0, sess, w)
       }
   }"

text \<open>The copy of a result into one block; \<open>buf\<close> is the block as \<^verbatim>\<open>g_malloc\<close> returned it.\<close>

fun copy_resultset :: "pkt list \<Rightarrow> nat \<Rightarrow> byte list \<Rightarrow> byte list option" where
  "copy_resultset [] copied vp = Some vp"
| "copy_resultset (p # ps) copied vp = do {
     data \<leftarrow> pk_data p;
     bytes \<leftarrow> mem_read data 0 (pk_length p);
     vp \<leftarrow> mem_write vp copied bytes;
     copy_resultset ps (copied + pk_length p) vp
   }"

definition system_var :: "'w config_scheme \<Rightarrow> fdb_system_var" where
  "system_var w = \<lparr>sv_hash_purge_time = cf_int w ''fdb_system_var.hash_purge_time'', sv_hash_purge_loop = cf_int w ''fdb_system_var.hash_purge_loop'',
     sv_hash_expire_max = nat (cf_int w ''fdb_system_var.hash_expire_max''),
     sv_purge_threshold_pct_min = cf_int w ''fdb_system_var.purge_threshold_pct_min''\<rparr>"

definition cache_result :: "sys \<Rightarrow> 'a mysql_session_scheme \<Rightarrow> 'w world_scheme \<Rightarrow> 'w world_scheme option" where
  "cache_result sy sess w =
     (if \<not> ss_query_to_cache sess then Some w
      else do {
        kp \<leftarrow> checksum_string sy sess;
        if int (length kp + ss_resultset_size sess + entry_meta) > fdb_hashes_group_free_mem (wd_QC w)
        then Some (w\<lparr>wd_QC := (wd_QC w)\<lparr>hg_cntSetERR := hg_cntSetERR (wd_QC w) + 1\<rparr>\<rparr>)
        else do {
          vp \<leftarrow> copy_resultset (ss_resultset sess) 0 (map (sy_junk sy (wd_tick w)) [0..<ss_resultset_size sess]);
          qc \<leftarrow> fdb_set (system_var w) (sy_address sy (wd_tick w)) kp (length kp) vp (qi_cache_ttl (rs_query_info sess)) (wd_QC w);
          Some ((tick w)\<lparr>wd_QC := qc\<rparr>)
        }
      })"

subsection \<open>The packets of a server\<close>

definition server_COM_QUIT :: "pkt \<Rightarrow> response_type \<Rightarrow> 'a mysql_session_scheme \<Rightarrow> 'a mysql_session_scheme" where
  "server_COM_QUIT p r sess = (if r = OK_Packet then MY_SESS_ADD_PKT_OUT_CLIENT p sess else sess)"

definition server_COM_STATISTICS :: "pkt \<Rightarrow> 'a mysql_session_scheme \<Rightarrow> 'a mysql_session_scheme" where
  "server_COM_STATISTICS p sess = sync_server_bytes_at_cmd (MY_SESS_ADD_PKT_OUT_CLIENT p sess)"

text \<open>\<^verbatim>\<open>g_strdup\<close> of \<^verbatim>\<open>NULL\<close> is \<^verbatim>\<open>NULL\<close>.\<close>

definition server_COM_INIT_DB :: "pkt \<Rightarrow> response_type \<Rightarrow> 'a mysql_session_scheme \<Rightarrow> 'a mysql_session_scheme option" where
  "server_COM_INIT_DB p r sess = do {
     sess \<leftarrow> (case ss_server_mybe sess of
               None \<Rightarrow> Some sess
             | Some i \<Rightarrow> do { mybe \<leftarrow> backend sess i; Some (set_backend i (mybe\<lparr>be_last_mysql_connpool := None\<rparr>) sess) });
     let sess = (if r = OK_Packet then MY_SESS_ADD_PKT_OUT_CLIENT p (sess\<lparr>as_schema_cur := ss_schema_new sess\<rparr>) else sess);
     let sess = (if r = ERR_Packet then MY_SESS_ADD_PKT_OUT_CLIENT p sess else sess);
     Some (sync_server_bytes_at_cmd (sess\<lparr>ss_schema_new := None\<rparr>))
   }"

text \<open>The loop at the end of a result that gives the connections back.\<close>

fun detach_loop :: "sys \<Rightarrow> nat list \<Rightarrow> 'a mysql_session_scheme \<Rightarrow> 'w world_scheme \<Rightarrow> ('a mysql_session_scheme \<times> 'w world_scheme) option" where
  "detach_loop sy [] sess w = Some (sess, w)"
| "detach_loop sy (i # is) sess w = do {
     mybe \<leftarrow> backend sess i;
     active \<leftarrow> ACTIVE_TRANSACTION sess;
     if active = 0 \<and> glovar ''mysql_share_connections'' w = 1
     then do { (mybe, w) \<leftarrow> backend_detach sy 0 mybe w; detach_loop sy is (set_backend i mybe sess) w }
     else detach_loop sy is sess w
   }"

definition result_end :: "sys \<Rightarrow> 'a mysql_session_scheme \<Rightarrow> 'w world_scheme \<Rightarrow> ('a mysql_session_scheme \<times> 'w world_scheme) option" where
  "result_end sy sess w = do {
     (sess, w) \<leftarrow> detach_loop sy [0..<mysql_hostgroups w] (sess\<lparr>ss_resultset_progress := RESULTSET_COMPLETED\<rparr>) w;
     Some (sess\<lparr>ss_nfds := 1\<rparr>, w)
   }"

definition unknown_progress :: "resultset_progress \<Rightarrow> resultset_progress" where
  "unknown_progress s =
     (case s of
        RESULTSET_WAITING \<Rightarrow> RESULTSET_COLUMN_COUNT
      | RESULTSET_COLUMN_COUNT \<Rightarrow> RESULTSET_COLUMN_DEFINITIONS
      | RESULTSET_COLUMN_DEFINITIONS \<Rightarrow> RESULTSET_COLUMN_DEFINITIONS
      | RESULTSET_EOF1 \<Rightarrow> RESULTSET_ROWS
      | RESULTSET_ROWS \<Rightarrow> RESULTSET_ROWS
      | RESULTSET_COMPLETED \<Rightarrow> RESULTSET_COMPLETED)"

definition query_progress :: "sys \<Rightarrow> response_type \<Rightarrow> 'a mysql_session_scheme \<Rightarrow> 'w world_scheme \<Rightarrow> ('a mysql_session_scheme \<times> 'w world_scheme) option" where
  "query_progress sy r sess w =
     (case r of
        OK_Packet \<Rightarrow>
          if ss_resultset_progress sess = RESULTSET_WAITING then result_end sy sess w
          else Some (sess\<lparr>ss_resultset_progress := RESULTSET_ROWS\<rparr>, w)
      | ERR_Packet \<Rightarrow> Some (sess\<lparr>ss_resultset_progress := RESULTSET_COMPLETED, ss_nfds := 1\<rparr>, w)
      | EOF_Packet \<Rightarrow>
          if ss_resultset_progress sess = RESULTSET_COLUMN_DEFINITIONS then Some (sess\<lparr>ss_resultset_progress := RESULTSET_EOF1\<rparr>, w)
          else result_end sy sess w
      | UNKNOWN_Packet \<Rightarrow> Some (sess\<lparr>ss_resultset_progress := unknown_progress (ss_resultset_progress sess)\<rparr>, w))"

definition within_limit :: "'a mysql_session_scheme \<Rightarrow> 'w config_scheme \<Rightarrow> bool" where
  "within_limit sess w \<longleftrightarrow> int (ss_resultset_size sess) < glovar ''mysql_max_resultset_size'' w"

definition client_output :: "pkt list \<Rightarrow> 'a mysql_session_scheme \<Rightarrow> 'a mysql_session_scheme" where
  "client_output ps sess = sess\<lparr>ss_client_myds := out_pkts ps (ss_client_myds sess)\<rparr>"

definition store_packet :: "pkt \<Rightarrow> 'a mysql_session_scheme \<Rightarrow> 'w config_scheme \<Rightarrow> 'a mysql_session_scheme" where
  "store_packet p sess w =
     (let sess = sess\<lparr>ss_resultset_size := ss_resultset_size sess + pk_length p\<rparr>
      in if within_limit sess w then sess\<lparr>ss_resultset := ss_resultset sess @ [p]\<rparr>
         else MY_SESS_ADD_PKT_OUT_CLIENT p (client_output (ss_resultset sess) (sess\<lparr>ss_query_to_cache := False, ss_resultset := []\<rparr>)))"

definition query_completed :: "sys \<Rightarrow> 'a mysql_session_scheme \<Rightarrow> 'w world_scheme \<Rightarrow> ('a mysql_session_scheme \<times> 'w world_scheme) option" where
  "query_completed sy sess w = do {
     (sess, w) \<leftarrow> session_statistics sy (sess\<lparr>ss_resultset_progress := RESULTSET_WAITING\<rparr>) w;
     let sess = (sync_server_bytes_at_cmd sess)\<lparr>ss_send_to_slave := False\<rparr>;
     w \<leftarrow> cache_result sy sess w;
     Some (if within_limit sess w then (client_output (ss_resultset sess) sess)\<lparr>ss_resultset := []\<rparr> else sess, w)
   }"

definition server_COM_QUERY :: "sys \<Rightarrow> pkt \<Rightarrow> response_type \<Rightarrow> 'a mysql_session_scheme \<Rightarrow> 'w world_scheme \<Rightarrow> ('a mysql_session_scheme \<times> 'w world_scheme) option" where
  "server_COM_QUERY sy p r sess w = do {
     (sess, w) \<leftarrow> query_progress sy r sess w;
     let sess = store_packet p sess w;
     if ss_resultset_progress sess = RESULTSET_COMPLETED then query_completed sy sess w else Some (sess, w)
   }"

definition note_transaction :: "sys \<Rightarrow> nat \<Rightarrow> pkt \<Rightarrow> response_type \<Rightarrow> mysql_backend \<Rightarrow> data_stream \<Rightarrow> 'a mysql_session_scheme \<Rightarrow> 'w world_scheme \<Rightarrow> 'a mysql_session_scheme option" where
  "note_transaction sy i p r mybe myds sess w =
     (if r = OK_Packet \<or> r = EOF_Packet
      then do {
        a \<leftarrow> is_transaction_active (sy_after sy (wd_tick w)) p;
        Some (set_backend i (mybe\<lparr>be_server_myds := Some (myds\<lparr>ds_active_transaction := of_bool a\<rparr>)\<rparr>) sess)
      }
      else Some sess)"

definition server_packet :: "sys \<Rightarrow> pkt \<Rightarrow> response_type \<Rightarrow> 'a mysql_session_scheme \<Rightarrow> 'w world_scheme \<Rightarrow> ('a mysql_session_scheme \<times> 'w world_scheme) option" where
  "server_packet sy p r sess w =
     (if ss_client_command sess = MYSQL_COM_QUIT then Some (server_COM_QUIT p r sess, w)
      else if ss_client_command sess = MYSQL_COM_INIT_DB then do { sess \<leftarrow> server_COM_INIT_DB p r sess; Some (sess, w) }
      else if ss_client_command sess = MYSQL_COM_STATISTICS then Some (server_COM_STATISTICS p sess, w)
      else if ss_client_command sess = MYSQL_COM_QUERY then server_COM_QUERY sy p r sess w
      else Some (MY_SESS_ADD_PKT_OUT_CLIENT p sess, w))"

text \<open>
  The loop ends: each round takes one of the packets that were there at the start, so their number is
  enough fuel.
\<close>

fun server_loop :: "sys \<Rightarrow> nat \<Rightarrow> 'a mysql_session_scheme \<Rightarrow> 'w world_scheme \<Rightarrow> ('a mysql_session_scheme \<times> 'w world_scheme) option" where
  "server_loop sy 0 sess w = Some (sess, w)"
| "server_loop sy (Suc n) sess w =
     (case ss_server_mybe sess of
        None \<Rightarrow> Some (sess, w)
      | Some i \<Rightarrow> do {
          mybe \<leftarrow> backend sess i;
          myds \<leftarrow> be_server_myds mybe;
          case ud_pkts (ds_input myds) of
            [] \<Rightarrow> Some (sess, w)
          | p # ps \<Rightarrow> do {
              let myds = myds\<lparr>ds_input := (ds_input myds)\<lparr>ud_pkts := ps\<rparr>\<rparr>;
              let mybe = mybe\<lparr>be_server_myds := Some myds\<rparr>;
              let sess = set_backend i mybe sess;
              r \<leftarrow> mysql_response p;
              sess \<leftarrow> note_transaction sy i p r mybe myds sess w;
              (sess, w) \<leftarrow> server_packet sy p r sess (tick w);
              server_loop sy n sess w
            }
        })"

definition process_server_pkts :: "sys \<Rightarrow> 'a mysql_session_scheme \<Rightarrow> 'w world_scheme \<Rightarrow> ('a mysql_session_scheme \<times> 'w world_scheme) option" where
  "process_server_pkts sy sess w =
     (case server_myds sess of
        None \<Rightarrow> Some (sess, w)
      | Some myds \<Rightarrow> server_loop sy (length (ud_pkts (ds_input myds))) sess w)"

subsection \<open>What the steps leave alone\<close>

definition outs :: "'a mysql_session_scheme \<Rightarrow> pkt list" where
  "outs sess = ud_pkts (ds_output (ss_client_myds sess))"

text \<open>The packets of results that the session has taken from servers and that are for the client.\<close>

definition relayed :: "'a mysql_session_scheme \<Rightarrow> pkt list" where
  "relayed sess = outs sess @ ss_resultset sess"

definition conns :: "'a mysql_session_scheme \<Rightarrow> cp_entry option list" where
  "conns sess = map be_server_mycpe (ss_mybes sess)"

definition conns_ok :: "'a mysql_session_scheme \<Rightarrow> bool" where
  "conns_ok sess \<longleftrightarrow> (\<forall>mc. Some mc \<in> set (conns sess) \<longrightarrow> key_defined (conn_key_of mc))"

definition streams :: "'a mysql_session_scheme \<Rightarrow> data_stream option list" where
  "streams sess = map be_server_myds (ss_mybes sess)"

lemma set_backend_sel [simp]:
  "ss_client_myds (set_backend i b s) = ss_client_myds s" "ss_resultset (set_backend i b s) = ss_resultset s"
  "ss_resultset_progress (set_backend i b s) = ss_resultset_progress s" "ss_resultset_size (set_backend i b s) = ss_resultset_size s"
  "ss_client_command (set_backend i b s) = ss_client_command s" "ss_server_mybe (set_backend i b s) = ss_server_mybe s"
  "ss_query_to_cache (set_backend i b s) = ss_query_to_cache s" "rs_query_info (set_backend i b s) = rs_query_info s"
  "length (ss_mybes (set_backend i b s)) = length (ss_mybes s)"
  by (simp_all add: set_backend_def)

lemma backend_set [simp]: "backend s i = Some b0 \<Longrightarrow> backend (set_backend i b s) i = Some b"
  by (auto simp: backend_def set_backend_def split: if_splits)

lemma streams_set: "backend s i = Some b0 \<Longrightarrow> be_server_myds b = be_server_myds b0 \<Longrightarrow> streams (set_backend i b s) = streams s"
  by (auto simp: backend_def set_backend_def streams_def map_update intro!: list_update_same_conv [THEN iffD2] split: if_splits)

lemma conns_set: "backend s i = Some b0 \<Longrightarrow> be_server_mycpe b = be_server_mycpe b0 \<Longrightarrow> conns (set_backend i b s) = conns s"
  by (auto simp: backend_def set_backend_def conns_def map_update intro!: list_update_same_conv [THEN iffD2] split: if_splits)

lemma set_backend_id: "set_backend i b s = s\<lparr>ss_mybes := ss_mybes (set_backend i b s)\<rparr>"
  by (simp add: set_backend_def)

lemma server_myds_streams:
  "server_myds s = (case ss_server_mybe s of None \<Rightarrow> None | Some i \<Rightarrow> if i < length (streams s) then streams s ! i else None)"
  by (simp add: server_myds_def backend_def streams_def split: option.split)

lemma server_myds_cong: "ss_server_mybe s' = ss_server_mybe s \<Longrightarrow> streams s' = streams s \<Longrightarrow> server_myds s' = server_myds s"
  by (simp only: server_myds_streams)

lemma world_same: "\<exists>cp cl t. w = w\<lparr>wd_connpool := cp, wd_closed := cl, wd_tick := t\<rparr>"
  by (intro exI [of _ "wd_connpool w"] exI [of _ "wd_closed w"] exI [of _ "wd_tick w"]) simp

lemma conns_okD: "conns_ok s \<Longrightarrow> mybe \<in> set (ss_mybes s) \<Longrightarrow> be_server_mycpe mybe = Some mc \<Longrightarrow> key_defined (conn_key_of mc)"
  unfolding conns_ok_def conns_def by (metis image_eqI list.set_map)

lemma conns_ok_less:
  assumes "conns_ok s" and "conns s' = (conns s)[i := c]" and "c = None \<or> c \<in> set (conns s)"
  shows "conns_ok s'"
proof -
  have "set (conns s') \<subseteq> insert None (set (conns s))" using assms(3) set_update_subset_insert [of "conns s" i c] unfolding assms(2) by blast
  then show ?thesis using assms(1) unfolding conns_ok_def by blast
qed

lemma backend_detach_ok:
  assumes "pools_ok (wd_connpool w)" and "\<forall>mc. be_server_mycpe mybe = Some mc \<longrightarrow> key_defined (conn_key_of mc)"
  shows "\<exists>c w'. backend_detach sy fc mybe w = Some (mybe\<lparr>be_last_mysql_connpool := None, be_server_mycpe := c\<rparr>, w')
    \<and> (c = None \<or> c = be_server_mycpe mybe) \<and> pools_ok (wd_connpool w')
    \<and> (\<exists>cp cl t. w' = w\<lparr>wd_connpool := cp, wd_closed := cl, wd_tick := t\<rparr>)"
proof (cases "be_server_mycpe mybe")
  case None
  then show ?thesis using assms(1)
    by (intro exI [of _ None] exI [of _ w] conjI world_same) (cases mybe, simp_all add: backend_detach_def)
next
  case (Some mc)
  show ?thesis
  proof (cases "ce_reusable mc")
    case False
    then show ?thesis using Some assms(1)
      by (intro exI [of _ "Some mc"] exI [of _ w] conjI world_same) (cases mybe, simp_all add: backend_detach_def)
  next
    case True
    obtain cl cp where "mysql_connpool_detach_connection (sy_time sy (wd_tick w)) None mc (fc = 1) (wd_connpool w) = Some (cl, cp)" "pools_ok cp"
      using detach_ok [OF assms(1), of mc None "sy_time sy (wd_tick w)" "fc = 1"] assms(2) Some by (auto simp: ref_ok_def)
    then have "backend_detach sy fc mybe w = Some (mybe\<lparr>be_last_mysql_connpool := None, be_server_mycpe := None\<rparr>,
        w\<lparr>wd_connpool := cp, wd_closed := wd_closed w @ cl, wd_tick := wd_tick w + 1\<rparr>)"
      using Some True by (simp add: backend_detach_def backend_reset_server_mycpe_def)
    then show ?thesis using \<open>pools_ok cp\<close> by (intro exI conjI disjI1) simp_all
  qed
qed

definition frame :: "'a mysql_session_scheme \<Rightarrow> 'w world_scheme \<Rightarrow> 'a mysql_session_scheme \<Rightarrow> 'w world_scheme \<Rightarrow> bool" where
  "frame s w s' w' \<longleftrightarrow> (\<exists>bs cp cl t. s' = s\<lparr>ss_mybes := bs\<rparr> \<and> w' = w\<lparr>wd_connpool := cp, wd_closed := cl, wd_tick := t\<rparr>) \<and> streams s' = streams s"

lemma frame_refl: "frame s w s w"
  unfolding frame_def by (intro conjI exI [of _ "ss_mybes s"] exI [of _ "wd_connpool w"] exI [of _ "wd_closed w"] exI [of _ "wd_tick w"]) simp_all

lemma frameE:
  assumes "frame s w s' w'"
  obtains bs cp cl t where "s' = s\<lparr>ss_mybes := bs\<rparr>" "w' = w\<lparr>wd_connpool := cp, wd_closed := cl, wd_tick := t\<rparr>" "streams s' = streams s"
  using assms unfolding frame_def by (elim conjE exE) (rule that)

lemma frameI: "s' = s\<lparr>ss_mybes := bs\<rparr> \<Longrightarrow> w' = w\<lparr>wd_connpool := cp, wd_closed := cl, wd_tick := t\<rparr> \<Longrightarrow> streams s' = streams s \<Longrightarrow> frame s w s' w'"
  unfolding frame_def by (intro conjI exI)

lemma frame_trans: 
  assumes "frame s w s1 w1" and "frame s1 w1 s2 w2"
  shows "frame s w s2 w2"
proof -
  obtain bs cp cl t where 1: "s1 = s\<lparr>ss_mybes := bs\<rparr>" "w1 = w\<lparr>wd_connpool := cp, wd_closed := cl, wd_tick := t\<rparr>" "streams s1 = streams s"
    using assms(1) by (rule frameE)
  obtain bs' cp' cl' t' where 2: "s2 = s1\<lparr>ss_mybes := bs'\<rparr>" "w2 = w1\<lparr>wd_connpool := cp', wd_closed := cl', wd_tick := t'\<rparr>" "streams s2 = streams s1"
    using assms(2) by (rule frameE)
  have "s2 = s\<lparr>ss_mybes := bs'\<rparr>" "w2 = w\<lparr>wd_connpool := cp', wd_closed := cl', wd_tick := t'\<rparr>" unfolding 2(1,2) unfolding 1(1,2) by simp_all
  then show ?thesis using 1(3) 2(3) by (intro frameI) simp_all
qed

text \<open>Giving back the connections touches nothing but the connections.\<close>

lemma detach_loop_ok:
  assumes "\<forall>i \<in> set is. i < length (ss_mybes s)" and "pools_ok (wd_connpool w)" and "conns_ok s" and "server_myds s \<noteq> None"
  shows "\<exists>s' w'. detach_loop sy is s w = Some (s', w') \<and> frame s w s' w' \<and> pools_ok (wd_connpool w') \<and> conns_ok s'"
  using assms
proof (induction "is" arbitrary: s w)
  case Nil
  then show ?case by (intro exI [of _ s] exI [of _ w]) (simp add: frame_refl)
next
  case (Cons i "is")
  obtain mybe where b: "backend s i = Some mybe" "mybe \<in> set (ss_mybes s)" using Cons.prems(1) by (simp add: backend_def)
  obtain active where a: "ACTIVE_TRANSACTION s = Some active" using Cons.prems(4) by (auto simp: ACTIVE_TRANSACTION_def)
  show ?case
  proof (cases "active = 0 \<and> glovar ''mysql_share_connections'' w = 1")
    case False
    then have "detach_loop sy (i # is) s w = detach_loop sy is s w" using b(1) a by auto
    then show ?thesis using Cons.IH [OF _ Cons.prems(2-4)] Cons.prems(1) by simp
  next
    case True
    have k: "\<forall>mc. be_server_mycpe mybe = Some mc \<longrightarrow> key_defined (conn_key_of mc)" using conns_okD [OF Cons.prems(3) b(2)] by blast
    obtain c w1 cp cl t where d: "backend_detach sy 0 mybe w = Some (mybe\<lparr>be_last_mysql_connpool := None, be_server_mycpe := c\<rparr>, w1)"
        "c = None \<or> c = be_server_mycpe mybe" "pools_ok (wd_connpool w1)" "w1 = w\<lparr>wd_connpool := cp, wd_closed := cl, wd_tick := t\<rparr>"
      using backend_detach_ok [OF Cons.prems(2) k, of sy 0] by (elim exE conjE) (rule that)
    define s1 where "s1 = set_backend i (mybe\<lparr>be_last_mysql_connpool := None, be_server_mycpe := c\<rparr>) s"
    have st: "streams s1 = streams s" unfolding s1_def by (rule streams_set [OF b(1)]) simp
    have "s1 = s\<lparr>ss_mybes := ss_mybes s1\<rparr>" unfolding s1_def by (rule set_backend_id)
    then have f: "frame s w s1 w1" by (rule frameI [OF _ d(4) st])
    have "conns s1 = (conns s)[i := c]" by (simp add: conns_def s1_def set_backend_def map_update)
    moreover have "c = None \<or> c \<in> set (conns s)" using d(2) b(2) by (auto simp: conns_def)
    ultimately have "conns_ok s1" by (rule conns_ok_less [OF Cons.prems(3)])
    moreover have "server_myds s1 \<noteq> None" using Cons.prems(4) server_myds_cong [OF _ st] by (simp add: s1_def)
    moreover have "\<forall>j \<in> set is. j < length (ss_mybes s1)" using Cons.prems(1) by (simp add: s1_def)
    ultimately obtain s' w' where r: "detach_loop sy is s1 w1 = Some (s', w')" "frame s1 w1 s' w'" "pools_ok (wd_connpool w')" "conns_ok s'"
      using Cons.IH [OF _ d(3), of s1] by blast
    have "detach_loop sy (i # is) s w = Some (s', w')" using b(1) a True d(1) r(1) by (simp add: s1_def)
    then show ?thesis using frame_trans [OF f r(2)] r(3,4) by blast
  qed
qed

subsection \<open>Inside a result\<close>

text \<open>What the session has of a result of which the packets \<open>done\<close> have been taken; \<open>mx\<close> is the size limit.\<close>

definition holds :: "int \<Rightarrow> 'a mysql_session_scheme \<Rightarrow> pkt list \<Rightarrow> 'a mysql_session_scheme \<Rightarrow> bool" where
  "holds mx s0 done s \<longleftrightarrow> relayed s = outs s0 @ done \<and> ss_resultset_size s = sum_list (map pk_length done)
     \<and> (if int (ss_resultset_size s) < mx then ss_resultset s = done \<and> ss_query_to_cache s = ss_query_to_cache s0
        else ss_resultset s = [] \<and> (done \<noteq> [] \<longrightarrow> \<not> ss_query_to_cache s))
     \<and> rs_query_info s = rs_query_info s0"

text \<open>The current backend has the packets \<open>ps\<close> to offer.\<close>

definition offers :: "nat \<Rightarrow> pkt list \<Rightarrow> 'a mysql_session_scheme \<Rightarrow> bool" where
  "offers i ps s \<longleftrightarrow> ss_server_mybe s = Some i \<and> ss_client_command s = MYSQL_COM_QUERY
     \<and> (\<exists>mybe myds. backend s i = Some mybe \<and> be_server_myds mybe = Some myds \<and> ud_pkts (ds_input myds) = ps)"

lemma holds_cong:
  "ss_client_myds s' = ss_client_myds s \<Longrightarrow> ss_resultset s' = ss_resultset s \<Longrightarrow> ss_resultset_size s' = ss_resultset_size s \<Longrightarrow>
   ss_query_to_cache s' = ss_query_to_cache s \<Longrightarrow> rs_query_info s' = rs_query_info s \<Longrightarrow> holds mx s0 done s' = holds mx s0 done s"
  by (simp only: holds_def relayed_def outs_def)

lemma store_packet_sel [simp]:
  "ss_mybes (store_packet p s w) = ss_mybes s" "ss_server_mybe (store_packet p s w) = ss_server_mybe s"
  "ss_client_command (store_packet p s w) = ss_client_command s" "ss_resultset_progress (store_packet p s w) = ss_resultset_progress s"
  "rs_query_info (store_packet p s w) = rs_query_info s"
  by (simp_all add: store_packet_def Let_def MY_SESS_ADD_PKT_OUT_CLIENT_def client_output_def)

lemma outs_out [simp]:
  "outs (client_output ps s) = outs s @ ps" "outs (MY_SESS_ADD_PKT_OUT_CLIENT p s) = outs s @ [p]"
  by (simp_all add: outs_def client_output_def MY_SESS_ADD_PKT_OUT_CLIENT_def out_pkts_def)

lemma offers_store [simp]: "offers i ps (store_packet p s w) = offers i ps s"
  by (simp add: offers_def backend_def)

lemma offers_progress [simp]: "offers i ps (s\<lparr>ss_resultset_progress := pr\<rparr>) = offers i ps s"
  by (simp add: offers_def backend_def)

lemma holds_store:
  assumes "holds mx s0 done s" and "mx = glovar ''mysql_max_resultset_size'' w"
  shows "holds mx s0 (done @ [p]) (store_packet p s w)"
proof -
  have h: "outs s @ ss_resultset s = outs s0 @ done" "ss_resultset_size s = sum_list (map pk_length done)" "rs_query_info s = rs_query_info s0"
      "if int (ss_resultset_size s) < mx then ss_resultset s = done \<and> ss_query_to_cache s = ss_query_to_cache s0
        else ss_resultset s = [] \<and> (done \<noteq> [] \<longrightarrow> \<not> ss_query_to_cache s)"
    using assms(1) by (simp_all add: holds_def relayed_def)
  have z: "ss_resultset_size (store_packet p s w) = ss_resultset_size s + pk_length p"
    by (simp add: store_packet_def Let_def MY_SESS_ADD_PKT_OUT_CLIENT_def client_output_def)
  show ?thesis
  proof (cases "int (ss_resultset_size s + pk_length p) < mx")
    case True
    have "store_packet p s w = s\<lparr>ss_resultset_size := ss_resultset_size s + pk_length p, ss_resultset := ss_resultset s @ [p]\<rparr>"
      using True assms(2) by (simp add: store_packet_def Let_def within_limit_def)
    then show ?thesis using h True by (simp add: holds_def relayed_def outs_def)
  next
    case False
    have e: "store_packet p s w = MY_SESS_ADD_PKT_OUT_CLIENT p (client_output (ss_resultset s)
        (s\<lparr>ss_resultset_size := ss_resultset_size s + pk_length p, ss_query_to_cache := False, ss_resultset := []\<rparr>))"
      using False assms(2) by (simp add: store_packet_def Let_def within_limit_def)
    then have "outs (store_packet p s w) = outs s @ ss_resultset s @ [p]" by (simp, simp add: outs_def)
    moreover have "ss_resultset (store_packet p s w) = []" "\<not> ss_query_to_cache (store_packet p s w)"
      unfolding e by (simp_all add: MY_SESS_ADD_PKT_OUT_CLIENT_def client_output_def)
    ultimately show ?thesis using h z False by (simp add: holds_def relayed_def)
  qed
qed

definition status_readable :: "sys \<Rightarrow> pkt \<Rightarrow> bool" where
  "status_readable sy p \<longleftrightarrow> (\<forall>t. is_transaction_active (sy_after sy t) p \<noteq> None)"

text \<open>One round of the loop up to the handling of the packet.\<close>

lemma server_loop_step:
  assumes o: "offers i (p # ps) s" and h: "holds mx s0 done s" and r: "mysql_response p = Some r"
    and t: "r = OK_Packet \<or> r = EOF_Packet \<Longrightarrow> status_readable sy p"
  shows "\<exists>s1. server_loop sy (Suc n) s w = do { (s', w') \<leftarrow> server_COM_QUERY sy p r s1 (tick w); server_loop sy n s' w' }
    \<and> offers i ps s1 \<and> holds mx s0 done s1 \<and> ss_resultset_progress s1 = ss_resultset_progress s \<and> conns s1 = conns s"
proof -
  obtain mybe myds where b: "ss_server_mybe s = Some i" "ss_client_command s = MYSQL_COM_QUERY" "backend s i = Some mybe"
      "be_server_myds mybe = Some myds" "ud_pkts (ds_input myds) = p # ps"
    using o by (auto simp: offers_def)
  define myds1 where "myds1 = myds\<lparr>ds_input := (ds_input myds)\<lparr>ud_pkts := ps\<rparr>\<rparr>"
  define mybe1 where "mybe1 = mybe\<lparr>be_server_myds := Some myds1\<rparr>"
  obtain s1 myds2 where n: "note_transaction sy i p r mybe1 myds1 (set_backend i mybe1 s) w = Some s1"
      "s1 = set_backend i (mybe1\<lparr>be_server_myds := Some myds2\<rparr>) s" "ud_pkts (ds_input myds2) = ps"
  proof (cases "r = OK_Packet \<or> r = EOF_Packet")
    case True
    then obtain a where "is_transaction_active (sy_after sy (wd_tick w)) p = Some a" using t by (auto simp: status_readable_def)
    then show ?thesis using True
      by (intro that [of _ "myds1\<lparr>ds_active_transaction := of_bool a\<rparr>"]) (simp_all add: note_transaction_def set_backend_def myds1_def)
  next
    case False
    then show ?thesis by (intro that [of _ myds1]) (simp_all add: note_transaction_def set_backend_def myds1_def mybe1_def)
  qed
  have c: "ss_client_command s1 = MYSQL_COM_QUERY" "ss_server_mybe s1 = Some i" using b(1,2) by (simp_all add: n(2))
  have "server_loop sy (Suc n) s w = do { (s', w') \<leftarrow> server_COM_QUERY sy p r s1 (tick w); server_loop sy n s' w' }"
    using b r n(1) c(1) by (simp add: server_packet_def com_defs myds1_def [symmetric] mybe1_def [symmetric])
  moreover have "offers i ps s1" using c b(3) n(3) by (simp add: offers_def n(2))
  moreover have "conns s1 = conns s" unfolding n(2) by (rule conns_set [OF b(3)]) (simp add: mybe1_def)
  moreover have "holds mx s0 done s1" using h holds_cong [of s1 s mx s0 "done"] by (simp add: n(2))
  ultimately show ?thesis by (intro exI [of _ s1]) (simp add: n(2))
qed

definition data_pkt :: "pkt \<Rightarrow> bool" where
  "data_pkt p \<longleftrightarrow> pkt_ok p \<and> mysql_response p = Some UNKNOWN_Packet"

definition eof_pkt :: "pkt \<Rightarrow> bool" where
  "eof_pkt p \<longleftrightarrow> pkt_ok p \<and> mysql_response p = Some EOF_Packet \<and> pk_length p = 9"

lemma eof_status: "eof_pkt p \<Longrightarrow> status_readable sy p"
  by (auto simp: eof_pkt_def status_readable_def is_transaction_active_def status_flags_def pkt_ok_def mem_read_def hdr_size_def split: option.splits)

lemma query_unknown:
  assumes "unknown_progress (ss_resultset_progress s) \<noteq> RESULTSET_COMPLETED"
  shows "server_COM_QUERY sy p UNKNOWN_Packet s w = Some (store_packet p (s\<lparr>ss_resultset_progress := unknown_progress (ss_resultset_progress s)\<rparr>) w, w)"
  using assms by (simp add: server_COM_QUERY_def query_progress_def)

lemma unknown_not_completed: "unknown_progress pr \<noteq> RESULTSET_COMPLETED \<longleftrightarrow> pr \<noteq> RESULTSET_COMPLETED"
  by (cases pr) (simp_all add: unknown_progress_def)

text \<open>A stretch of packets that are neither OK, ERR nor EOF.\<close>

lemma server_loop_data:
  assumes "list_all data_pkt ps" and "offers i (ps @ qs) s" and "holds (glovar ''mysql_max_resultset_size'' w) s0 done s"
    and "ss_resultset_progress s \<noteq> RESULTSET_COMPLETED"
  shows "\<exists>s'. server_loop sy (length ps + n) s w = server_loop sy n s' (w\<lparr>wd_tick := wd_tick w + length ps\<rparr>)
    \<and> offers i qs s' \<and> holds (glovar ''mysql_max_resultset_size'' w) s0 (done @ ps) s'
    \<and> ss_resultset_progress s' = (unknown_progress ^^ length ps) (ss_resultset_progress s) \<and> conns s' = conns s"
  using assms
proof (induction ps arbitrary: s w "done")
  case Nil
  then show ?case by (intro exI [of _ s]) simp
next
  case (Cons p ps)
  have r: "mysql_response p = Some UNKNOWN_Packet" using Cons.prems(1) by (simp add: data_pkt_def)
  have o: "offers i (p # (ps @ qs)) s" using Cons.prems(2) by simp
  obtain s1 where s1: "server_loop sy (Suc (length ps + n)) s w = do { (s', w') \<leftarrow> server_COM_QUERY sy p UNKNOWN_Packet s1 (tick w); server_loop sy (length ps + n) s' w' }"
      "offers i (ps @ qs) s1" "holds (glovar ''mysql_max_resultset_size'' w) s0 done s1" "ss_resultset_progress s1 = ss_resultset_progress s" "conns s1 = conns s"
    using server_loop_step [OF o Cons.prems(3) r, of sy "length ps + n" w] by auto
  define s2 where "s2 = store_packet p (s1\<lparr>ss_resultset_progress := unknown_progress (ss_resultset_progress s)\<rparr>) (tick w)"
  have e: "server_loop sy (length (p # ps) + n) s w = server_loop sy (length ps + n) s2 (tick w)"
    using s1(1) query_unknown [of s1 sy p "tick w"] Cons.prems(4) s1(4) by (simp add: unknown_not_completed s2_def)
  have g: "glovar ''mysql_max_resultset_size'' (tick w) = glovar ''mysql_max_resultset_size'' w" by (simp add: glovar_def)
  have "holds (glovar ''mysql_max_resultset_size'' w) s0 done (s1\<lparr>ss_resultset_progress := unknown_progress (ss_resultset_progress s)\<rparr>)"
    using s1(3) by (subst holds_cong [of _ s1]) simp_all
  then have h2: "holds (glovar ''mysql_max_resultset_size'' (tick w)) s0 (done @ [p]) s2"
    unfolding s2_def g by (rule holds_store) (rule g [symmetric])
  have o2: "offers i (ps @ qs) s2" using s1(2) by (simp add: s2_def)
  have p2: "ss_resultset_progress s2 = unknown_progress (ss_resultset_progress s)" "conns s2 = conns s"
    using s1(5) by (simp_all add: s2_def conns_def)
  have n2: "list_all data_pkt ps" "ss_resultset_progress s2 \<noteq> RESULTSET_COMPLETED"
    using Cons.prems(1,4) p2(1) by (simp_all add: unknown_not_completed)
  obtain s' where s': "server_loop sy (length ps + n) s2 (tick w) = server_loop sy n s' (tick w\<lparr>wd_tick := wd_tick (tick w) + length ps\<rparr>)"
      "offers i qs s'" "holds (glovar ''mysql_max_resultset_size'' (tick w)) s0 ((done @ [p]) @ ps) s'"
      "ss_resultset_progress s' = (unknown_progress ^^ length ps) (ss_resultset_progress s2)" "conns s' = conns s2"
    using Cons.IH [OF n2(1) o2 h2 n2(2)] by (elim exE conjE) (rule that)
  have "(unknown_progress ^^ length ps) (unknown_progress (ss_resultset_progress s)) = (unknown_progress ^^ length (p # ps)) (ss_resultset_progress s)"
    by (simp add: funpow_swap1)
  then show ?case using e s' p2 unfolding g by (intro exI [of _ s']) simp
qed

lemma copy_resultset_all:
  assumes "list_all pkt_ok ps" and "length junk = sum_list (map pk_length ps)"
  shows "copy_resultset ps (length a) (a @ junk) = Some (a @ concat (map pkt_bytes ps))"
  using assms
proof (induction ps arbitrary: a junk)
  case (Cons p ps)
  then obtain d where d: "pk_data p = Some d" "length d = pk_length p" "pkt_bytes p = d" by (auto simp: pkt_ok_def pkt_bytes_def split: option.splits)
  have "mem_write (a @ junk) (length a) d = Some ((a @ d) @ drop (length d) junk)"
    using Cons.prems(2) d(2) by (simp add: mem_write_def)
  moreover have "copy_resultset ps (length (a @ d)) ((a @ d) @ drop (length d) junk) = Some ((a @ d) @ concat (map pkt_bytes ps))"
    using Cons.prems d(2) by (intro Cons.IH) simp_all
  ultimately show ?case using d by (simp add: mem_read_def)
qed simp

subsection \<open>The end of a result\<close>

definition fits :: "cstr \<Rightarrow> nat \<Rightarrow> fdb_hashes_group \<Rightarrow> bool" where
  "fits kp vl hg \<longleftrightarrow> int (length kp + vl + entry_meta) \<le> fdb_hashes_group_free_mem hg"

text \<open>What the cache holds after the result \<open>ps\<close>: it is stored if it should be, is not too large, and there is room.\<close>

definition view_after :: "sys \<Rightarrow> 'a mysql_session_scheme \<Rightarrow> 'w world_scheme \<Rightarrow> pkt list \<Rightarrow> cstr \<Rightarrow> (byte list \<times> int) option" where
  "view_after sy s w ps =
     (case checksum_string sy s of
        None \<Rightarrow> cache_view (wd_QC w)
      | Some kp \<Rightarrow>
          if ss_query_to_cache s \<and> int (sum_list (map pk_length ps)) < glovar ''mysql_max_resultset_size'' w \<and> fits kp (sum_list (map pk_length ps)) (wd_QC w)
          then (cache_view (wd_QC w))(kp \<mapsto> (concat (map pkt_bytes ps), entry_expire (system_var w) (wd_QC w) (qi_cache_ttl (rs_query_info s))))
          else cache_view (wd_QC w))"

text \<open>A new entry of the cache gets an address that no entry has.\<close>

definition fresh_addresses :: "sys \<Rightarrow> fdb_hashes_group \<Rightarrow> bool" where
  "fresh_addresses sy hg \<longleftrightarrow> (\<forall>t. \<forall>p \<in> set (hg_fdb_hashes hg). sy_address sy t \<notin> set (ht_array p))"

definition stats_ready :: "'a rule_sess_scheme \<Rightarrow> 'w config_scheme \<Rightarrow> bool" where
  "stats_ready sess w \<longleftrightarrow> glovar ''mysql_query_statistics'' w = 0 \<or> (\<exists>e. qi_query_stats (rs_query_info sess) = Stats e \<and> entry_ok e)"

lemma session_statistics_ok:
  assumes "stats_ready s w"
  shows "\<exists>q ht t. session_statistics sy s w = Some (s\<lparr>rs_query_info := q\<rparr>, w\<lparr>wd_stats := ht, wd_tick := t\<rparr>)
    \<and> qi_query_checksum q = qi_query_checksum (rs_query_info s) \<and> qi_cache_ttl q = qi_cache_ttl (rs_query_info s)"
proof (cases "glovar ''mysql_query_statistics'' w = 0")
  case True
  then show ?thesis by (intro exI [of _ "rs_query_info s"] exI [of _ "wd_stats w"] exI [of _ "wd_tick w"]) (simp add: session_statistics_def)
next
  case False
  then obtain e where e: "qi_query_stats (rs_query_info s) = Stats e" "entry_ok e" using assms by (auto simp: stats_ready_def)
  obtain ht where ht: "query_statistics_set (sy_monotonic_time sy (wd_tick w)) e (wd_stats w) = Some ht"
    using query_statistics_set_spec [OF e(2), of "sy_monotonic_time sy (wd_tick w)" "wd_stats w"] by blast
  show ?thesis using False e(1) ht
    by (intro exI [of _ "(rs_query_info s)\<lparr>qi_query_stats := NullStats\<rparr>"] exI [of _ ht] exI [of _ "wd_tick w + 1"]) (simp add: session_statistics_def)
qed

lemma fdb_set_at:
  assumes "cache_ok hg M" and "fresh_addresses sy hg"
  shows "\<exists>hg'. fdb_set sv (sy_address sy t) kp (length kp) vp x hg = Some hg' \<and> cache_ok hg' M
    \<and> cache_view hg' = (cache_view hg)(kp \<mapsto> (vp, entry_expire sv hg x)) \<and> hg_now hg' = hg_now hg"
proof -
  have "key_partition kp (length kp) (hg_size hg) < length (hg_fdb_hashes hg)"
    using key_partition_lt cache_okD(1,2) [OF assms(1)] by simp
  then have "sy_address sy t \<notin> set (ht_array (hg_fdb_hashes hg ! key_partition kp (length kp) (hg_size hg)))"
    using assms(2) unfolding fresh_addresses_def by simp
  then show ?thesis by (rule fdb_set_ok [OF assms(1) refl, of "sy_address sy t" kp sv vp x]) (intro exI conjI)
qed

lemma cache_result_ok:
  assumes h: "ss_resultset_size s = sum_list (map pk_length ps)" "ss_query_to_cache s \<Longrightarrow> ss_resultset s = ps" and ok: "list_all pkt_ok ps"
    and c: "cache_ok (wd_QC w) M" "fresh_addresses sy (wd_QC w)" and k: "ss_query_to_cache s \<Longrightarrow> checksum_string sy s \<noteq> None"
  shows "\<exists>qc t. cache_result sy s w = Some (w\<lparr>wd_QC := qc, wd_tick := t\<rparr>) \<and> cache_ok qc M \<and> hg_now qc = hg_now (wd_QC w)
    \<and> cache_view qc = (case checksum_string sy s of
        None \<Rightarrow> cache_view (wd_QC w)
      | Some kp \<Rightarrow> if ss_query_to_cache s \<and> fits kp (sum_list (map pk_length ps)) (wd_QC w)
          then (cache_view (wd_QC w))(kp \<mapsto> (concat (map pkt_bytes ps), entry_expire (system_var w) (wd_QC w) (qi_cache_ttl (rs_query_info s))))
          else cache_view (wd_QC w))"
proof (cases "ss_query_to_cache s")
  case False
  then show ?thesis using c by (intro exI [of _ "wd_QC w"] exI [of _ "wd_tick w"]) (simp add: cache_result_def split: option.split)
next
  case True
  obtain kp where kp: "checksum_string sy s = Some kp" using k True by blast
  show ?thesis
  proof (cases "fits kp (sum_list (map pk_length ps)) (wd_QC w)")
    case False
    let ?qc = "(wd_QC w)\<lparr>hg_cntSetERR := hg_cntSetERR (wd_QC w) + 1\<rparr>"
    have "cache_ok ?qc M" using c(1) by (simp add: cache_ok_def counted_def)
    moreover have "cache_view ?qc = cache_view (wd_QC w)" by (simp add: cache_view_def fun_eq_iff)
    ultimately show ?thesis using True False kp h
      by (intro exI [of _ ?qc] exI [of _ "wd_tick w"]) (simp add: cache_result_def fits_def)
  next
    case fit: True
    have "copy_resultset ps 0 (map (sy_junk sy (wd_tick w)) [0..<ss_resultset_size s]) = Some (concat (map pkt_bytes ps))"
      using copy_resultset_all [OF ok, of "map (sy_junk sy (wd_tick w)) [0..<ss_resultset_size s]" "[]"] h(1) by simp
    moreover obtain qc where "fdb_set (system_var w) (sy_address sy (wd_tick w)) kp (length kp) (concat (map pkt_bytes ps)) (qi_cache_ttl (rs_query_info s)) (wd_QC w) = Some qc"
        "cache_ok qc M" "hg_now qc = hg_now (wd_QC w)"
        "cache_view qc = (cache_view (wd_QC w))(kp \<mapsto> (concat (map pkt_bytes ps), entry_expire (system_var w) (wd_QC w) (qi_cache_ttl (rs_query_info s))))"
      using fdb_set_at [OF c, of "system_var w" "wd_tick w" kp "concat (map pkt_bytes ps)" "qi_cache_ttl (rs_query_info s)"] by blast
    ultimately show ?thesis using True kp fit h
      by (intro exI [of _ qc] exI [of _ "wd_tick w + 1"]) (simp add: cache_result_def fits_def)
  qed
qed

lemma query_completed_ok:
  assumes h: "holds (glovar ''mysql_max_resultset_size'' w) s0 ps s" and ne: "ps \<noteq> []" and ok: "list_all pkt_ok ps" and st: "stats_ready s w"
    and c: "cache_ok (wd_QC w) M" "fresh_addresses sy (wd_QC w)" and k: "ss_query_to_cache s0 \<longrightarrow> checksum_string sy s0 \<noteq> None"
  shows "\<exists>s' w'. query_completed sy s w = Some (s', w') \<and> outs s' = outs s0 @ ps \<and> ss_resultset s' = [] \<and> ss_resultset_progress s' = RESULTSET_WAITING
    \<and> cache_ok (wd_QC w') M \<and> cache_view (wd_QC w') = view_after sy s0 w ps \<and> hg_now (wd_QC w') = hg_now (wd_QC w) \<and> wd_connpool w' = wd_connpool w
    \<and> streams s' = streams s \<and> ss_server_mybe s' = ss_server_mybe s"
proof -
  obtain q ht t where q: "session_statistics sy (s\<lparr>ss_resultset_progress := RESULTSET_WAITING\<rparr>) w
        = Some (s\<lparr>ss_resultset_progress := RESULTSET_WAITING, rs_query_info := q\<rparr>, w\<lparr>wd_stats := ht, wd_tick := t\<rparr>)"
      "qi_query_checksum q = qi_query_checksum (rs_query_info s)" "qi_cache_ttl q = qi_cache_ttl (rs_query_info s)"
    using session_statistics_ok [of "s\<lparr>ss_resultset_progress := RESULTSET_WAITING\<rparr>" w sy] st by (auto simp: stats_ready_def)
  define s3 where "s3 = (sync_server_bytes_at_cmd (s\<lparr>ss_resultset_progress := RESULTSET_WAITING, rs_query_info := q\<rparr>))\<lparr>ss_send_to_slave := False\<rparr>"
  define w3 where "w3 = w\<lparr>wd_stats := ht, wd_tick := t\<rparr>"
  have s3: "ss_resultset s3 = ss_resultset s" "ss_resultset_size s3 = ss_resultset_size s" "ss_query_to_cache s3 = ss_query_to_cache s"
      "ss_client_myds s3 = ss_client_myds s" "rs_query_info s3 = q" "ss_resultset_progress s3 = RESULTSET_WAITING" "ss_mybes s3 = ss_mybes s"
      "ss_server_mybe s3 = ss_server_mybe s" "checksum_string sy s3 = checksum_string sy s0"
    using q(2) h by (simp_all add: s3_def sync_server_bytes_at_cmd_def checksum_string_def holds_def)
  have w3: "wd_QC w3 = wd_QC w" "system_var w3 = system_var w" "glovar x w3 = glovar x w" for x by (simp_all add: w3_def system_var_def glovar_def)
  have size: "ss_resultset_size s3 = sum_list (map pk_length ps)" using h s3(2) by (simp add: holds_def)
  have qc: "ss_query_to_cache s3 \<longleftrightarrow> ss_query_to_cache s0 \<and> int (sum_list (map pk_length ps)) < glovar ''mysql_max_resultset_size'' w"
      "ss_query_to_cache s3 \<Longrightarrow> ss_resultset s3 = ps"
    using h ne size s3 by (auto simp: holds_def split: if_splits)
  obtain hg t' where r: "cache_result sy s3 w3 = Some (w3\<lparr>wd_QC := hg, wd_tick := t'\<rparr>)" "cache_ok hg M" "hg_now hg = hg_now (wd_QC w3)"
      "cache_view hg = (case checksum_string sy s3 of
        None \<Rightarrow> cache_view (wd_QC w3)
      | Some kp \<Rightarrow> if ss_query_to_cache s3 \<and> fits kp (sum_list (map pk_length ps)) (wd_QC w3)
          then (cache_view (wd_QC w3))(kp \<mapsto> (concat (map pkt_bytes ps), entry_expire (system_var w3) (wd_QC w3) (qi_cache_ttl (rs_query_info s3))))
          else cache_view (wd_QC w3))"
    using cache_result_ok [OF size qc(2) ok, of w3 M sy] c k qc(1) s3(9) w3(1) by auto
  define s4 where "s4 = (if within_limit s3 w then (client_output (ss_resultset s3) s3)\<lparr>ss_resultset := []\<rparr> else s3)"
  have wl: "within_limit s3 (w3\<lparr>wd_QC := hg, wd_tick := t'\<rparr>) = within_limit s3 w" by (simp add: within_limit_def glovar_def w3_def)
  have "query_completed sy s w = Some (s4, w3\<lparr>wd_QC := hg, wd_tick := t'\<rparr>)"
    using wl by (simp add: query_completed_def q(1) s3_def [symmetric] w3_def [symmetric] r(1) s4_def)
  moreover have "cache_view hg = view_after sy s0 w ps"
    unfolding r(4) view_after_def using qc(1) h s3(5,9) q(3) w3 by (simp add: holds_def split: option.split)
  moreover have "outs s4 = outs s0 @ ps" "ss_resultset s4 = []"
    using h s3(1,2,4) ne by (auto simp: s4_def holds_def relayed_def within_limit_def outs_def client_output_def out_pkts_def split: if_splits)
  moreover have "ss_resultset_progress s4 = RESULTSET_WAITING" "streams s4 = streams s" "ss_server_mybe s4 = ss_server_mybe s"
    using s3(6-8) by (simp_all add: s4_def client_output_def streams_def)
  ultimately show ?thesis using r(2,3) by (intro exI [of _ s4] exI [of _ "w3\<lparr>wd_QC := hg, wd_tick := t'\<rparr>"]) (simp add: w3_def)
qed

lemma result_end_ok:
  assumes "mysql_hostgroups w \<le> length (ss_mybes s)" and "pools_ok (wd_connpool w)" and "conns_ok s" and "server_myds s \<noteq> None"
  shows "\<exists>s' w'. result_end sy s w = Some (s', w') \<and> pools_ok (wd_connpool w')
    \<and> (\<exists>bs. s' = s\<lparr>ss_resultset_progress := RESULTSET_COMPLETED, ss_mybes := bs, ss_nfds := 1\<rparr>) \<and> streams s' = streams s
    \<and> (\<exists>cp cl t. w' = w\<lparr>wd_connpool := cp, wd_closed := cl, wd_tick := t\<rparr>)"
proof -
  let ?s = "s\<lparr>ss_resultset_progress := RESULTSET_COMPLETED\<rparr>"
  have a: "\<forall>i \<in> set [0..<mysql_hostgroups w]. i < length (ss_mybes ?s)" "conns_ok ?s" "server_myds ?s \<noteq> None"
    using assms(1,3,4) server_myds_cong [of ?s s] by (simp_all add: conns_ok_def conns_def streams_def)
  obtain s' w' where d: "detach_loop sy [0..<mysql_hostgroups w] ?s w = Some (s', w')" "frame ?s w s' w'" "pools_ok (wd_connpool w')"
    using detach_loop_ok [OF a(1) assms(2) a(2,3), of sy] by (elim exE conjE) (rule that)
  obtain bs cp cl t where f: "s' = ?s\<lparr>ss_mybes := bs\<rparr>" "w' = w\<lparr>wd_connpool := cp, wd_closed := cl, wd_tick := t\<rparr>" "streams s' = streams ?s"
    using d(2) by (rule frameE)
  have "result_end sy s w = Some (s'\<lparr>ss_nfds := 1\<rparr>, w')" using d(1) by (simp add: result_end_def)
  moreover have "s'\<lparr>ss_nfds := 1\<rparr> = s\<lparr>ss_resultset_progress := RESULTSET_COMPLETED, ss_mybes := bs, ss_nfds := 1\<rparr>" by (simp add: f(1))
  moreover have "streams (s'\<lparr>ss_nfds := 1\<rparr>) = streams s" using f(3) by (simp add: streams_def)
  ultimately show ?thesis using d(3) f(2) by blast
qed

text \<open>The packets that end a result.\<close>

definition ends :: "response_type \<Rightarrow> 'a mysql_session_scheme \<Rightarrow> bool" where
  "ends r s \<longleftrightarrow> r = EOF_Packet \<and> ss_resultset_progress s \<noteq> RESULTSET_COLUMN_DEFINITIONS
     \<or> r = OK_Packet \<and> ss_resultset_progress s = RESULTSET_WAITING \<or> r = ERR_Packet"

lemma query_progress_end:
  assumes "ends r s" and "mysql_hostgroups w \<le> length (ss_mybes s)" and "pools_ok (wd_connpool w)" and "conns_ok s" and "server_myds s \<noteq> None"
  shows "\<exists>s' w'. query_progress sy r s w = Some (s', w') \<and> pools_ok (wd_connpool w')
    \<and> (\<exists>bs. s' = s\<lparr>ss_resultset_progress := RESULTSET_COMPLETED, ss_mybes := bs, ss_nfds := 1\<rparr>) \<and> streams s' = streams s
    \<and> (\<exists>cp cl t. w' = w\<lparr>wd_connpool := cp, wd_closed := cl, wd_tick := t\<rparr>)"
proof (cases "r = ERR_Packet")
  case True
  define s' where "s' = s\<lparr>ss_resultset_progress := RESULTSET_COMPLETED, ss_mybes := ss_mybes s, ss_nfds := 1\<rparr>"
  have "query_progress sy r s w = Some (s', w)" "streams s' = streams s" using True by (simp_all add: query_progress_def s'_def streams_def)
  then show ?thesis using assms(3) by (intro exI [of _ s'] exI [of _ w] exI [of _ "ss_mybes s"] conjI world_same) (simp_all add: s'_def)
next
  case False
  then have "query_progress sy r s w = result_end sy s w" using assms(1) by (auto simp: ends_def query_progress_def)
  then show ?thesis using result_end_ok [OF assms(2-5), of sy] by simp
qed

definition ready :: "sys \<Rightarrow> (nat \<times> nat) multiset \<Rightarrow> 'a mysql_session_scheme \<Rightarrow> 'w world_scheme \<Rightarrow> bool" where
  "ready sy M s w \<longleftrightarrow> mysql_hostgroups w \<le> length (ss_mybes s) \<and> pools_ok (wd_connpool w) \<and> conns_ok s \<and> stats_ready s w
     \<and> cache_ok (wd_QC w) M \<and> fresh_addresses sy (wd_QC w) \<and> (ss_query_to_cache s \<longrightarrow> checksum_string sy s \<noteq> None)"

definition delivered :: "sys \<Rightarrow> (nat \<times> nat) multiset \<Rightarrow> 'a mysql_session_scheme \<Rightarrow> 'w world_scheme \<Rightarrow> pkt list \<Rightarrow> 'a mysql_session_scheme \<Rightarrow> 'w world_scheme \<Rightarrow> bool" where
  "delivered sy M s0 w ps s' w' \<longleftrightarrow> outs s' = outs s0 @ ps \<and> ss_resultset s' = [] \<and> ss_resultset_progress s' = RESULTSET_WAITING
     \<and> (\<exists>d. server_myds s' = Some d \<and> ud_pkts (ds_input d) = []) \<and> pools_ok (wd_connpool w')
     \<and> cache_ok (wd_QC w') M \<and> cache_view (wd_QC w') = view_after sy s0 w ps \<and> hg_now (wd_QC w') = hg_now (wd_QC w)"

lemma server_query_end:
  assumes h: "holds (glovar ''mysql_max_resultset_size'' w) s0 done s" and r: "ends r s" and o: "offers i [] s"
    and ok: "list_all pkt_ok (done @ [p])" and cn: "conns s = conns s0" and rd: "ready sy M s0 w"
  shows "\<exists>s' w'. server_COM_QUERY sy p r s w = Some (s', w') \<and> delivered sy M s0 w (done @ [p]) s' w'"
proof -
  have "length (ss_mybes s) = length (ss_mybes s0)" using cn unfolding conns_def by (rule map_eq_imp_length_eq)
  then have hg: "mysql_hostgroups w \<le> length (ss_mybes s)" "pools_ok (wd_connpool w)" "conns_ok s" and c: "cache_ok (wd_QC w) M" "fresh_addresses sy (wd_QC w)"
    and st: "stats_ready s w" and k: "ss_query_to_cache s0 \<longrightarrow> checksum_string sy s0 \<noteq> None"
    using rd cn h by (simp_all add: ready_def conns_ok_def stats_ready_def holds_def)
  obtain d where d: "server_myds s = Some d" "ud_pkts (ds_input d) = []" using o by (auto simp: offers_def server_myds_def)
  then have sm: "server_myds s \<noteq> None" by simp
  obtain s1 w1 bs cp cl t where e: "query_progress sy r s w = Some (s1, w1)" "pools_ok (wd_connpool w1)"
      "s1 = s\<lparr>ss_resultset_progress := RESULTSET_COMPLETED, ss_mybes := bs, ss_nfds := 1\<rparr>" "streams s1 = streams s"
      "w1 = w\<lparr>wd_connpool := cp, wd_closed := cl, wd_tick := t\<rparr>"
    using query_progress_end [OF r hg sm, of sy] by (elim exE conjE) (rule that)
  have g: "glovar x w1 = glovar x w" "wd_QC w1 = wd_QC w" "system_var w1 = system_var w" for x by (simp_all add: e(5) glovar_def system_var_def)
  have v: "view_after sy s0 w1 (done @ [p]) = view_after sy s0 w (done @ [p])" by (simp only: view_after_def g)
  define s2 where "s2 = store_packet p s1 w1"
  have h1: "holds (glovar ''mysql_max_resultset_size'' w) s0 done s1" using h by (subst holds_cong [of _ s]) (simp_all add: e(3))
  have h2: "holds (glovar ''mysql_max_resultset_size'' w1) s0 (done @ [p]) s2" unfolding s2_def g by (rule holds_store [OF h1]) (simp add: g)
  have pr2: "ss_resultset_progress s2 = RESULTSET_COMPLETED" "streams s2 = streams s" "ss_server_mybe s2 = ss_server_mybe s"
    using e(4) by (simp_all add: s2_def streams_def, simp_all add: e(3))
  have st2: "stats_ready s2 w1" using st by (simp add: stats_ready_def g s2_def e(3))
  have ne: "done @ [p] \<noteq> []" by simp
  have eq: "server_COM_QUERY sy p r s w = query_completed sy s2 w1" using e(1) pr2(1) by (simp add: server_COM_QUERY_def s2_def)
  obtain s' w' where q: "query_completed sy s2 w1 = Some (s', w')" "outs s' = outs s0 @ done @ [p]" "ss_resultset s' = []"
      "ss_resultset_progress s' = RESULTSET_WAITING" "cache_ok (wd_QC w') M" "cache_view (wd_QC w') = view_after sy s0 w1 (done @ [p])"
      "hg_now (wd_QC w') = hg_now (wd_QC w1)" "wd_connpool w' = wd_connpool w1" "streams s' = streams s2" "ss_server_mybe s' = ss_server_mybe s2"
    using query_completed_ok [OF h2 ne ok st2 c [folded g(2)] k] by (elim exE conjE) (rule that)
  have "server_myds s' = Some d" using server_myds_cong [of s' s] q(9,10) pr2(2,3) d(1) by simp
  then show ?thesis unfolding eq delivered_def using q(1-8) e(2) d(2) unfolding v g
    by (intro exI [of _ s'] exI [of _ w'] conjI exI [of _ d]) simp_all
qed

subsection \<open>A whole result\<close>

text \<open>The results of a server: an OK or ERR packet, or a result set, ended by EOF or by an error.\<close>

definition last_pkt :: "pkt \<Rightarrow> bool" where
  "last_pkt p \<longleftrightarrow> eof_pkt p \<or> pkt_ok p \<and> mysql_response p = Some ERR_Packet"

definition single_pkt :: "sys \<Rightarrow> pkt \<Rightarrow> bool" where
  "single_pkt sy p \<longleftrightarrow> pkt_ok p \<and> (mysql_response p = Some OK_Packet \<and> status_readable sy p \<or> mysql_response p = Some ERR_Packet)"

definition result_of :: "sys \<Rightarrow> pkt list \<Rightarrow> bool" where
  "result_of sy ps \<longleftrightarrow> (\<exists>p. ps = [p] \<and> single_pkt sy p)
     \<or> (\<exists>c ds e rs p. ps = ((c # ds) @ e # rs) @ [p] \<and> ds \<noteq> [] \<and> list_all data_pkt (c # ds) \<and> eof_pkt e \<and> list_all data_pkt rs \<and> last_pkt p)"

lemma ready_tick [simp]: "ready sy M s (w\<lparr>wd_tick := t\<rparr>) = ready sy M s w"
  by (simp add: ready_def mysql_hostgroups_def glovar_def stats_ready_def)

lemma delivered_tick: "delivered sy M s (w\<lparr>wd_tick := t\<rparr>) ps s' w' = delivered sy M s w ps s' w'"
proof -
  have "glovar x (w\<lparr>wd_tick := t\<rparr>) = glovar x w" "system_var (w\<lparr>wd_tick := t\<rparr>) = system_var w" for x by (simp_all add: glovar_def system_var_def)
  moreover have "wd_QC (w\<lparr>wd_tick := t\<rparr>) = wd_QC w" by simp
  ultimately show ?thesis by (simp only: delivered_def view_after_def)
qed

lemma glovar_tick [simp]: "glovar x (w\<lparr>wd_tick := t\<rparr>) = glovar x w"
  by (simp add: glovar_def)

lemma data_rows: "(unknown_progress ^^ n) RESULTSET_EOF1 \<in> {RESULTSET_EOF1, RESULTSET_ROWS}"
  by (induction n) (auto simp: unknown_progress_def)

lemma data_columns: "(unknown_progress ^^ Suc (Suc n)) RESULTSET_WAITING = RESULTSET_COLUMN_DEFINITIONS"
  by (induction n) (simp_all add: unknown_progress_def)

lemma server_loop_last:
  assumes h: "holds (glovar ''mysql_max_resultset_size'' w) s0 done s" and o: "offers i [p] s" and r: "mysql_response p = Some r" and e: "ends r s"
    and t: "r = OK_Packet \<or> r = EOF_Packet \<Longrightarrow> status_readable sy p"
    and ok: "list_all pkt_ok (done @ [p])" and cn: "conns s = conns s0" and rd: "ready sy M s0 w"
  shows "\<exists>s' w'. server_loop sy 1 s w = Some (s', w') \<and> delivered sy M s0 w (done @ [p]) s' w'"
proof -
  obtain s1 where s1: "server_loop sy (Suc 0) s w = do { (s', w') \<leftarrow> server_COM_QUERY sy p r s1 (tick w); server_loop sy 0 s' w' }"
      "offers i [] s1" "holds (glovar ''mysql_max_resultset_size'' w) s0 done s1" "ss_resultset_progress s1 = ss_resultset_progress s" "conns s1 = conns s"
    using server_loop_step [OF o h r, of sy 0 w] t by blast
  have e1: "ends r s1" using e s1(4) by (simp add: ends_def)
  have h1: "holds (glovar ''mysql_max_resultset_size'' (tick w)) s0 done s1" and rd1: "ready sy M s0 (tick w)" and cn1: "conns s1 = conns s0"
    using s1(3,5) rd cn by simp_all
  obtain s' w' where q: "server_COM_QUERY sy p r s1 (tick w) = Some (s', w')" "delivered sy M s0 (tick w) (done @ [p]) s' w'"
    using server_query_end [OF h1 e1 s1(2) ok cn1 rd1] by (elim exE conjE) (rule that)
  have "server_loop sy 1 s w = Some (s', w')" using s1(1) q(1) by simp
  then show ?thesis using q(2) unfolding delivered_tick by blast
qed

lemma server_loop_eof1:
  assumes h: "holds (glovar ''mysql_max_resultset_size'' w) s0 done s" and o: "offers i (p # ps) s" and e: "eof_pkt p"
    and pr: "ss_resultset_progress s = RESULTSET_COLUMN_DEFINITIONS"
  shows "\<exists>s'. server_loop sy (Suc n) s w = server_loop sy n s' (tick w) \<and> offers i ps s' \<and> holds (glovar ''mysql_max_resultset_size'' w) s0 (done @ [p]) s'
    \<and> ss_resultset_progress s' = RESULTSET_EOF1 \<and> conns s' = conns s"
proof -
  have r: "mysql_response p = Some EOF_Packet" using e by (simp add: eof_pkt_def)
  obtain s1 where s1: "server_loop sy (Suc n) s w = do { (s', w') \<leftarrow> server_COM_QUERY sy p EOF_Packet s1 (tick w); server_loop sy n s' w' }"
      "offers i ps s1" "holds (glovar ''mysql_max_resultset_size'' w) s0 done s1" "ss_resultset_progress s1 = ss_resultset_progress s" "conns s1 = conns s"
    using server_loop_step [OF o h r, of sy n w] eof_status [OF e] by blast
  define s2 where "s2 = store_packet p (s1\<lparr>ss_resultset_progress := RESULTSET_EOF1\<rparr>) (tick w)"
  have "server_COM_QUERY sy p EOF_Packet s1 (tick w) = Some (s2, tick w)"
    using s1(4) pr by (simp add: server_COM_QUERY_def query_progress_def s2_def)
  moreover have "holds (glovar ''mysql_max_resultset_size'' w) s0 done (s1\<lparr>ss_resultset_progress := RESULTSET_EOF1\<rparr>)"
    using s1(3) by (subst holds_cong [of _ s1]) simp_all
  then have "holds (glovar ''mysql_max_resultset_size'' w) s0 (done @ [p]) s2" unfolding s2_def by (rule holds_store) simp
  ultimately show ?thesis using s1(1,2,5) by (intro exI [of _ s2]) (simp add: s2_def conns_def)
qed

lemma result_loop:
  assumes rs: "result_of sy ps" and h: "holds (glovar ''mysql_max_resultset_size'' w) s [] s" and o: "offers i ps s"
    and pr: "ss_resultset_progress s = RESULTSET_WAITING" and rd: "ready sy M s w"
  shows "\<exists>s' w'. server_loop sy (length ps) s w = Some (s', w') \<and> delivered sy M s w ps s' w'"
proof -
  consider (single) p where "ps = [p]" "single_pkt sy p"
    | (set) c ds e rs p where "ps = ((c # ds) @ e # rs) @ [p]" "ds \<noteq> []" "list_all data_pkt (c # ds)" "eof_pkt e" "list_all data_pkt rs" "last_pkt p"
    using rs unfolding result_of_def by blast
  then show ?thesis
  proof cases
    case single
    then obtain r where r: "mysql_response p = Some r" "ends r s" "r = OK_Packet \<or> r = EOF_Packet \<Longrightarrow> status_readable sy p" "pkt_ok p"
      using pr by (auto simp: single_pkt_def ends_def)
    show ?thesis using server_loop_last [OF h _ r(1,2) r(3) _ refl rd, of i] o r(4) single(1) by simp
  next
    case set
    let ?mx = "glovar ''mysql_max_resultset_size'' w" and ?n = "Suc (length rs + 1)" and ?w1 = "w\<lparr>wd_tick := wd_tick w + length (c # ds)\<rparr>"
    have o0: "offers i ((c # ds) @ e # rs @ [p]) s" and nc: "ss_resultset_progress s \<noteq> RESULTSET_COMPLETED" using o set(1) pr by simp_all
    obtain s1 where s1: "server_loop sy (length (c # ds) + ?n) s w = server_loop sy ?n s1 ?w1" "offers i (e # rs @ [p]) s1" "holds ?mx s (c # ds) s1"
        "ss_resultset_progress s1 = (unknown_progress ^^ length (c # ds)) RESULTSET_WAITING" "conns s1 = conns s"
      using server_loop_data [OF set(3) o0 h nc, of sy ?n] unfolding pr append_Nil by (elim exE conjE) (rule that)
    have cd: "ss_resultset_progress s1 = RESULTSET_COLUMN_DEFINITIONS" using s1(4) set(2) data_columns by (cases ds) simp_all
    obtain s2 where s2: "server_loop sy ?n s1 ?w1 = server_loop sy (length rs + 1) s2 (tick ?w1)" "offers i (rs @ [p]) s2" "holds ?mx s ((c # ds) @ [e]) s2"
        "ss_resultset_progress s2 = RESULTSET_EOF1" "conns s2 = conns s1"
      using server_loop_eof1 [of ?w1 s "c # ds" s1 i e "rs @ [p]" sy "length rs + 1"] s1(2,3) set(4) cd by auto
    obtain s3 w3 where s3: "server_loop sy (length rs + 1) s2 (tick ?w1) = server_loop sy 1 s3 (w\<lparr>wd_tick := w3\<rparr>)" "offers i [p] s3"
        "holds ?mx s (((c # ds) @ [e]) @ rs) s3" "ss_resultset_progress s3 = (unknown_progress ^^ length rs) RESULTSET_EOF1" "conns s3 = conns s2"
      using server_loop_data [OF set(5) s2(2), of "tick ?w1" s "(c # ds) @ [e]" sy 1] s2(3,4) by auto
    obtain r where r: "mysql_response p = Some r" "ends r s3" "r = OK_Packet \<or> r = EOF_Packet \<Longrightarrow> status_readable sy p" "pkt_ok p"
      using set(6) s3(4) data_rows [of "length rs"] eof_status [of p sy] by (auto simp: last_pkt_def ends_def eof_pkt_def)
    have ok: "list_all pkt_ok ((((c # ds) @ [e]) @ rs) @ [p])" using set(3-5) r(4) by (auto simp: list_all_iff data_pkt_def eof_pkt_def)
    have h3: "holds (glovar ''mysql_max_resultset_size'' (w\<lparr>wd_tick := w3\<rparr>)) s (((c # ds) @ [e]) @ rs) s3" and cn: "conns s3 = conns s"
      and rd3: "ready sy M s (w\<lparr>wd_tick := w3\<rparr>)"
      using s3(3,5) s1(5) s2(5) rd by simp_all
    have "\<exists>s' w'. server_loop sy 1 s3 (w\<lparr>wd_tick := w3\<rparr>) = Some (s', w') \<and> delivered sy M s (w\<lparr>wd_tick := w3\<rparr>) ((((c # ds) @ [e]) @ rs) @ [p]) s' w'"
      using server_loop_last [OF h3 s3(2) r(1,2) _ ok cn rd3] r(3) by blast
    moreover have "length ps = length (c # ds) + ?n" "ps = (((c # ds) @ [e]) @ rs) @ [p]" using set(1) by simp_all
    ultimately show ?thesis unfolding delivered_tick using s1(1) s2(1) s3(1) by simp
  qed
qed

subsection \<open>Properties\<close>


definition sample_result :: "pkt list" where
  "sample_result = map (\<lambda>d. \<lparr>pk_length = length d, pk_data = Some d\<rparr>)
     [[1, 0, 0, 1, 1], [2, 0, 0, 2, 3, 65], [5, 0, 0, 3, 0xfe, 0, 0, 2, 0], [2, 0, 0, 4, 1, 65], [5, 0, 0, 5, 0xfe, 0, 0, 2, 0]]"

definition sample_query :: mysql_session where
  "sample_query = sample_session\<lparr>ss_client_command := MYSQL_COM_QUERY, ss_server_mybe := Some 0, ss_query_to_cache := True,
     rs_query_info := sample_info\<lparr>qi_query_checksum := Some [113, 97, 98], qi_cache_ttl := 5\<rparr>,
     ss_mybes := [mysql_backend_new\<lparr>be_server_myds := Some (sample_stream\<lparr>ds_input := (ds_input sample_stream)\<lparr>ud_pkts := sample_result\<rparr>\<rparr>)\<rparr>, mysql_backend_new]\<rparr>"

definition cache_world :: world where
  "cache_world = sample_world\<lparr>cf_int := (cf_int sample_world)(''glovars.mysql_max_resultset_size'' := 1000, ''fdb_system_var.hash_expire_max'' := 1000)\<rparr>"

lemma sample_query_sel:
  "ss_client_command sample_query = MYSQL_COM_QUERY" "ss_resultset_progress sample_query = RESULTSET_WAITING" "ss_resultset sample_query = []"
  "ss_resultset_size sample_query = 0" "ss_server_mybe sample_query = Some 0" "outs sample_query = []" "ss_query_to_cache sample_query"
  "checksum_string sample_sys sample_query = Some [99]" "qi_cache_ttl (rs_query_info sample_query) = 5" "length (ss_mybes sample_query) = 2"
  "conns sample_query = [None, None]" "qi_query_checksum (rs_query_info sample_query) = Some [113, 97, 98]"
  by (simp_all add: sample_query_def outs_def checksum_string_def sample_sys_def conns_def mysql_backend_new_def)
    (simp_all add: sample_session_def rule_sess.defs mysql_session.defs sample_stream_def mysql_data_stream_new_def uni_ds_new_def)

lemma sample_result_of: "result_of sy sample_result"
proof -
  let ?p = "\<lambda>d :: byte list. \<lparr>pk_length = length d, pk_data = Some d\<rparr>"
  have "sample_result = ((?p [1, 0, 0, 1, 1] # [?p [2, 0, 0, 2, 3, 65]]) @ ?p [5, 0, 0, 3, 0xfe, 0, 0, 2, 0] # [?p [2, 0, 0, 4, 1, 65]]) @ [?p [5, 0, 0, 5, 0xfe, 0, 0, 2, 0]]"
    by (simp add: sample_result_def)
  then show ?thesis unfolding result_of_def
    by (intro disjI2 exI conjI) (assumption | simp add: data_pkt_def eof_pkt_def last_pkt_def pkt_ok_def framed_def hdr_pkt_length_def mysql_response_def mem_read_def hdr_size_def)+
qed

lemma cache_world_sel:
  "glovar ''mysql_max_resultset_size'' cache_world = 1000" "glovar ''mysql_query_statistics'' cache_world = 0" "mysql_hostgroups cache_world = 2"
  "wd_QC cache_world = fdb_hashes_new 1 10 1000 5" "wd_connpool cache_world = local_mysql_connpool_init True" "sv_hash_expire_max (system_var cache_world) = 1000"
  by (simp_all add: cache_world_def sample_world_def glovar_def mysql_hostgroups_def system_var_def)

lemma sample_query_ready: "ready sample_sys {#} sample_query cache_world"
  using cache_ok_new [of 1 5 10 1000]
  by (simp add: ready_def cache_world_sel sample_query_sel stats_ready_def conns_ok_def fresh_addresses_def)
    (simp add: pools_ok_def local_mysql_connpool_init_def fdb_hashes_new_def new_partition_def)

lemma sample_fits: "fits [99] (sum_list (map pk_length sample_result)) (wd_QC cache_world)" "sum_list (map pk_length sample_result) = 35"
  by (simp_all add: fits_def cache_world_sel sample_result_def fdb_hashes_new_def fdb_hashes_group_free_mem_def entry_meta_def)


lemma cache_lookup:
  assumes "cache_ok (wd_QC w) M" and "compute_query_checksum s = Some s1" and "checksum_string sy s1 = Some k"
    and "cache_view (wd_QC w) k = Some (v, x)" and "hg_now (wd_QC w) < x" and "stats_ready s w"
  shows "\<exists>s' w'. get_result_from_mysql_query_cache sy s w = Some (0, s', w') \<and> outs s' = outs s @ [\<lparr>pk_length = length v, pk_data = Some v\<rparr>]
    \<and> ss_mysql_query_cache_hit s' \<and> cache_ok (wd_QC w') M \<and> cache_view (wd_QC w') = cache_view (wd_QC w)"
proof -
  obtain hg where g: "fdb_get k (wd_QC w) = Some (Some v, hg)" "cache_ok hg M" "cache_view hg = cache_view (wd_QC w)"
    using assms(4,5) by (auto intro: fdb_get_result [OF assms(1), of k])
  define s2 where "s2 = (MY_SESS_ADD_PKT_OUT_CLIENT \<lparr>pk_length = length v, pk_data = Some v\<rparr> s1)\<lparr>ss_mysql_query_cache_hit := True, ss_query_to_cache := False\<rparr>"
  have s1: "ss_client_myds s1 = ss_client_myds s" "qi_query_stats (rs_query_info s1) = qi_query_stats (rs_query_info s)"
    using assms(2) by (auto simp: compute_query_checksum_def split: if_splits Option.bind_splits)
  have "stats_ready s2 (w\<lparr>wd_QC := hg\<rparr>)"
    using assms(6) s1(2) by (simp add: stats_ready_def glovar_def s2_def MY_SESS_ADD_PKT_OUT_CLIENT_def)
  then obtain q ht t where st: "session_statistics sy s2 (w\<lparr>wd_QC := hg\<rparr>) = Some (s2\<lparr>rs_query_info := q\<rparr>, w\<lparr>wd_QC := hg, wd_stats := ht, wd_tick := t\<rparr>)"
    using session_statistics_ok [of s2 "w\<lparr>wd_QC := hg\<rparr>" sy] by auto
  have "get_result_from_mysql_query_cache sy s w = Some (0, s2\<lparr>rs_query_info := q\<rparr>, w\<lparr>wd_QC := hg, wd_stats := ht, wd_tick := t\<rparr>)"
    using assms(2,3) g(1) st by (simp add: get_result_from_mysql_query_cache_def s2_def [symmetric])
  moreover have "outs (s2\<lparr>rs_query_info := q\<rparr>) = outs s @ [\<lparr>pk_length = length v, pk_data = Some v\<rparr>]"
    using s1(1) by (simp add: s2_def outs_def MY_SESS_ADD_PKT_OUT_CLIENT_def out_pkts_def)
  ultimately show ?thesis using g(2,3)
    by (intro exI [of _ "s2\<lparr>rs_query_info := q\<rparr>"] exI [of _ "w\<lparr>wd_QC := hg, wd_stats := ht, wd_tick := t\<rparr>"]) (simp add: s2_def)
qed

definition statement_of :: "'a rule_sess_scheme \<Rightarrow> byte list \<Rightarrow> cstr \<Rightarrow> cstr \<Rightarrow> bool" where
  "statement_of s q u sc \<longleftrightarrow> qi_query_checksum (rs_query_info s) = None \<and> qi_query (rs_query_info s) = Some q \<and> as_username s = Some u \<and> as_schema_cur s = Some sc"

lemma cache_hit:
  assumes "cache_ok (wd_QC w) M" and "statement_of s q u sc" and "cache_view (wd_QC w) (sy_checksum sy (q @ u @ sc)) = Some (v, x)"
    and "hg_now (wd_QC w) < x" and "stats_ready s w"
  shows "\<exists>s' w'. get_result_from_mysql_query_cache sy s w = Some (0, s', w') \<and> outs s' = outs s @ [\<lparr>pk_length = length v, pk_data = Some v\<rparr>]
    \<and> ss_mysql_query_cache_hit s' \<and> cache_ok (wd_QC w') M \<and> cache_view (wd_QC w') = cache_view (wd_QC w)"
proof (rule cache_lookup [OF assms(1) _ _ assms(3-5)])
  show "compute_query_checksum s = Some (upd_info (\<lambda>i. i\<lparr>qi_query_checksum := Some (q @ u @ sc)\<rparr>) s)"
    using assms(2) by (simp add: compute_query_checksum_def statement_of_def)
qed (simp add: checksum_string_def)

text \<open>
  C3. From the server through the cache to another client: a result that was relayed and stored is
  served, as long as the cache holds it, to the next session that sends the same statement with the
  same user and schema, as one block with exactly the bytes of all its packets.
\<close>

theorem cached_result_replayed:
  assumes "ss_client_command sess = MYSQL_COM_QUERY" and "ss_resultset_progress sess = RESULTSET_WAITING"
    and "ss_resultset sess = []" and "ss_resultset_size sess = 0"
    and "ss_server_mybe sess = Some i" and "backend sess i = Some mybe" and "be_server_myds mybe = Some myds"
    and "ud_pkts (ds_input myds) = ps" and "result_of sy ps" and "ready sy M sess w"
    and "ss_query_to_cache sess" and "qi_query_checksum (rs_query_info sess) = Some (q @ u @ sc)"
    and "int (sum_list (map pk_length ps)) < glovar ''mysql_max_resultset_size'' w"
    and "fits (sy_checksum sy (q @ u @ sc)) (sum_list (map pk_length ps)) (wd_QC w)"
    and "0 < qi_cache_ttl (rs_query_info sess)" and "qi_cache_ttl (rs_query_info sess) \<le> int (sv_hash_expire_max (system_var w))"
    and "statement_of sess2 q u sc"
  shows "\<exists>sess' w'. process_server_pkts sy sess w = Some (sess', w') \<and> outs sess' = outs sess @ ps
    \<and> (\<forall>w2 :: 'w world_scheme. wd_QC w2 = wd_QC w' \<longrightarrow> stats_ready sess2 w2 \<longrightarrow>
         (\<exists>sess2' w3. get_result_from_mysql_query_cache sy sess2 w2 = Some (0, sess2', w3)
            \<and> outs sess2' = outs sess2 @ [\<lparr>pk_length = length (concat (map pkt_bytes ps)), pk_data = Some (concat (map pkt_bytes ps))\<rparr>]))"
proof -
  let ?v = "concat (map pkt_bytes ps)" and ?x = "entry_expire (system_var w) (wd_QC w) (qi_cache_ttl (rs_query_info sess))"
  have o: "offers i ps sess" using assms(1,5-8) by (simp add: offers_def)
  have h: "holds (glovar ''mysql_max_resultset_size'' w) sess [] sess" using assms(3,4) by (simp add: holds_def relayed_def)
  obtain sess' w' where r: "server_loop sy (length ps) sess w = Some (sess', w')" "delivered sy M sess w ps sess' w'"
    using result_loop [OF assms(9) h o assms(2,10)] by blast
  have p: "process_server_pkts sy sess w = Some (sess', w')" using r(1) assms(5-8) by (simp add: process_server_pkts_def server_myds_def)
  have v: "cache_view (wd_QC w') (sy_checksum sy (q @ u @ sc)) = Some (?v, ?x)"
    using r(2) assms(11-14) by (simp add: delivered_def view_after_def checksum_string_def)
  have x: "hg_now (wd_QC w') < ?x" using r(2) assms(15,16) by (simp add: delivered_def entry_expire_def new_entry_def)
  have d: "cache_ok (wd_QC w') M" "outs sess' = outs sess @ ps" using r(2) by (simp_all add: delivered_def)
  have "\<exists>sess2' w3. get_result_from_mysql_query_cache sy sess2 w2 = Some (0, sess2', w3)
      \<and> outs sess2' = outs sess2 @ [\<lparr>pk_length = length ?v, pk_data = Some ?v\<rparr>]"
    if "wd_QC w2 = wd_QC w'" "stats_ready sess2 w2" for w2 :: "'w world_scheme"
    using cache_hit [OF d(1) [folded that(1)] assms(17) v [folded that(1)] x [folded that(1)] that(2)] by blast
  then show ?thesis using p d(2) by blast
qed

theorem cached_result_replayed_witness:
  "\<exists>sess' w' sess2' w3. process_server_pkts sample_sys sample_query cache_world = Some (sess', w')
    \<and> get_result_from_mysql_query_cache sample_sys (sample_session\<lparr>rs_query_info := sample_info\<lparr>qi_query := Some [113]\<rparr>\<rparr>) (cache_world\<lparr>wd_QC := wd_QC w'\<rparr>) = Some (0, sess2', w3)
    \<and> outs sess2' = [\<lparr>pk_length = 35, pk_data = Some (concat (map pkt_bytes sample_result))\<rparr>]"
proof -
  let ?d = "sample_stream\<lparr>ds_input := (ds_input sample_stream)\<lparr>ud_pkts := sample_result\<rparr>\<rparr>"
  let ?b = "mysql_backend_new\<lparr>be_server_myds := Some ?d\<rparr>"
  let ?s = "sample_session\<lparr>rs_query_info := sample_info\<lparr>qi_query := Some [113]\<rparr>\<rparr>"
  have b: "backend sample_query 0 = Some ?b" "be_server_myds ?b = Some ?d" "ud_pkts (ds_input ?d) = sample_result"
    by (simp_all add: backend_def sample_query_def)
  have s: "statement_of ?s [113] [97] [98]" by (simp add: statement_of_def sample_info_def)
  have o: "outs ?s = []" by (simp add: outs_def sample_stream_def mysql_data_stream_new_def uni_ds_new_def)
  have st: "stats_ready ?s (cache_world\<lparr>wd_QC := hg\<rparr>)" for hg using cache_world_sel(2) by (simp add: stats_ready_def glovar_def)
  have k: "sy_checksum sample_sys b = [99]" for b by (simp add: sample_sys_def)
  have l: "length (concat (map pkt_bytes sample_result)) = 35" by (simp add: sample_result_def pkt_bytes_def)
  obtain sess' w' where r: "process_server_pkts sample_sys sample_query cache_world = Some (sess', w')"
      "\<forall>w2 :: world. wd_QC w2 = wd_QC w' \<longrightarrow> stats_ready ?s w2 \<longrightarrow> (\<exists>sess2' w3. get_result_from_mysql_query_cache sample_sys ?s w2 = Some (0, sess2', w3)
          \<and> outs sess2' = outs ?s @ [\<lparr>pk_length = length (concat (map pkt_bytes sample_result)), pk_data = Some (concat (map pkt_bytes sample_result))\<rparr>])"
    using cached_result_replayed [OF sample_query_sel(1-5) b sample_result_of sample_query_ready sample_query_sel(7), of "[113]" "[97]" "[98]" ?s]
      sample_query_sel(9,12) cache_world_sel(1,6) sample_fits s k by auto
  have "wd_QC (cache_world\<lparr>wd_QC := wd_QC w'\<rparr>) = wd_QC w'" by simp
  then obtain sess2' w3 where "get_result_from_mysql_query_cache sample_sys ?s (cache_world\<lparr>wd_QC := wd_QC w'\<rparr>) = Some (0, sess2', w3)"
      "outs sess2' = outs ?s @ [\<lparr>pk_length = length (concat (map pkt_bytes sample_result)), pk_data = Some (concat (map pkt_bytes sample_result))\<rparr>]"
    using r(2) st by blast
  then show ?thesis using r(1) unfolding o l by (intro exI conjI) simp_all
qed





text \<open>
  With statistics on, a second result of one statement finds no statistics entry any more (the first
  result has handed it over) and the process dies.
\<close>

lemma second_result_without_stats:
  assumes "glovar ''mysql_query_statistics'' w \<noteq> 0" and "qi_query_stats (rs_query_info s) = NullStats" and "r = ERR_Packet"
  shows "server_COM_QUERY sy p r s w = None"
  using assms by (simp add: server_COM_QUERY_def query_progress_def query_completed_def session_statistics_def)

end
