(* ===== verification/Admin.thy ===== *)
theory Admin
  imports Results
begin

section \<open>The administration interface\<close>

text \<open>
  \<^verbatim>\<open>src/admin.c\<close> without the signal handlers, and the two functions of \<^verbatim>\<open>src/admin_sqlite.c\<close> that run a
  statement of an administrator (\<^verbatim>\<open>mysql_pkt_to_sqlite_exec\<close>, \<^verbatim>\<open>mysql_pkt_err_from_sqlite\<close>).

  What SQLite answers is an argument of type \<open>sqlite\<close>; the statements sent to it are collected in
  \<open>wd_sql\<close>. The acknowledgements of the threads in \<^verbatim>\<open>force_remove_servers\<close> are part of it too: they come from
  other threads. The result set of a statement is built in the output array of the session, with
  \<^verbatim>\<open>NULL\<close> in place of the column definitions until these are known, so the array is a list of
  optional packets here; \<open>publish\<close> gives it back to the session, and is \<open>None\<close> if a \<^verbatim>\<open>NULL\<close> is
  left, through which \<^verbatim>\<open>array2buffer\<close> would read.
\<close>

subsection \<open>SQLite\<close>

text \<open>
  The answer to a statement: an error from the preparation, the number of changed rows, an error
  from the execution, or rows; a column is its text (\<^verbatim>\<open>sqlite3_column_text\<close>) with its size (\<^verbatim>\<open>sqlite3_column_bytes\<close>).
\<close>

datatype sqlite_reply = PrepareError cstr | Changes int | StepError cstr | ResultSet "cstr list" "(cstr option \<times> nat) list list"

record sqlite =
  sq_reply :: "nat \<Rightarrow> cstr \<Rightarrow> sqlite_reply"
  sq_users :: "nat \<Rightarrow> (cstr \<times> cstr) list option"
  sq_level_names :: "nat \<Rightarrow> string option"
  sq_levels :: "nat \<Rightarrow> string \<Rightarrow> int list option"
  sq_rules_cnt :: "nat \<Rightarrow> nat"
  sq_rules :: "nat \<Rightarrow> rule_row list \<Rightarrow> rule_row list"
  sq_default_hostgroups :: "nat \<Rightarrow> (cptr \<times> cstr option \<times> cstr option \<times> int) list"
  sq_servers :: "nat \<Rightarrow> (nat \<times> nat \<times> server_row) list"
  sq_acks :: "nat \<Rightarrow> int list"

definition log_sql :: "sqlite_db \<Rightarrow> sql list \<Rightarrow> 'w world_scheme \<Rightarrow> 'w world_scheme" where
  "log_sql db ss w = w\<lparr>wd_sql := wd_sql w @ map (Pair db) ss\<rparr>"

subsection \<open>Running a statement\<close>

definition mysql_pkt_err_from_sqlite :: "(nat \<Rightarrow> byte) \<Rightarrow> cstr \<Rightarrow> pkt option" where
  "mysql_pkt_err_from_sqlite junk s = create_err_packet junk 1 1047 (str ''#08S01'' @ s)"

definition col_size :: "nat \<Rightarrow> nat" where
  "col_size l = (if l = 0 then 1 else l + lencint l)"

fun encode_row :: "(cstr option \<times> nat) list \<Rightarrow> out list option" where
  "encode_row [] = Some []"
| "encode_row ((s, _) # cs) = do { os \<leftarrow> writeencstrnull s; rest \<leftarrow> encode_row cs; Some (os @ rest) }"

definition row_pkt :: "(nat \<Rightarrow> byte) \<Rightarrow> nat \<Rightarrow> (cstr option \<times> nat) list \<Rightarrow> pkt option" where
  "row_pkt junk pkt_id row = do {
     let rowlen = sum_list (map (\<lambda>c. col_size (snd c)) row);
     os \<leftarrow> encode_row row;
     data \<leftarrow> emit (fresh junk (hdr_size + rowlen)) 0 (Put (mysql_hdr rowlen pkt_id) # os);
     Some \<lparr>pk_length = hdr_size + rowlen, pk_data = Some data\<rparr>
   }"

fun row_pkts :: "(nat \<Rightarrow> byte) \<Rightarrow> nat \<Rightarrow> nat \<Rightarrow> (cstr option \<times> nat) list list \<Rightarrow> pkt list option" where
  "row_pkts junk cols rownum [] = Some []"
| "row_pkts junk cols rownum (r # rs) = do {
     p \<leftarrow> row_pkt junk (cols + 3 + rownum) r;
     ps \<leftarrow> row_pkts junk cols (rownum + 1) rs;
     Some (p # ps)
   }"

text \<open>The arguments \<^verbatim>\<open>100\<close> and \<^verbatim>\<open>MYSQL_TYPE_VARCHAR\<close> (15).\<close>

definition named_column :: "cstr \<Rightarrow> column" where
  "named_column s = \<lparr>col_schema = [], col_table = [], col_org_table = [], col_name = s, col_org_name = [],
     col_length = 100, col_type = 15, col_flags = 0, col_decimals = 0\<rparr>"

text \<open>The loop that puts each column definition at the end and removes the place holder in front of it.\<close>

fun place_defs :: "(nat \<Rightarrow> byte) \<Rightarrow> nat \<Rightarrow> cstr list \<Rightarrow> pkt option list \<Rightarrow> pkt option list option" where
  "place_defs junk col [] pkts = Some pkts"
| "place_defs junk col (s # ss) pkts = do {
     p \<leftarrow> myproto_column_def junk (col + 2) (named_column s);
     place_defs junk (col + 1) ss (remove_index_fast (col + 1) (pkts @ [Some p]))
   }"

definition result_set_pkts :: "(nat \<Rightarrow> byte) \<Rightarrow> cstr list \<Rightarrow> (cstr option \<times> nat) list list \<Rightarrow> pkt option list \<Rightarrow> pkt option list option" where
  "result_set_pkts junk names rows pkts = do {
     let cols = length names;
     count \<leftarrow> myproto_column_count junk 1 cols;
     eof1 \<leftarrow> myproto_eof junk (2 + cols) 0 34;
     rs \<leftarrow> row_pkts junk cols 0 rows;
     pkts \<leftarrow> place_defs junk 0 names (pkts @ [Some count] @ replicate cols None @ [Some eof1] @ map Some rs);
     eof2 \<leftarrow> myproto_eof junk (3 + cols + length rows) 0 34;
     Some (pkts @ [Some eof2])
   }"

definition publish :: "pkt option list \<Rightarrow> 'a mysql_session_scheme \<Rightarrow> 'a mysql_session_scheme option" where
  "publish pkts sess =
     (if None \<in> set pkts then None
      else Some (sess\<lparr>ss_client_myds := (ss_client_myds sess)\<lparr>ds_output := (ds_output (ss_client_myds sess))\<lparr>ud_pkts := map the pkts\<rparr>\<rparr>\<rparr>))"

definition mysql_pkt_to_sqlite_exec ::
    "sys \<Rightarrow> sqlite \<Rightarrow> int \<Rightarrow> pkt \<Rightarrow> 'a mysql_session_scheme \<Rightarrow> 'w world_scheme \<Rightarrow> (int \<times> 'a mysql_session_scheme \<times> 'w world_scheme) option" where
  "mysql_pkt_to_sqlite_exec sy sq thread_id p sess w = do {
     let monitor = (thread_id > glovar ''mysql_threads'' w);
     let db = (if monitor then MonitorDb else AdminDb);
     let w = (if monitor then log_sql db [Exec (str ''PRAGMA query_only = ON'')] w else w);
     query \<leftarrow> query_of p;
     let query_copy = c_string query;
     let junk = sy_junk sy (wd_tick w);
     let reply = sq_reply sq (wd_tick w) query_copy;
     let w = tick (log_sql db [Exec query_copy] w);
     let w = (if monitor then log_sql db [Exec (str ''PRAGMA query_only = OFF'')] w else w);
     sess \<leftarrow> (case reply of
         PrepareError e \<Rightarrow> do { ep \<leftarrow> mysql_pkt_err_from_sqlite junk e; Some (MY_SESS_ADD_PKT_OUT_CLIENT ep sess) }
       | Changes n \<Rightarrow> do { ok \<leftarrow> myproto_ok_pkt junk 1 (nat (n mod 2 ^ 64)) 0 2 0; Some (MY_SESS_ADD_PKT_OUT_CLIENT ok sess) }
       | StepError e \<Rightarrow> do { ep \<leftarrow> mysql_pkt_err_from_sqlite junk e; Some (MY_SESS_ADD_PKT_OUT_CLIENT ep sess) }
       | ResultSet names rows \<Rightarrow> do {
           pkts \<leftarrow> result_set_pkts junk names rows (map Some (outs sess));
           publish pkts sess
         });
     Some (0, sess, w)
   }"

subsection \<open>Statistics and servers\<close>

definition dump_runtime :: "sqlite_db \<Rightarrow> 'w world_scheme \<Rightarrow> 'w world_scheme option" where
  "dump_runtime db w = do {
     (_, hs) \<leftarrow> sqlite3_dump_runtime_hostgroups (mysql_hostgroups w) (cf_glomysrvs w);
     rules \<leftarrow> cf_query_rules w;
     Some (log_sql db (hs @ snd (sqlite3_dump_runtime_query_rules rules) @ snd (sqlite3_dump_runtime_query_cache (wd_QC w))) w)
   }"

definition update_runtime_statistics :: "sys \<Rightarrow> int \<Rightarrow> 'w world_scheme \<Rightarrow> 'w world_scheme option" where
  "update_runtime_statistics sy admin w =
     (let t = int (sy_time sy (wd_tick w)); w = tick w
      in if admin = 1
         then if t < glovar ''proxy_admin_refresh_status_interval'' w + wd_admindb_lastupdate w then Some w
              else dump_runtime AdminDb (w\<lparr>wd_admindb_lastupdate := t\<rparr>)
         else if t < glovar ''proxy_monitor_refresh_status_interval'' w + wd_monitordb_lastupdate w then Some w
              else dump_runtime MonitorDb (w\<lparr>wd_monitordb_lastupdate := t\<rparr>))"

definition set_glovar :: "string \<Rightarrow> int \<Rightarrow> 'w config_scheme \<Rightarrow> 'w config_scheme" where
  "set_glovar name v w = w\<lparr>cf_int := (cf_int w)(''glovars.'' @ name := v)\<rparr>"

text \<open>Every thread is told to remove its servers; each answers with the number of those that are still in use.\<close>

definition force_remove_servers :: "sqlite \<Rightarrow> 'w world_scheme \<Rightarrow> int \<times> 'w world_scheme" where
  "force_remove_servers sq w =
     (let default_mysql_poll_timeout = glovar ''mysql_poll_timeout'' w;
          w = set_glovar ''mysql_poll_timeout'' (glovar ''mysql_poll_timeout_maintenance'' w) w;
          warnings = sum_list (take (nat (glovar ''mysql_threads'' w)) (sq_acks sq (wd_tick w)));
          w = set_glovar ''mysql_poll_timeout'' default_mysql_poll_timeout w
      in (warnings, tick w))"

subsection \<open>The commands\<close>

definition to_lower :: "byte \<Rightarrow> byte" where
  "to_lower c = (if 65 \<le> c \<and> c \<le> 90 then c + 32 else c)"

text \<open>
  \<^verbatim>\<open>strncasecmp\<close> (\<open>f = to_lower\<close>) and \<^verbatim>\<open>strncmp\<close> (\<open>f = id\<close>) as tests for equality: both sides are memory that
  is read up to the first difference, a common zero byte, or \<open>n\<close> bytes.
\<close>

fun strn_eq :: "(byte \<Rightarrow> byte) \<Rightarrow> nat \<Rightarrow> byte list \<Rightarrow> byte list \<Rightarrow> bool option" where
  "strn_eq f 0 a m = Some True"
| "strn_eq f (Suc n) (c # a) (d # m) = (if f c \<noteq> f d then Some False else if c = 0 then Some True else strn_eq f n a m)"
| "strn_eq f (Suc n) a m = None"

text \<open>The comparison with a command: the length of the statement is the limit.\<close>

definition is_command :: "string \<Rightarrow> byte list \<Rightarrow> bool" where
  "is_command s q \<longleftrightarrow> strn_eq to_lower (length q) (str s @ [0]) q = Some True"

definition query_pkt :: "(nat \<Rightarrow> byte) \<Rightarrow> byte list \<Rightarrow> pkt" where
  "query_pkt junk q = \<lparr>pk_length = length q + hdr_size + 1, pk_data = Some (fresh junk hdr_size @ [3] @ q)\<rparr>"

text \<open>The texts that replace \<^verbatim>\<open>SHOW TABLES\<close> and, up to the name of the table, \<^verbatim>\<open>SHOW CREATE TABLE\<close>; 39 is the quote.\<close>

definition select_tables :: cstr where
  "select_tables = str ''SELECT name AS tables FROM sqlite_master WHERE type='' @ [39] @ str ''table'' @ [39]"

definition select_table :: cstr where
  "select_table = str ''SELECT name AS '' @ [39] @ str ''table'' @ [39] @ str '' , sql AS '' @ [39] @ str ''Create Table'' @ [39]
     @ str '' FROM sqlite_master WHERE type='' @ [39] @ str ''table'' @ [39] @ str '' AND name='' @ [39]"

definition rewrite_show_tables :: "(nat \<Rightarrow> byte) \<Rightarrow> pkt \<Rightarrow> pkt option" where
  "rewrite_show_tables junk p = do {
     q \<leftarrow> query_of p;
     Some (if is_command ''SHOW TABLES'' q then query_pkt junk select_tables else p)
   }"

text \<open>
  \<^verbatim>\<open>snprintf(buff, l, "...name='%s'", name)\<close>: the name is a C string that starts in the packet; a name without
  a zero byte goes on behind the packet (\<open>after\<close>).
\<close>

definition rewrite_show_create_table :: "(nat \<Rightarrow> byte) \<Rightarrow> byte list \<Rightarrow> pkt \<Rightarrow> pkt option" where
  "rewrite_show_create_table junk after p = do {
     q \<leftarrow> query_of p;
     let strA = str ''SHOW CREATE TABLE '';
     eq \<leftarrow> strn_eq to_lower (length strA) (strA @ [0]) (q @ after);
     if eq
     then do {
       let l = length select_table + 1 + length q - length strA;
       name \<leftarrow> read_cstr (q @ after) (length strA);
       let printed = take (l - 1) (select_table @ name @ [39]);
       let buff = printed @ replicate (l - length printed) 0;
       Some (query_pkt junk (buff[l - 1 := 39]))
     }
     else Some p
   }"

definition version_comment :: "byte list" where
  "version_comment = [0x01,0x00,0x00,0x01,0x01,0x27,0x00,0x00,0x02,0x03,0x64,0x65,0x66,0x00,0x00,0x00,0x11,0x40,0x40,0x76,0x65,0x72,0x73,0x69,0x6f,0x6e,0x5f,
     0x63,0x6f,0x6d,0x6d,0x65,0x6e,0x74,0x00,0x0c,0x21,0x00,0x18,0x00,0x00,0x00,0xfd,0x00,0x00,0x1f,0x00,0x00,0x05,0x00,0x00,0x03,0xfe,0x00,0x00,0x02,0x00,
     0x0b,0x00,0x00,0x04,0x0a,0x28,0x50,0x72,0x6f,0x78,0x79,0x53,0x51,0x4c,0x29,0x05,0x00,0x00,0x05,0xfe,0x00,0x00,0x02,0x00]"

definition admin_version_comment_pkt :: pkt where
  "admin_version_comment_pkt = \<lparr>pk_length = 81, pk_data = Some version_comment\<rparr>"

text \<open>The OK packet that ends every command.\<close>

definition reply_ok :: "sys \<Rightarrow> int \<Rightarrow> int \<Rightarrow> 'a mysql_session_scheme \<Rightarrow> 'w world_scheme \<Rightarrow> ('a mysql_session_scheme \<times> 'w world_scheme) option" where
  "reply_ok sy affected_rows warnings sess w = do {
     ok \<leftarrow> myproto_ok_pkt (sy_junk sy (wd_tick w)) 1 (nat (affected_rows mod 2 ^ 64)) 0 2 (nat (warnings mod 2 ^ 16));
     Some (MY_SESS_ADD_PKT_OUT_CLIENT ok sess, tick w)
   }"

definition sync_if :: "string \<Rightarrow> 'w world_scheme \<Rightarrow> 'w world_scheme" where
  "sync_if var w = (if glovar var w = 1 then log_sql AdminDb (snd sqlite3_config_sync_mem_to_disk) w else w)"

definition flush_query_cache :: "'w world_scheme \<Rightarrow> (int \<times> 'w world_scheme) option" where
  "flush_query_cache w = do { (n, qc) \<leftarrow> fdb_truncate_all (wd_QC w); Some (int n, w\<lparr>wd_QC := qc\<rparr>) }"

definition flush_debug :: "sqlite \<Rightarrow> 'w world_scheme \<Rightarrow> (int \<times> 'w world_scheme) option" where
  "flush_debug sq w = do {
     (n, ls) \<leftarrow> sqlite3_flush_debug_levels_db_to_mem (sq_level_names sq) (sq_levels sq (wd_tick w)) (cf_gdbg_lvl w);
     Some (n, (tick w)\<lparr>cf_gdbg_lvl := ls\<rparr>)
   }"

definition flush_users_command :: "sqlite \<Rightarrow> 'w world_scheme \<Rightarrow> (int \<times> 'w world_scheme) option" where
  "flush_users_command sq w =
     (let (n, us) = sqlite3_flush_users_db_to_mem (sq_users sq (wd_tick w)) (cf_users w) in Some (n, (tick w)\<lparr>cf_users := us\<rparr>))"

definition flush_query_rules :: "sys \<Rightarrow> sqlite \<Rightarrow> 'w world_scheme \<Rightarrow> (int \<times> 'w world_scheme) option" where
  "flush_query_rules sy sq w = do {
     (n, rules) \<leftarrow> sqlite3_flush_query_rules_db_to_mem (sy_regex sy) (glovar ''mysql_hostgroups'' w) (glovar ''mysql_query_cache_default_timeout'' w)
                     (sq_rules_cnt sq (wd_tick w)) (sq_rules sq (wd_tick w)) (cf_query_rules w);
     Some (n, (tick w)\<lparr>cf_query_rules := Some rules\<rparr>)
   }"

definition flush_default_hostgroups :: "sqlite \<Rightarrow> 'w world_scheme \<Rightarrow> (int \<times> 'w world_scheme) option" where
  "flush_default_hostgroups sq w = do {
     (n, dhg) \<leftarrow> sqlite3_flush_default_hostgroups_db_to_mem (sq_default_hostgroups sq (wd_tick w)) (wd_DefHG w);
     Some (n, (tick w)\<lparr>wd_DefHG := dhg\<rparr>)
   }"

definition flush_hostgroups :: "sqlite \<Rightarrow> 'w world_scheme \<Rightarrow> (int \<times> 'w world_scheme) option" where
  "flush_hostgroups sq w = do {
     (n, gs) \<leftarrow> sqlite3_flush_servers_db_to_mem (mysql_hostgroups w) (sq_servers sq (wd_tick w)) (cf_glomysrvs w);
     Some (n, (tick w)\<lparr>cf_glomysrvs := gs\<rparr>)
   }"

text \<open>A flush command, its reply, and the copy to disk if it is configured.\<close>

definition flush_reply :: "sys \<Rightarrow> ('w world_scheme \<Rightarrow> (int \<times> 'w world_scheme) option) \<Rightarrow> 'a mysql_session_scheme \<Rightarrow> 'w world_scheme \<Rightarrow> ('a mysql_session_scheme \<times> 'w world_scheme) option" where
  "flush_reply sy f sess w = do {
     (affected_rows, w) \<leftarrow> f w;
     (sess, w) \<leftarrow> reply_ok sy affected_rows 0 sess w;
     Some (sess, sync_if ''admin_sync_disk_on_flush'' w)
   }"

definition dump_reply :: "sys \<Rightarrow> sqlite_db \<Rightarrow> int \<times> sql list \<Rightarrow> 'a mysql_session_scheme \<Rightarrow> 'w world_scheme \<Rightarrow> ('a mysql_session_scheme \<times> 'w world_scheme) option" where
  "dump_reply sy db r sess w = reply_ok sy (fst r) 0 sess (log_sql db (snd r) w)"

text \<open>The chain of comparisons; \<open>None\<close> is a statement for SQLite.\<close>

definition admin_command ::
    "sys \<Rightarrow> sqlite \<Rightarrow> byte list \<Rightarrow> 'a mysql_session_scheme \<Rightarrow> 'w world_scheme \<Rightarrow> ('a mysql_session_scheme \<times> 'w world_scheme) option option" where
  "admin_command sy sq q sess w =
     (if is_command ''FLUSH QUERY CACHE'' q
      then Some (do { (n, w) \<leftarrow> flush_query_cache w; reply_ok sy n 0 sess w })
      else if is_command ''FLUSH DEBUG'' q then Some (flush_reply sy (flush_debug sq) sess w)
      else if is_command ''FLUSH USERS'' q then Some (flush_reply sy (flush_users_command sq) sess w)
      else if is_command ''FLUSH QUERY RULES'' q then Some (flush_reply sy (flush_query_rules sy sq) sess w)
      else if is_command ''FLUSH DEFAULT HOSTGROUPS'' q then Some (flush_reply sy (flush_default_hostgroups sq) sess w)
      else if is_command ''FLUSH HOSTGROUPS'' q
      then Some (do {
        (affected_rows, w) \<leftarrow> flush_hostgroups sq w;
        let (warnings, w) = force_remove_servers sq w;
        if affected_rows \<ge> 0
        then do { (sess, w) \<leftarrow> reply_ok sy affected_rows warnings sess w; Some (sess, sync_if ''admin_sync_disk_on_flush'' w) }
        else Some (sess, w)
      })
      else if is_command ''SHUTDOWN'' q
      then Some (do { (sess, w) \<leftarrow> reply_ok sy 0 0 sess (w\<lparr>wd_shutdown := True\<rparr>); Some (sess, sync_if ''admin_sync_disk_on_shutdown'' w) })
      else if is_command ''DUMP RUNTIME QUERY RULES'' q
      then Some (do { rules \<leftarrow> cf_query_rules w; dump_reply sy AdminDb (sqlite3_dump_runtime_query_rules rules) sess w })
      else if is_command ''DUMP RUNTIME QUERY CACHE'' q then Some (dump_reply sy AdminDb (sqlite3_dump_runtime_query_cache (wd_QC w)) sess w)
      else if is_command ''DUMP RUNTIME DEFAULT HOSTGROUPS'' q
      then Some (do { r \<leftarrow> sqlite3_dump_runtime_default_hostgroups (wd_DefHG w); dump_reply sy AdminDb r sess w })
      else if is_command ''CONFIG SYNC TO DISK'' q then Some (dump_reply sy AdminDb sqlite3_config_sync_mem_to_disk sess w)
      else None)"

text \<open>
  The comparison with the statement of the mysql client is \<^verbatim>\<open>strncmp\<close>. \<^verbatim>\<open>mysql_pkt_to_sqlite_exec\<close> never returns -1, so
  the session always stays healthy.
\<close>

definition admin_COM_QUERY ::
    "sys \<Rightarrow> sqlite \<Rightarrow> int \<Rightarrow> pkt \<Rightarrow> 'a mysql_session_scheme \<Rightarrow> 'w world_scheme \<Rightarrow> ('a mysql_session_scheme \<times> 'w world_scheme) option" where
  "admin_COM_QUERY sy sq thread_id p sess w = do {
     let sess = sess\<lparr>ss_mysql_query_cache_hit := True, ss_query_to_cache := False\<rparr>;
     w \<leftarrow> update_runtime_statistics sy (as_admin sess) w;
     p \<leftarrow> rewrite_show_tables (sy_junk sy (wd_tick w)) p;
     p \<leftarrow> rewrite_show_create_table (sy_junk sy (wd_tick w)) (sy_after sy (wd_tick w)) p;
     q \<leftarrow> query_of p;
     if strn_eq id (length q) (str ''select @@version_comment limit 1'' @ [0]) q = Some True
     then Some (MY_SESS_ADD_PKT_OUT_CLIENT admin_version_comment_pkt sess, w)
     else case (if as_admin sess = 1 then admin_command sy sq q sess w else None) of
            Some r \<Rightarrow> r
          | None \<Rightarrow> do {
              (rc, sess, w) \<leftarrow> mysql_pkt_to_sqlite_exec sy sq thread_id p sess w;
              Some (if rc = -1 then sess\<lparr>ss_healthy := False\<rparr> else sess, w)
            }
   }"

subsection \<open>What is taken for a command\<close>

text \<open>Every prefix of a command, the empty statement included, is the command, in any case.\<close>

lemma strn_eq_prefix:
  assumes "\<forall>b \<in> set a. b \<noteq> 0" and "length m \<le> length a"
  shows "strn_eq f (length m) (a @ [0]) m = Some (map f m = map f (take (length m) a))"
  using assms by (induction m arbitrary: a) (auto simp: length_Suc_conv Suc_le_length_iff)

lemma is_command_prefix:
  assumes "\<forall>b \<in> set (str s). b \<noteq> 0" and "length q \<le> length s"
  shows "is_command s q \<longleftrightarrow> map to_lower q = map to_lower (take (length q) (str s))"
  using strn_eq_prefix [OF assms(1), of q to_lower] assms(2) by (simp add: is_command_def str_def)

text \<open>A statement that is longer than the command and has no zero byte is not this command.\<close>

lemma strn_eq_longer:
  assumes "\<forall>b \<in> set m. f b \<noteq> f 0" and "length a < length m"
  shows "strn_eq f (length m) (a @ [0]) m = Some False \<or> (\<exists>b \<in> set a. b = 0)"
  using assms
proof (induction m arbitrary: a)
  case (Cons d m)
  then show ?case by (cases a) auto
qed simp

subsection \<open>Result sets\<close>

text \<open>The reference: the payloads of a text result set, framed with consecutive numbers.\<close>

definition framed_pkt :: "nat \<Rightarrow> byte list \<Rightarrow> pkt" where
  "framed_pkt i payload = \<lparr>pk_length = length payload + 4, pk_data = Some (mysql_hdr (length payload) i @ payload)\<rparr>"

definition numbered :: "nat \<Rightarrow> byte list list \<Rightarrow> pkt list" where
  "numbered i payloads = map (\<lambda>(k, b). framed_pkt k b) (enumerate i payloads)"

definition cell :: "cstr option \<times> nat \<Rightarrow> byte list" where
  "cell c = (case fst c of None \<Rightarrow> [0xfb] | Some s \<Rightarrow> enc_str s)"

definition text_result :: "cstr list \<Rightarrow> (cstr option \<times> nat) list list \<Rightarrow> byte list list" where
  "text_result names rows =
     [writeencint (length names)] @ map (\<lambda>s. column_payload (named_column s)) names @ [[0xfe, 0, 0, 34, 0]]
     @ map (\<lambda>r. concat (map cell r)) rows @ [[0xfe, 0, 0, 34, 0]]"

text \<open>What SQLite promises of a column: \<^verbatim>\<open>NULL\<close> has size 0, a text without zero bytes its length.\<close>

definition cell_ok :: "cstr option \<times> nat \<Rightarrow> bool" where
  "cell_ok c \<longleftrightarrow> (case fst c of None \<Rightarrow> snd c = 0 | Some s \<Rightarrow> snd c = length s \<and> length s < 65536)"

definition row_ok :: "(cstr option \<times> nat) list \<Rightarrow> bool" where
  "row_ok row \<longleftrightarrow> list_all cell_ok row \<and> sum_list (map (\<lambda>c. col_size (snd c)) row) < 2 ^ 24"

lemma numbered_append: "numbered i (xs @ ys) = numbered i xs @ numbered (i + length xs) ys"
  by (simp add: numbered_def enumerate_append_eq)

lemma numbered_Cons: "numbered i (x # xs) = framed_pkt i x # numbered (Suc i) xs"
  by (simp add: numbered_def)

lemma numbered_Nil [simp]: "numbered i [] = []"
  by (simp add: numbered_def)

lemma encode_row_puts:
  assumes "list_all cell_ok row"
  shows "\<exists>bss. encode_row row = Some (map Put bss) \<and> concat bss = concat (map cell row) \<and> length (concat bss) = sum_list (map (\<lambda>c. col_size (snd c)) row)"
  using assms
proof (induction row)
  case Nil
  then show ?case by (intro exI [of _ "[]"]) simp
next
  case (Cons c row)
  obtain s l where c: "c = (s, l)" by force
  obtain bss where b: "encode_row row = Some (map Put bss)" "concat bss = concat (map cell row)" "length (concat bss) = sum_list (map (\<lambda>c. col_size (snd c)) row)"
    using Cons.IH Cons.prems by fastforce
  obtain ass where a: "writeencstrnull s = Some (map Put ass)" "concat ass = cell c" "length (concat ass) = col_size l"
  proof (cases s)
    case None
    then show ?thesis using Cons.prems c by (intro that [of "[[0xfb]]"]) (simp_all add: writeencstrnull_def cell_def cell_ok_def col_size_def)
  next
    case (Some t)
    then have t: "length t < 65536" "l = length t" using Cons.prems c by (simp_all add: cell_ok_def)
    obtain ass where ass: "writeencstrnull (Some t) = Some (map Put ass)" "concat ass = enc_str t" by (rule writeencstrnull_puts [OF t(1)])
    have "length (concat ass) = col_size l" unfolding ass(2) length_enc_str by (simp add: enc_strlen_def col_size_def t(2) lencint_def)
    then show ?thesis using ass Some c by (intro that [of ass]) (simp_all add: cell_def)
  qed
  show ?case using a b c by (intro exI [of _ "ass @ bss"]) simp
qed

lemma row_pkt_framed:
  assumes "row_ok row"
  shows "row_pkt junk i row = Some (framed_pkt i (concat (map cell row)))"
proof -
  obtain bss where b: "encode_row row = Some (map Put bss)" "concat bss = concat (map cell row)" "length (concat bss) = sum_list (map (\<lambda>c. col_size (snd c)) row)"
    using encode_row_puts [of row] assms unfolding row_ok_def by (elim conjE impE exE) blast
  have n: "sum_list (map (\<lambda>c. col_size (snd c)) row) < 2 ^ 24" using assms by (simp add: row_ok_def)
  have "row_pkt junk i row = make_pkt (fresh junk) (sum_list (map (\<lambda>c. col_size (snd c)) row)) i (map Put bss)"
    using b(1) n by (simp add: row_pkt_def make_pkt_def Let_def add.commute)
  then show ?thesis using make_pkt_puts [OF b(3) n refl, of junk i] b(2,3) by (simp add: framed_pkt_def)
qed

lemma row_pkts_numbered:
  "list_all row_ok rows \<Longrightarrow> row_pkts junk cols n rows = Some (numbered (cols + 3 + n) (map (\<lambda>r. concat (map cell r)) rows))"
  by (induction rows arbitrary: n) (simp_all add: row_pkt_framed numbered_Cons)

lemma column_def_framed: "length s < 65536 \<Longrightarrow> myproto_column_def junk i (named_column s) = Some (framed_pkt i (column_payload (named_column s)))"
  using myproto_column_def_spec [of "named_column s" junk i] by (simp add: framed_pkt_def named_column_def)

lemma place_defs_numbered:
  assumes "\<forall>s \<in> set names. length s < 65536" and "length pre = col + 1"
  shows "place_defs junk col names (pre @ replicate (length names) None @ tail)
    = Some (pre @ map Some (numbered (col + 2) (map (\<lambda>s. column_payload (named_column s)) names)) @ tail)"
  using assms
proof (induction names arbitrary: col pre)
  case (Cons s names)
  let ?p = "framed_pkt (col + 2) (column_payload (named_column s))"
  have "remove_index_fast (col + 1) ((pre @ replicate (length (s # names)) None @ tail) @ [Some ?p]) = (pre @ [Some ?p]) @ replicate (length names) None @ tail"
    using Cons.prems(2) by (simp add: remove_index_fast_def list_update_append butlast_append)
  then have "place_defs junk col (s # names) (pre @ replicate (length (s # names)) None @ tail)
      = place_defs junk (col + 1) names ((pre @ [Some ?p]) @ replicate (length names) None @ tail)"
    using column_def_framed [of s junk "col + 2"] Cons.prems(1) by simp
  also have "\<dots> = Some ((pre @ [Some ?p]) @ map Some (numbered (col + 1 + 2) (map (\<lambda>s. column_payload (named_column s)) names)) @ tail)"
    using Cons.prems by (intro Cons.IH) simp_all
  finally show ?case by (simp add: numbered_Cons)
qed simp

lemma eof_framed: "myproto_eof junk i 0 34 = Some (framed_pkt i [0xfe, 0, 0, 34, 0])"
proof -
  have l: "length [0xfe, 0, 0, 34, 0 :: byte] = 5" by simp
  have "[0xfe] @ le_bytes 2 0 @ le_bytes 2 34 = [0xfe, 0, 0, 34, 0]" by (simp add: numeral_2_eq_2)
  then show ?thesis using myproto_eof_spec [of junk i 0 34] unfolding framed_pkt_def l by (simp del: le_bytes.simps)
qed

lemma result_set_numbered:
  assumes "\<forall>s \<in> set names. length s < 65536" and "list_all row_ok rows"
  shows "result_set_pkts junk names rows [] = Some (map Some (numbered 1 (text_result names rows)))"
proof -
  let ?c = "length names"
  have count: "myproto_column_count junk 1 ?c = Some (framed_pkt 1 (writeencint ?c))"
    using make_pkt_puts [of "[writeencint ?c]" "lencint ?c" _ junk 1] by (simp add: myproto_column_count_def framed_pkt_def lencint_def)
  note eof = eof_framed [of junk]
  have "place_defs junk 0 names ([Some (framed_pkt 1 (writeencint ?c))] @ replicate ?c None
        @ [Some (framed_pkt (2 + ?c) [0xfe, 0, 0, 34, 0])] @ map Some (numbered (?c + 3 + 0) (map (\<lambda>r. concat (map cell r)) rows)))
      = Some ([Some (framed_pkt 1 (writeencint ?c))] @ map Some (numbered (0 + 2) (map (\<lambda>s. column_payload (named_column s)) names))
        @ [Some (framed_pkt (2 + ?c) [0xfe, 0, 0, 34, 0])] @ map Some (numbered (?c + 3 + 0) (map (\<lambda>r. concat (map cell r)) rows)))"
    by (rule place_defs_numbered [OF assms(1)]) simp
  then show ?thesis
    using count eof row_pkts_numbered [OF assms(2), of junk ?c 0]
    by (simp add: result_set_pkts_def Let_def text_result_def numbered_append numbered_Cons add.commute numeral_3_eq_3)
qed

lemma framed_pkt_ok: "length b < 2 ^ 24 \<Longrightarrow> pkt_ok (framed_pkt i b)"
  by (simp add: pkt_ok_def framed_pkt_def framed_def hdr_size_def hdr_pkt_length_def mysql_hdr_def le_nat_bytes_id)

lemma text_result_sizes:
  assumes "\<forall>s \<in> set names. length s < 65536" and "list_all row_ok rows"
  shows "\<forall>b \<in> set (text_result names rows). length b < 2 ^ 24"
proof
  fix b assume "b \<in> set (text_result names rows)"
  then consider (n) "b = writeencint (length names)" | (c) s where "s \<in> set names" "b = column_payload (named_column s)"
    | (e) "b = [0xfe, 0, 0, 34, 0]" | (r) r where "r \<in> set rows" "b = concat (map cell r)"
    by (auto simp: text_result_def)
  then show "length b < 2 ^ 24"
  proof cases
    case n
    then show ?thesis by (simp add: lencint_def)
  next
    case c
    then have "length s < 65536" using assms(1) by simp
    then show ?thesis unfolding c(2) by (simp add: column_payload_def named_column_def length_enc_str enc_strlen_def lencint_def)
  next
    case r
    then have "list_all cell_ok r" "sum_list (map (\<lambda>c. col_size (snd c)) r) < 2 ^ 24" using assms(2) by (simp_all add: list_all_iff row_ok_def)
    then show ?thesis using encode_row_puts [of r] r(2) by auto
  qed simp
qed

lemma numbered_ok: "\<forall>b \<in> set bs. length b < 2 ^ 24 \<Longrightarrow> list_all pkt_ok (numbered i bs)"
  by (induction bs arbitrary: i) (simp_all add: numbered_Cons framed_pkt_ok)

text \<open>A \<^verbatim>\<open>NULL\<close> behind the places of the column definitions stays where it is.\<close>

lemma place_defs_keeps:
  assumes "place_defs junk col names pkts = Some pkts'" and "k < length pkts" and "pkts ! k = None" and "col + length names < k"
  shows "k < length pkts' \<and> pkts' ! k = None"
  using assms
proof (induction names arbitrary: col pkts)
  case (Cons s names)
  obtain p where p: "place_defs junk (col + 1) names (remove_index_fast (col + 1) (pkts @ [Some p])) = Some pkts'"
    using Cons.prems(1) by (auto split: Option.bind_splits)
  have "remove_index_fast (col + 1) (pkts @ [Some p]) = pkts[col + 1 := Some p]"
    using Cons.prems(2,4) by (simp add: remove_index_fast_def list_update_append)
  then show ?case using Cons.IH [OF p] Cons.prems(2-4) by simp
qed simp

subsection \<open>Properties\<close>


lemma query_of_framed [simp]: "query_of (query_pkt junk q) = Some q"
  by (simp add: query_of_def query_pkt_def mem_read_def hdr_size_def fresh_def)

definition sample_sqlite :: sqlite where
  "sample_sqlite = \<lparr>sq_reply = (\<lambda>_ _. ResultSet [[97]] [[(Some [120], 1)], [(None, 0)]]), sq_users = (\<lambda>_. None), sq_level_names = (\<lambda>_. None),
     sq_levels = (\<lambda>_ _. None), sq_rules_cnt = (\<lambda>_. 0), sq_rules = (\<lambda>_ rs. rs), sq_default_hostgroups = (\<lambda>_. []), sq_servers = (\<lambda>_. []), sq_acks = (\<lambda>_. [])\<rparr>"

lemma sample_outs: "outs sample_session = []"
  by (simp add: outs_def sample_stream_def mysql_data_stream_new_def uni_ds_new_def)




lemma not_command_first: "q = b # m \<Longrightarrow> s = c # t \<Longrightarrow> to_lower b \<noteq> to_lower (of_char c) \<Longrightarrow> \<not> is_command s q"
  by (simp add: is_command_def str_def)

text \<open>A prefix of \<^verbatim>\<open>SHUTDOWN\<close> is acknowledged and ends the proxy.\<close>

lemma shutdown_prefix_result:
  assumes "as_admin sess = 1" and "query_of p = Some q" and "3 \<le> length q" and "length q \<le> 8"
    and "map to_lower q = take (length q) (str ''shutdown'')" and "update_runtime_statistics sy 1 w = Some w1"
  shows "\<exists>ok w'. admin_COM_QUERY sy sq thread_id p sess w = Some (MY_SESS_ADD_PKT_OUT_CLIENT ok (sess\<lparr>ss_mysql_query_cache_hit := True, ss_query_to_cache := False\<rparr>), w') \<and> wd_shutdown w'"
proof -
  obtain a b c m where q: "q = a # b # c # m" using assms(3) by (auto simp: numeral_3_eq_3 Suc_le_length_iff)
  then have abc: "to_lower a = 115" "to_lower b = 104" "to_lower c = 117" using assms(5) by (simp_all add: str_def)
  have nz: "b \<noteq> 101" using abc(2) by (auto simp: to_lower_def)
  have tl: "to_lower 83 = 115" "to_lower 72 = 104" "to_lower 79 = 111" by (simp_all add: to_lower_def)
  have n1: "\<not> is_command ''SHOW TABLES'' q" by (simp add: is_command_def str_def q abc tl)
  have n2: "strn_eq to_lower (length (str ''SHOW CREATE TABLE '')) (str ''SHOW CREATE TABLE '' @ [0]) (q @ x) = Some False" for x
    by (simp add: str_def q abc tl)
  have n3: "strn_eq id (length q) (str ''select @@version_comment limit 1'' @ [0]) q = Some False" using nz by (simp add: str_def q)
  have nf: "\<not> is_command (CHR ''F'' # t) q" for t using abc(1) by (intro not_command_first [OF q refl]) (simp add: to_lower_def)
  have "map to_lower q = map to_lower (take (length q) (str ''SHUTDOWN''))"
    unfolding assms(5) take_map [symmetric] by (simp add: str_def to_lower_def)
  then have y: "is_command ''SHUTDOWN'' q" using assms(4) by (subst is_command_prefix) (simp_all add: str_def)
  define s1 where "s1 = sess\<lparr>ss_mysql_query_cache_hit := True, ss_query_to_cache := False\<rparr>"
  obtain ok where ok: "myproto_ok_pkt (sy_junk sy (wd_tick w1)) 1 0 0 2 0 = Some ok" using myproto_ok_pkt_spec by blast
  have "admin_command sy sq q s1 w1 = Some (Some (MY_SESS_ADD_PKT_OUT_CLIENT ok s1, sync_if ''admin_sync_disk_on_shutdown'' (tick (w1\<lparr>wd_shutdown := True\<rparr>))))"
    using ok by (simp add: admin_command_def nf y reply_ok_def)
  moreover have "rewrite_show_create_table junk after p = Some p" for junk "after"
    using assms(2) n2 by (simp add: rewrite_show_create_table_def Let_def)
  ultimately have "admin_COM_QUERY sy sq thread_id p sess w = Some (MY_SESS_ADD_PKT_OUT_CLIENT ok s1, sync_if ''admin_sync_disk_on_shutdown'' (tick (w1\<lparr>wd_shutdown := True\<rparr>)))"
    using assms(1,2,6) n1 n3 by (simp add: admin_COM_QUERY_def rewrite_show_tables_def s1_def [symmetric]) (simp add: s1_def)
  then show ?thesis by (auto simp: s1_def sync_if_def log_sql_def)
qed

text \<open>
  C37. Commands are compared only over the length of the statement, so every prefix of a command is taken for it: any
  three or more letters of \<^verbatim>\<open>SHUTDOWN\<close> from an administrator, in upper or lower case, shut the proxy down.
\<close>

theorem shutdown_by_prefix:
  assumes "as_admin sess = 1" and "query_of p = Some q" and "3 \<le> length q" and "length q \<le> 8"
    and "map to_lower q = take (length q) (str ''shutdown'')" and "update_runtime_statistics sy 1 w = Some w1"
  shows "\<exists>sess' w'. admin_COM_QUERY sy sq thread_id p sess w = Some (sess', w') \<and> wd_shutdown w'"
  using shutdown_prefix_result [OF assms, of sq thread_id] by blast

theorem shutdown_by_prefix_witness:
  "\<exists>sess' w'. admin_COM_QUERY sample_sys sample_sqlite 1 (query_pkt (\<lambda>_. 0) (str ''shu'')) (sample_session\<lparr>as_admin := 1\<rparr>)
     (sample_world\<lparr>wd_admindb_lastupdate := 200\<rparr>) = Some (sess', w') \<and> wd_shutdown w'"
proof -
  let ?w = "sample_world\<lparr>wd_admindb_lastupdate := 200\<rparr>"
  have "update_runtime_statistics sample_sys 1 ?w = Some (tick ?w)"
    by (simp add: update_runtime_statistics_def sample_sys_def glovar_def sample_world_def)
  then show ?thesis
    using shutdown_by_prefix [of "sample_session\<lparr>as_admin := 1\<rparr>" "query_pkt (\<lambda>_. 0) (str ''shu'')" "str ''shu''" sample_sys ?w "tick ?w" sample_sqlite 1]
    by (simp add: str_def to_lower_def)
qed

end
