(* ===== verification/SessionNet.thy ===== *)
theory SessionNet
  imports Admin
begin

section \<open>The sockets of a session\<close>

text \<open>
  The functions of \<^verbatim>\<open>src/mysql_session.c\<close> between the streams and the packets of a session: \<^verbatim>\<open>conn_poll\<close>,
  \<^verbatim>\<open>read_from_net_2\<close>, \<^verbatim>\<open>write_to_net_2\<close>, \<^verbatim>\<open>buffer2array_2\<close>, \<^verbatim>\<open>array2buffer_2\<close>, \<^verbatim>\<open>check_fds_errors\<close> and \<^verbatim>\<open>sync_net\<close>.

  A read or write of a server's stream counts its bytes in the hostgroup entry of the backend, and follows
  that pointer only then. The events of a poll are lists of flags.
\<close>

subsection \<open>Polling\<close>

definition CONNECTION_READING_CLIENT :: "32 word" where "CONNECTION_READING_CLIENT = 1"

definition CONNECTION_WRITING_CLIENT :: "32 word" where "CONNECTION_WRITING_CLIENT = 2"

definition CONNECTION_READING_SERVER :: "32 word" where "CONNECTION_READING_SERVER = 4"

definition CONNECTION_WRITING_SERVER :: "32 word" where "CONNECTION_WRITING_SERVER = 8"

unbundle bit_operations_syntax

definition has_status :: "32 word \<Rightarrow> 'a mysql_session_scheme \<Rightarrow> bool" where
  "has_status flag sess \<longleftrightarrow> ss_status sess AND flag = flag"

definition wants_read :: "data_stream \<Rightarrow> bool" where
  "wants_read myds \<longleftrightarrow> ds_fd myds > 0 \<and> queue_available (ud_queue (ds_input myds)) \<noteq> 0"

definition wants_write :: "data_stream \<Rightarrow> bool" where
  "wants_write myds \<longleftrightarrow> ds_fd myds > 0
     \<and> (queue_data (ud_queue (ds_output myds)) \<noteq> 0 \<or> ud_partial (ds_output myds) \<noteq> 0 \<or> ud_pkts (ds_output myds) \<noteq> [])"

definition poll_events :: "bool \<Rightarrow> bool \<Rightarrow> poll_flag list" where
  "poll_events r w = (if r then [POLLIN] else []) @ (if w then [POLLOUT] else [])"

definition conn_poll :: "'a mysql_session_scheme \<Rightarrow> 'a mysql_session_scheme option" where
  "conn_poll sess = do {
     let c = ss_client_myds sess;
     let (f0, f1) = ss_fds sess;
     let f0 = f0\<lparr>pf_events := poll_events (has_status CONNECTION_READING_CLIENT sess \<and> wants_read c)
                                         (has_status CONNECTION_WRITING_CLIENT sess \<and> wants_write c)\<rparr>;
     if ss_nfds sess > 1 \<and> (has_status CONNECTION_READING_SERVER sess \<or> has_status CONNECTION_WRITING_SERVER sess)
     then do {
       s \<leftarrow> server_myds sess;
       let f1 = f1\<lparr>pf_events := poll_events (has_status CONNECTION_READING_SERVER sess \<and> wants_read s)
                                           (has_status CONNECTION_WRITING_SERVER sess \<and> wants_write s)\<rparr>;
       Some (sess\<lparr>ss_fds := (f0, f1)\<rparr>)
     }
     else Some (sess\<lparr>ss_fds := (f0, if ss_nfds sess > 1 then f1\<lparr>pf_events := []\<rparr> else f1)\<rparr>)
   }"

subsection \<open>Reading and writing\<close>

definition received :: "sys \<Rightarrow> data_stream \<Rightarrow> 'w world_scheme \<Rightarrow> byte list option" where
  "received sy myds w = map_option (take (queue_available (ud_queue (ds_input myds)))) (sy_recv sy (wd_tick w))"

definition client_read_from_net :: "sys \<Rightarrow> 'a mysql_session_scheme \<Rightarrow> 'w world_scheme \<Rightarrow> ('a mysql_session_scheme \<times> 'w world_scheme) option" where
  "client_read_from_net sy sess w = do {
     let myds = ss_client_myds sess;
     (_, myds, env) \<leftarrow> read_from_net (received sy myds w) myds (ds_env_of (ss_net_failure sess) no_mshge (ds_fd myds) w);
     Some (sess\<lparr>ss_client_myds := myds, ss_net_failure := en_net_failure env\<rparr>, tick w)
   }"

text \<open>The hostgroup entry behind a stream; it is followed only when bytes are counted.\<close>

definition stream_mshge :: "mysql_backend \<Rightarrow> 'w config_scheme \<Rightarrow> mshge" where
  "stream_mshge mybe w = (case be_mshge mybe of None \<Rightarrow> no_mshge | Some m \<Rightarrow> (case gs_mshge (cf_glomysrvs w) m of None \<Rightarrow> no_mshge | Some e \<Rightarrow> e))"

definition count_bytes :: "bool \<Rightarrow> mysql_backend \<Rightarrow> ds_env \<Rightarrow> 'w config_scheme \<Rightarrow> 'w config_scheme option" where
  "count_bytes c mybe env w = (if c then do { m \<leftarrow> be_mshge mybe; upd_mshge m (env_mshge env) w } else Some w)"

definition server_read_from_net :: "sys \<Rightarrow> nat \<Rightarrow> mysql_backend \<Rightarrow> data_stream \<Rightarrow> 'a mysql_session_scheme \<Rightarrow> 'w world_scheme \<Rightarrow> ('a mysql_session_scheme \<times> 'w world_scheme) option" where
  "server_read_from_net sy i mybe myds sess w = do {
     (r, myds, env) \<leftarrow> read_from_net (received sy myds w) myds (ds_env_of (ss_net_failure sess) (stream_mshge mybe w) (ds_fd myds) w);
     w \<leftarrow> count_bytes (r \<ge> 1 \<and> ds_mybe myds) mybe env w;
     Some (set_backend i (mybe\<lparr>be_server_myds := Some myds\<rparr>) sess\<lparr>ss_net_failure := en_net_failure env\<rparr>, tick w)
   }"

definition server_write_to_net :: "sys \<Rightarrow> nat \<Rightarrow> mysql_backend \<Rightarrow> data_stream \<Rightarrow> 'a mysql_session_scheme \<Rightarrow> 'w world_scheme \<Rightarrow> ('a mysql_session_scheme \<times> 'w world_scheme) option" where
  "server_write_to_net sy i mybe myds sess w = do {
     let s = queue_data (ud_queue (ds_output myds));
     (r, myds, env) \<leftarrow> write_to_net (accepted sy myds w) myds (ds_env_of (ss_net_failure sess) (stream_mshge mybe w) (ds_fd myds) w);
     w \<leftarrow> count_bytes (s \<noteq> 0 \<and> r \<ge> 0 \<and> ds_mybe myds) mybe env w;
     Some (set_backend i (mybe\<lparr>be_server_myds := Some myds\<rparr>) sess\<lparr>ss_net_failure := en_net_failure env\<rparr>,
           (tick w)\<lparr>wd_wire := (wd_wire w)(ds_fd myds := en_wire env)\<rparr>)
   }"

text \<open>The current backend with its stream, if there are both.\<close>

definition current :: "'a mysql_session_scheme \<Rightarrow> (nat \<times> mysql_backend \<times> data_stream) option" where
  "current sess = do { i \<leftarrow> ss_server_mybe sess; mybe \<leftarrow> backend sess i; myds \<leftarrow> be_server_myds mybe; Some (i, mybe, myds) }"

definition read_from_net_2 :: "sys \<Rightarrow> 'a mysql_session_scheme \<Rightarrow> 'w world_scheme \<Rightarrow> ('a mysql_session_scheme \<times> 'w world_scheme) option" where
  "read_from_net_2 sy sess w = do {
     (sess, w) \<leftarrow> (if ds_fd (ss_client_myds sess) > 0 \<and> POLLIN \<in> set (pf_revents (fst (ss_fds sess)))
                  then client_read_from_net sy sess w else Some (sess, w));
     case current sess of
       None \<Rightarrow> Some (sess, w)
     | Some (i, mybe, myds) \<Rightarrow>
         if ds_fd myds > 0 \<and> be_server_mycpe mybe \<noteq> None \<and> POLLIN \<in> set (pf_revents (snd (ss_fds sess)))
         then server_read_from_net sy i mybe myds sess w else Some (sess, w)
   }"

definition write_to_net_2 :: "sys \<Rightarrow> bool \<Rightarrow> 'a mysql_session_scheme \<Rightarrow> 'w world_scheme \<Rightarrow> ('a mysql_session_scheme \<times> 'w world_scheme) option" where
  "write_to_net_2 sy ignore_revents sess w = do {
     (sess, w) \<leftarrow> (if ds_fd (ss_client_myds sess) > 0 \<and> (ignore_revents \<or> POLLOUT \<in> set (pf_revents (fst (ss_fds sess))))
                  then client_write_to_net sy sess w else Some (sess, w));
     case current sess of
       None \<Rightarrow> Some (sess, w)
     | Some (i, mybe, myds) \<Rightarrow>
         if ds_fd myds > 0 \<and> (ignore_revents \<or> POLLOUT \<in> set (pf_revents (snd (ss_fds sess))))
         then server_write_to_net sy i mybe myds sess w else Some (sess, w)
   }"

definition buffer2array_2 :: "sys \<Rightarrow> 'a mysql_session_scheme \<Rightarrow> 'w world_scheme \<Rightarrow> ('a mysql_session_scheme \<times> 'w world_scheme) option" where
  "buffer2array_2 sy sess w = do {
     myds \<leftarrow> buffer2array_loop (sy_junk sy (wd_tick w)) (ss_client_myds sess);
     let sess = sess\<lparr>ss_client_myds := myds\<rparr>;
     case current sess of
       None \<Rightarrow> Some (sess, tick w)
     | Some (i, mybe, myds) \<Rightarrow> do {
         myds \<leftarrow> buffer2array_loop (sy_junk sy (wd_tick w)) myds;
         Some (set_backend i (mybe\<lparr>be_server_myds := Some myds\<rparr>) sess, tick w)
       }
   }"

definition array2buffer_2 :: "'a mysql_session_scheme \<Rightarrow> 'a mysql_session_scheme option" where
  "array2buffer_2 sess = do {
     myds \<leftarrow> array2buffer_loop (ss_client_myds sess);
     let sess = sess\<lparr>ss_client_myds := myds\<rparr>;
     case current sess of
       None \<Rightarrow> Some sess
     | Some (i, mybe, myds) \<Rightarrow> do {
         myds \<leftarrow> array2buffer_loop myds;
         Some (set_backend i (mybe\<lparr>be_server_myds := Some myds\<rparr>) sess)
       }
   }"

definition fd_error :: "pollfd \<Rightarrow> bool" where
  "fd_error f \<longleftrightarrow> POLLERR \<in> set (pf_revents f) \<or> POLLHUP \<in> set (pf_revents f) \<or> POLLNVAL \<in> set (pf_revents f)"

text \<open>\<^verbatim>\<open>shut_soft\<close> marks the stream and the session.\<close>

definition check_fds_errors :: "'a mysql_session_scheme \<Rightarrow> 'a mysql_session_scheme" where
  "check_fds_errors sess =
     (let sess = (if fd_error (fst (ss_fds sess))
                  then sess\<lparr>ss_client_myds := (ss_client_myds sess)\<lparr>ds_active := False\<rparr>, ss_net_failure := True\<rparr> else sess)
      in case current sess of
           None \<Rightarrow> sess
         | Some (i, mybe, myds) \<Rightarrow>
             if fd_error (snd (ss_fds sess))
             then set_backend i (mybe\<lparr>be_server_myds := Some (myds\<lparr>ds_active := False\<rparr>)\<rparr>) sess\<lparr>ss_net_failure := True\<rparr>
             else sess)"

definition sync_net :: "sys \<Rightarrow> bool \<Rightarrow> 'a mysql_session_scheme \<Rightarrow> 'w world_scheme \<Rightarrow> (bool \<times> 'a mysql_session_scheme \<times> 'w world_scheme) option" where
  "sync_net sy write_only sess w = do {
     (sess, w) \<leftarrow> (if write_only then Some (sess, w) else read_from_net_2 sy sess w);
     if \<not> write_only \<and> ss_net_failure sess \<and> \<not> reconnect_server_on_shut_fd sess then Some (False, sess, w)
     else do {
       (sess, w) \<leftarrow> write_to_net_2 sy write_only sess w;
       Some (\<not> (ss_net_failure sess \<and> \<not> reconnect_server_on_shut_fd sess), sess, w)
     }
   }"

end
