(* ===== verification/Session.thy ===== *)
theory Session
  imports SessionNet
begin

section \<open>A session\<close>

text \<open>
  The second part of \<^verbatim>\<open>src/mysql_session.c\<close>: the commands of a client, the choice of the backend they go
  to, the authentication of a client, and the creation, the round of work and the end of a session.

  The theorems are about two of the commands that do not work: the removal of servers that go offline, and the change
  of user. Authentication and the way of a statement are the subject of the theory \<open>Clients\<close>.
\<close>

subsection \<open>Commands\<close>

definition client_COM_STATISTICS :: "'a mysql_session_scheme \<Rightarrow> 'a mysql_session_scheme" where
  "client_COM_STATISTICS sess = (if as_admin sess > 0 then sess\<lparr>ss_healthy := False\<rparr> else sess)"

text \<open>The condition under which the current backend is reset before all the others.\<close>

definition is_connected :: "mysql_backend \<Rightarrow> 'w config_scheme \<Rightarrow> bool option" where
  "is_connected mybe w =
     (if be_server_mycpe mybe = None then Some False
      else case be_mshge mybe of
             None \<Rightarrow> Some False
           | Some m \<Rightarrow> do {
               gs_mshge (cf_glomysrvs w) m;
               Some (case be_server_myds mybe of None \<Rightarrow> False | Some myds \<Rightarrow> ds_fd myds \<noteq> 0)
             })"

definition reset_backend :: "sys \<Rightarrow> int \<Rightarrow> nat \<Rightarrow> 'a mysql_session_scheme \<Rightarrow> 'w world_scheme \<Rightarrow> ('a mysql_session_scheme \<times> 'w world_scheme) option" where
  "reset_backend sy force_close i sess w = do {
     mybe \<leftarrow> backend sess i;
     (mybe, w) \<leftarrow> backend_reset sy force_close mybe w;
     Some (set_backend i mybe sess, w)
   }"

fun reset_loop :: "sys \<Rightarrow> int \<Rightarrow> nat list \<Rightarrow> 'a mysql_session_scheme \<Rightarrow> 'w world_scheme \<Rightarrow> ('a mysql_session_scheme \<times> 'w world_scheme) option" where
  "reset_loop sy force_close [] sess w = Some (sess, w)"
| "reset_loop sy force_close (j # js) sess w = do {
     (sess, w) \<leftarrow> reset_backend sy force_close j sess w;
     reset_loop sy force_close js sess w
   }"

definition reset_current :: "sys \<Rightarrow> 'a mysql_session_scheme \<Rightarrow> 'w world_scheme \<Rightarrow> ('a mysql_session_scheme \<times> 'w world_scheme) option" where
  "reset_current sy sess w =
     (case ss_server_mybe sess of
        None \<Rightarrow> Some (sess, w)
      | Some i \<Rightarrow> do {
          mybe \<leftarrow> backend sess i;
          c \<leftarrow> is_connected mybe w;
          if c then reset_backend sy 0 i sess w else Some (sess, w)
        })"

text \<open>The same lines in \<^verbatim>\<open>client_COM_CHANGE_USER\<close> and \<^verbatim>\<open>client_COM_INIT_DB\<close>.\<close>

definition disconnect_backends :: "sys \<Rightarrow> 'a mysql_session_scheme \<Rightarrow> 'w world_scheme \<Rightarrow> ('a mysql_session_scheme \<times> 'w world_scheme) option" where
  "disconnect_backends sy sess w = do {
     (sess, w) \<leftarrow> reset_current sy sess w;
     (sess, w) \<leftarrow> reset_loop sy 0 [0..<mysql_hostgroups w] sess w;
     Some (sess\<lparr>ss_server_mybe := None\<rparr>, w)
   }"

text \<open>
  The bytes of a block after \<^verbatim>\<open>l_free\<close>: the free list keeps its link, the address of the next free block, in the
  first eight. A block that went back to \<^verbatim>\<open>g_slice_free1\<close> must not be read.
\<close>

definition freed_pkt :: "nat \<Rightarrow> pkt \<Rightarrow> pkt" where
  "freed_pkt link p = p\<lparr>pk_data := (if pk_length p > 256 then None
     else map_option (\<lambda>d. take (length d) (le_bytes 8 link) @ drop 8 d) (pk_data p))\<rparr>"

definition client_COM_CHANGE_USER :: "sys \<Rightarrow> pkt \<Rightarrow> 'a mysql_session_scheme \<Rightarrow> 'w world_scheme \<Rightarrow> ('a mysql_session_scheme \<times> 'w world_scheme) option" where
  "client_COM_CHANGE_USER sy p sess w =
     (if as_admin sess > 0 then Some (sess\<lparr>ss_healthy := False\<rparr>, w)
      else do {
        let sess = sess\<lparr>ss_mysql_query_cache_hit := True\<rparr>;
        (_, sess) \<leftarrow> parse_change_user_packet (freed_pkt (sy_address sy (wd_tick w)) p) sess;
        p \<leftarrow> create_auth_switch_request_packet (as_scramble_buf sess);
        let sess = MY_SESS_ADD_PKT_OUT_CLIENT p (sess\<lparr>as_waiting_change_user_response := True\<rparr>);
        disconnect_backends sy (sess\<lparr>rs_default_hostgroup := -1\<rparr>) (tick w)
      })"

definition answer_ok :: "sys \<Rightarrow> nat \<Rightarrow> 'a mysql_session_scheme \<Rightarrow> 'w world_scheme \<Rightarrow> ('a mysql_session_scheme \<times> 'w world_scheme) option" where
  "answer_ok sy pid sess w = do {
     p \<leftarrow> create_ok_packet (sy_junk sy (wd_tick w)) pid;
     Some (MY_SESS_ADD_PKT_OUT_CLIENT p sess, tick w)
   }"

definition client_COM_INIT_DB :: "sys \<Rightarrow> pkt \<Rightarrow> 'a mysql_session_scheme \<Rightarrow> 'w world_scheme \<Rightarrow> ('a mysql_session_scheme \<times> 'w world_scheme) option" where
  "client_COM_INIT_DB sy p sess w =
     (if as_admin sess > 0 then Some (sess\<lparr>ss_healthy := False\<rparr>, w)
      else do {
        schema \<leftarrow> map_option c_string (query_of p);
        let sess = sess\<lparr>ss_schema_new := Some schema\<rparr>;
        if as_schema_cur sess = Some schema
        then do {
          (sess, w) \<leftarrow> answer_ok sy 1 (sess\<lparr>ss_mysql_query_cache_hit := True\<rparr>) w;
          Some (sess\<lparr>ss_schema_new := None\<rparr>, w)
        }
        else do {
          (sess, w) \<leftarrow> disconnect_backends sy (sess\<lparr>rs_default_hostgroup := -1\<rparr>) w;
          (sess, w) \<leftarrow> answer_ok sy 1 (sess\<lparr>ss_mysql_query_cache_hit := True\<rparr>) w;
          Some (sess\<lparr>as_schema_cur := ss_schema_new sess, ss_schema_new := None\<rparr>, w)
        }
      })"

text \<open>The rules change the packet in place: the result starts with the packet as it is afterwards.\<close>

definition apply_query_rules :: "sys \<Rightarrow> 'a mysql_session_scheme \<Rightarrow> 'w world_scheme \<Rightarrow> ('a mysql_session_scheme \<times> 'w world_scheme) option" where
  "apply_query_rules sy sess w = do {
     rules \<leftarrow> cf_query_rules w;
     (rules, sess) \<leftarrow> process_query_rules (sy_regex sy) (sy_junk sy (wd_tick w)) (glovar ''mysql_query_cache_default_timeout'' w)
                       (glovar ''mysql_query_cache_enabled'' w \<noteq> 0) (wd_DefHG w) rules sess;
     Some (sess, (tick w)\<lparr>cf_query_rules := Some rules\<rparr>)
   }"

definition try_cache :: "sys \<Rightarrow> bool \<Rightarrow> 'a mysql_session_scheme \<Rightarrow> 'w world_scheme \<Rightarrow> (bool \<times> 'a mysql_session_scheme \<times> 'w world_scheme) option" where
  "try_cache sy b sess w =
     (if b then do { (r, sess, w) \<leftarrow> get_result_from_mysql_query_cache sy sess w; Some (r = 0, sess, w) }
      else Some (False, sess, w))"

definition client_COM_QUERY :: "sys \<Rightarrow> pkt \<Rightarrow> 'a mysql_session_scheme \<Rightarrow> 'w world_scheme \<Rightarrow> (pkt \<times> 'a mysql_session_scheme \<times> 'w world_scheme) option" where
  "client_COM_QUERY sy p sess w =
     (if int (pk_length p) - 4 > glovar ''mysql_max_query_size'' w
      then Some (p, sess\<lparr>ss_client_command := MYSQL_COM_END\<rparr>, w)
      else do {
        sess \<leftarrow> init_query_metadata (sy_md5 sy) (sy_junk sy (wd_tick w)) (glovar ''mysql_query_statistics'' w \<noteq> 0)
                 (sy_monotonic_time sy (wd_tick w)) (Some p) sess;
        let w = tick w;
        let sess = sess\<lparr>ss_resultset_progress := RESULTSET_WAITING, ss_resultset_size := 0\<rparr>;
        (hit, sess, w) \<leftarrow> try_cache sy (glovar ''mysql_query_cache_enabled'' w \<noteq> 0 \<and> glovar ''mysql_query_cache_precheck'' w \<noteq> 0) sess w;
        if hit then Some (p, sess, w)
        else do {
          (sess, w) \<leftarrow> apply_query_rules sy sess w;
          p \<leftarrow> qi_p (rs_query_info sess);
          if ss_client_command sess = MYSQL_COM_QUERY \<and> qi_cache_ttl (rs_query_info sess) > 0
          then do {
            (_, sess, w) \<leftarrow> try_cache sy True (sess\<lparr>ss_query_to_cache := True\<rparr>) w;
            Some (p, sess, w)
          }
          else Some (p, sess, w)
        }
      })"

subsection \<open>The backend a packet goes to\<close>

definition active_backend_for_hostgroup :: "int \<Rightarrow> 'a mysql_session_scheme \<Rightarrow> 'w config_scheme \<Rightarrow> bool option" where
  "active_backend_for_hostgroup hostgroup_id sess w =
     (if \<not> hostgroup_id < int (mysql_hostgroups w) \<or> hostgroup_id < 0 then None
      else do {
        mybe \<leftarrow> backend sess (nat hostgroup_id);
        case be_mshge mybe of
          None \<Rightarrow> Some False
        | Some m \<Rightarrow> do { gs_mshge (cf_glomysrvs w) m; Some (be_server_mycpe mybe \<noteq> None) }
      })"

text \<open>\<open>queue_back_client_pkt\<close> puts the packet in front of the ones that wait, as shown with the pointer arrays.\<close>

definition queue_back :: "pkt \<Rightarrow> 'a mysql_session_scheme \<Rightarrow> 'a mysql_session_scheme" where
  "queue_back p sess = (let myds = ss_client_myds sess
     in sess\<lparr>ss_client_myds := myds\<lparr>ds_input := (ds_input myds)\<lparr>ud_pkts := p # ud_pkts (ds_input myds)\<rparr>\<rparr>\<rparr>)"

text \<open>
  A command that is not a query goes to the default hostgroup of the session, whatever the statement before it
  had; \<^verbatim>\<open>destination_hostgroup\<close> of a query is set by the rules.
\<close>

definition packet_destination :: "'a mysql_session_scheme \<Rightarrow> 'w world_scheme \<Rightarrow> 'a mysql_session_scheme option" where
  "packet_destination sess w =
     (if ss_client_command sess = MYSQL_COM_QUERY then Some sess
      else if rs_default_hostgroup sess = -1 \<or> rs_default_hostgroup_version sess \<noteq> dg_version (wd_DefHG w)
      then do { (h, sess) \<leftarrow> mysql_session_default_hostgroup (wd_DefHG w) sess; Some (upd_info (qi_destination_hostgroup_update (\<lambda>_. h)) sess) }
      else Some (upd_info (qi_destination_hostgroup_update (\<lambda>_. rs_default_hostgroup sess)) sess))"

definition note_server :: "mysql_server \<Rightarrow> 'a mysql_session_scheme \<Rightarrow> 'w config_scheme \<Rightarrow> 'a mysql_session_scheme option" where
  "note_server srv sess w =
     (if glovar ''mysql_query_statistics'' w = 0 then Some sess
      else case qi_query_stats (rs_query_info sess) of
             NullStats \<Rightarrow> Some sess
           | Stats e \<Rightarrow> Some (upd_info (\<lambda>q. q\<lparr>qi_query_stats := Stats (e\<lparr>qe_hostgroup_id := qi_destination_hostgroup q,
               qe_mysql_server_address := Some (sr_address srv), qe_mysql_server_port := int (sr_port srv)\<rparr>)\<rparr>) sess)
           | FreedStats \<Rightarrow> None)"

text \<open>The last step: only a server that is \<^verbatim>\<open>ONLINE\<close> gets the packet, any other status is an \<^verbatim>\<open>assert(0)\<close>.\<close>

definition forward_pkt :: "nat \<Rightarrow> pkt \<Rightarrow> 'a mysql_session_scheme \<Rightarrow> 'w world_scheme \<Rightarrow> (int option \<times> 'a mysql_session_scheme \<times> 'w world_scheme) option" where
  "forward_pkt i p sess w = do {
     mybe \<leftarrow> backend sess i;
     srv \<leftarrow> backend_server mybe w;
     if sr_status srv \<noteq> ONLINE then None
     else do {
       let sess = sess\<lparr>ss_server_mybe := Some i, ss_server_fd := be_fd mybe\<rparr>;
       sess \<leftarrow> note_server srv sess w;
       sess \<leftarrow> MY_SESS_ADD_PKT_OUT_SERVER p (sync_server_bytes_at_cmd sess);
       Some (None, sess, w)
     }
   }"

text \<open>\<open>Some r\<close> is the value with which \<^verbatim>\<open>process_client_pkts\<close> returns, \<open>None\<close> goes on with the next packet.\<close>

definition refuse :: "sys \<Rightarrow> 'a mysql_session_scheme \<Rightarrow> 'w world_scheme \<Rightarrow> (int option \<times> 'a mysql_session_scheme \<times> 'w world_scheme) option" where
  "refuse sy sess w = do { (sess, w) \<leftarrow> authenticate_mysql_client_send_ERR sy 1045 access_denied sess w; Some (Some (-1), sess, w) }"

definition mark_prepared :: "nat \<Rightarrow> 'a mysql_session_scheme \<Rightarrow> 'a mysql_session_scheme option" where
  "mark_prepared i sess = do {
     mybe \<leftarrow> backend sess i;
     Some (if qi_prepared_statement (rs_query_info sess)
           then set_backend i (mybe\<lparr>be_server_mycpe := map_option (ce_reusable_update (\<lambda>_. False)) (be_server_mycpe mybe)\<rparr>) sess
           else sess)
   }"

definition create_missing_backend :: "sys \<Rightarrow> int \<Rightarrow> 'a mysql_session_scheme \<Rightarrow> 'w world_scheme \<Rightarrow> ('a mysql_session_scheme \<times> 'w world_scheme) option" where
  "create_missing_backend sy h sess w = do {
     active \<leftarrow> active_backend_for_hostgroup h sess w;
     if active then Some (sess, w)
     else do { (_, sess, w) \<leftarrow> mysql_session_create_backend_for_hostgroup sy h sess w; Some (sess, w) }
   }"

definition send_to_backend :: "sys \<Rightarrow> pkt \<Rightarrow> 'a mysql_session_scheme \<Rightarrow> 'w world_scheme \<Rightarrow> (int option \<times> 'a mysql_session_scheme \<times> 'w world_scheme) option" where
  "send_to_backend sy p sess w = do {
     sess \<leftarrow> packet_destination sess w;
     let h = qi_destination_hostgroup (rs_query_info sess);
     if h = -1 then None
     else do {
       (sess, w) \<leftarrow> create_missing_backend sy h sess w;
       let i = nat h;
       sess \<leftarrow> mark_prepared i sess;
       mybe \<leftarrow> backend sess i;
       if be_mshge mybe = None then Some (Some 0, queue_back p sess, w)
       else if be_server_mycpe mybe = None then refuse sy sess w
       else do {
         srv \<leftarrow> backend_server mybe w;
         if sr_status srv = OFFLINE_HARD then Some (Some (-1), sess, w)
         else if sr_status srv = OFFLINE_SOFT
         then do {
           myds \<leftarrow> be_server_myds mybe;
           if ds_active_transaction myds = 0
           then do {
             (sess, w) \<leftarrow> reset_backend sy 0 i sess w;
             (_, sess, w) \<leftarrow> mysql_session_create_backend_for_hostgroup sy h sess w;
             forward_pkt i p sess w
           }
           else forward_pkt i p sess w
         }
         else forward_pkt i p sess w
       }
     }
   }"

subsection \<open>The packets of a client\<close>

definition start_command :: "pkt \<Rightarrow> 'a mysql_session_scheme \<Rightarrow> 'w config_scheme \<Rightarrow> 'a mysql_session_scheme option" where
  "start_command p sess w = do {
     data \<leftarrow> pk_data p;
     c \<leftarrow> map_option le_nat (mem_read data hdr_size 1);
     Some (sess\<lparr>ss_client_command := c, ss_mysql_query_cache_hit := False, ss_query_to_cache := False, ss_send_to_slave := False,
       ss_mysql_server_reconnect := (as_admin sess = 0 \<and> int (pk_length p) < glovar ''mysql_max_query_size'' w
         \<and> c \<in> {MYSQL_COM_INIT_DB, MYSQL_COM_QUERY, MYSQL_COM_STATISTICS})\<rparr>)
   }"

definition other_command :: "sys \<Rightarrow> pkt \<Rightarrow> 'a mysql_session_scheme \<Rightarrow> 'w world_scheme \<Rightarrow> ('a mysql_session_scheme \<times> 'w world_scheme) option" where
  "other_command sy p sess w = do {
     (sess, w) \<leftarrow> (if \<not> as_waiting_change_user_response sess then Some (sess, w)
       else do {
         glo \<leftarrow> glo_users_of w;
         (rc, sess) \<leftarrow> check_auth_switch_response_packet (sy_sha1 sy) glo p sess;
         if rc = -1 then Some (sess\<lparr>ss_healthy := False\<rparr>, w)
         else answer_ok sy 3 (sess\<lparr>ss_mysql_query_cache_hit := True\<rparr>) w
       });
     Some (if as_admin sess > 0 then sess\<lparr>ss_healthy := False\<rparr> else sess, w)
   }"

definition client_command :: "sys \<Rightarrow> sqlite \<Rightarrow> int \<Rightarrow> pkt \<Rightarrow> 'a mysql_session_scheme \<Rightarrow> 'w world_scheme \<Rightarrow> (pkt \<times> 'a mysql_session_scheme \<times> 'w world_scheme) option" where
  "client_command sy sq thread_id p sess w =
     (if ss_client_command sess = MYSQL_COM_STATISTICS then Some (p, client_COM_STATISTICS sess, w)
      else if ss_client_command sess = MYSQL_COM_INIT_DB then map_option (Pair p) (client_COM_INIT_DB sy p sess w)
      else if ss_client_command sess = MYSQL_COM_QUERY
      then (if as_admin sess = 0 then client_COM_QUERY sy p sess w else map_option (Pair p) (admin_COM_QUERY sy sq thread_id p sess w))
      else if ss_client_command sess = MYSQL_COM_CHANGE_USER then map_option (Pair p) (client_COM_CHANGE_USER sy p sess w)
      else map_option (Pair p) (other_command sy p sess w))"

definition client_packet :: "sys \<Rightarrow> sqlite \<Rightarrow> int \<Rightarrow> pkt \<Rightarrow> 'a mysql_session_scheme \<Rightarrow> 'w world_scheme \<Rightarrow> (int option \<times> 'a mysql_session_scheme \<times> 'w world_scheme) option" where
  "client_packet sy sq thread_id p sess w = do {
     sess \<leftarrow> start_command p sess w;
     if ss_client_command sess = MYSQL_COM_QUIT then Some (Some (-1), sess, w)
     else do {
       (p, sess, w) \<leftarrow> client_command sy sq thread_id p sess w;
       if \<not> ss_healthy sess then refuse sy sess w
       else do {
         let sess = upd_info (qi_prepared_statement_update (\<lambda>_. ss_client_command sess \<in> set MYSQL_COM_STMT)) sess;
         if ss_mysql_query_cache_hit sess then Some (None, sess, w)
         else send_to_backend sy p sess w
       }
     }
   }"

definition next_client_pkt :: "'a mysql_session_scheme \<Rightarrow> (pkt \<times> 'a mysql_session_scheme) option" where
  "next_client_pkt sess =
     (let myds = ss_client_myds sess
      in case ud_pkts (ds_input myds) of
           [] \<Rightarrow> None
         | p # ps \<Rightarrow> Some (p, sess\<lparr>ss_client_myds := myds\<lparr>ds_input := (ds_input myds)\<lparr>ud_pkts := ps\<rparr>\<rparr>\<rparr>))"

text \<open>Every round of the loop takes a packet, and none adds one and goes on: as many rounds as packets are enough.\<close>

fun client_loop :: "sys \<Rightarrow> sqlite \<Rightarrow> int \<Rightarrow> nat \<Rightarrow> 'a mysql_session_scheme \<Rightarrow> 'w world_scheme \<Rightarrow> (int \<times> 'a mysql_session_scheme \<times> 'w world_scheme) option" where
  "client_loop sy sq thread_id 0 sess w = Some (0, sess, w)"
| "client_loop sy sq thread_id (Suc n) sess w = do {
     (p, sess) \<leftarrow> next_client_pkt sess;
     (r, sess, w) \<leftarrow> client_packet sy sq thread_id p sess w;
     case r of Some r \<Rightarrow> Some (r, sess, w) | None \<Rightarrow> client_loop sy sq thread_id n sess w
   }"

definition process_client_pkts :: "sys \<Rightarrow> sqlite \<Rightarrow> int \<Rightarrow> 'a mysql_session_scheme \<Rightarrow> 'w world_scheme \<Rightarrow> (int \<times> 'a mysql_session_scheme \<times> 'w world_scheme) option" where
  "process_client_pkts sy sq thread_id sess w = client_loop sy sq thread_id (length (ud_pkts (ds_input (ss_client_myds sess)))) sess w"

subsection \<open>Maintenance\<close>

definition remove_backend_offline_soft :: "sys \<Rightarrow> nat \<Rightarrow> 'a mysql_session_scheme \<Rightarrow> 'w world_scheme \<Rightarrow> ('a mysql_session_scheme \<times> 'w world_scheme) option" where
  "remove_backend_offline_soft sy j sess w = do {
     mybe \<leftarrow> backend sess j;
     srv \<leftarrow> backend_server mybe w;
     if sr_status srv \<noteq> OFFLINE_SOFT then Some (sess, w)
     else do {
       myds \<leftarrow> be_server_myds mybe;
       if ds_active_transaction myds \<noteq> 0 then Some (sess, w)
       else if ss_server_mybe sess = Some j then reset_backend sy 0 j sess w
       else do {
         cur \<leftarrow> server_myds sess;
         if ss_server_bytes_at_cmd sess = ds_bytes_info cur then reset_backend sy 0 j sess w else Some (sess, w)
       }
     }
   }"

fun remove_offline_loop :: "sys \<Rightarrow> nat list \<Rightarrow> 'a mysql_session_scheme \<Rightarrow> 'w world_scheme \<Rightarrow> ('a mysql_session_scheme \<times> 'w world_scheme) option" where
  "remove_offline_loop sy [] sess w = Some (sess, w)"
| "remove_offline_loop sy (j # js) sess w = do {
     (sess, w) \<leftarrow> remove_backend_offline_soft sy j sess w;
     remove_offline_loop sy js sess w
   }"

fun count_offline_loop :: "nat list \<Rightarrow> 'a mysql_session_scheme \<Rightarrow> 'w config_scheme \<Rightarrow> nat option" where
  "count_offline_loop [] sess w = Some 0"
| "count_offline_loop (j # js) sess w = do {
     mybe \<leftarrow> backend sess j;
     srv \<leftarrow> backend_server mybe w;
     cnt \<leftarrow> count_offline_loop js sess w;
     Some (cnt + of_bool (sr_status srv = OFFLINE_SOFT))
   }"

definition remove_all_backends_offline_soft :: "sys \<Rightarrow> 'a mysql_session_scheme \<Rightarrow> 'w world_scheme \<Rightarrow> (nat \<times> 'a mysql_session_scheme \<times> 'w world_scheme) option" where
  "remove_all_backends_offline_soft sy sess w = do {
     (sess, w) \<leftarrow> remove_offline_loop sy [0..<mysql_hostgroups w] sess w;
     cnt \<leftarrow> count_offline_loop [0..<mysql_hostgroups w] sess w;
     Some (cnt, sess, w)
   }"

subsection \<open>The life of a session\<close>

definition drop_resultset :: "'a mysql_session_scheme \<Rightarrow> 'a mysql_session_scheme option" where
  "drop_resultset sess = do { free_pkts (ss_resultset sess); Some (sess\<lparr>ss_resultset := []\<rparr>) }"

definition free_user_pass_schema :: "'a mysql_session_scheme \<Rightarrow> 'a mysql_session_scheme" where
  "free_user_pass_schema sess = sess\<lparr>as_username := None, as_password := None, as_schema_cur := None, ss_schema_new := None\<rparr>"

definition initialize_backends :: "'a mysql_session_scheme \<Rightarrow> 'w config_scheme \<Rightarrow> 'a mysql_session_scheme" where
  "initialize_backends sess w = sess\<lparr>ss_mybes := replicate (mysql_hostgroups w) mysql_backend_new\<rparr>"

definition free_backends :: "sys \<Rightarrow> 'a mysql_session_scheme \<Rightarrow> 'w world_scheme \<Rightarrow> ('a mysql_session_scheme \<times> 'w world_scheme) option" where
  "free_backends sy sess w = do {
     (sess, w) \<leftarrow> reset_loop sy (ss_force_close_backends sess) [0..<mysql_hostgroups w] sess w;
     Some (sess\<lparr>ss_mybes := []\<rparr>, w)
   }"

definition register_connection :: "'a mysql_session_scheme \<Rightarrow> 'w world_scheme \<Rightarrow> 'w world_scheme" where
  "register_connection sess w = w\<lparr>wd_mysql_connections := wd_mysql_connections w @ [ss_self sess],
     wd_mysql_connections_cur := wd_mysql_connections_cur w + 1\<rparr>"

text \<open>\<^verbatim>\<open>g_ptr_array_remove_fast\<close>: the last element takes the place of the first occurrence.\<close>

definition remove_fast :: "nat \<Rightarrow> nat list \<Rightarrow> nat list" where
  "remove_fast x xs = (if x \<in> set xs then remove_index_fast (length (takeWhile (\<lambda>y. y \<noteq> x) xs)) xs else xs)"

definition unregister_connection :: "'a mysql_session_scheme \<Rightarrow> 'w world_scheme \<Rightarrow> 'w world_scheme" where
  "unregister_connection sess w = w\<lparr>wd_mysql_connections := remove_fast (ss_self sess) (wd_mysql_connections w),
     wd_mysql_connections_cur := wd_mysql_connections_cur w - 1\<rparr>"

definition sess_close :: "sys \<Rightarrow> 'a mysql_session_scheme \<Rightarrow> 'w world_scheme \<Rightarrow> ('a mysql_session_scheme \<times> 'w world_scheme) option" where
  "sess_close sy sess w = do {
     let myds = ss_client_myds sess;
     let myds = (if ds_fd myds \<noteq> 0 then shut_hard myds else myds);
     mysql_data_stream_delete myds;
     sess \<leftarrow> drop_resultset (sess\<lparr>ss_client_myds := myds\<rparr>);
     (sess, w) \<leftarrow> free_backends sy (free_user_pass_schema sess) w;
     sess \<leftarrow> init_query_metadata (sy_md5 sy) (sy_junk sy (wd_tick w)) (glovar ''mysql_query_statistics'' w \<noteq> 0)
              (sy_monotonic_time sy (wd_tick w)) None (sess\<lparr>ss_healthy := False\<rparr>);
     Some (sess, unregister_connection sess w)
   }"

definition process_authentication_pkt :: "sys \<Rightarrow> 'a mysql_session_scheme \<Rightarrow> 'w world_scheme \<Rightarrow> ('a mysql_session_scheme \<times> 'w world_scheme) option" where
  "process_authentication_pkt sy sess w = do {
     (hs, sess) \<leftarrow> next_client_pkt sess;
     glo \<leftarrow> glo_users_of w;
     (ret, sess) \<leftarrow> check_client_authentication_packet (sy_sha1 sy) glo hs sess;
     let sess = sess\<lparr>ss_ret := ret\<rparr>;
     if ret \<noteq> 0
     then do {
       hs \<leftarrow> create_err_packet (sy_junk sy (wd_tick w)) 2 1045 access_denied;
       Some (MY_SESS_ADD_PKT_OUT_CLIENT hs sess, tick w)
     }
     else do {
       hs \<leftarrow> create_ok_packet (sy_junk sy (wd_tick w)) 2;
       let sess = (if as_schema_cur sess = None then sess\<lparr>as_schema_cur := cf_str w ''glovars.mysql_default_schema''\<rparr> else sess);
       Some (MY_SESS_ADD_PKT_OUT_CLIENT hs sess, tick w)
     }
   }"

text \<open>The first result is \<open>False\<close> where the code jumps to the end of the session.\<close>

definition handler_output :: "sys \<Rightarrow> 'a mysql_session_scheme \<Rightarrow> 'w world_scheme \<Rightarrow> (bool \<times> 'a mysql_session_scheme \<times> 'w world_scheme) option" where
  "handler_output sy sess w = do {
     (sess, w) \<leftarrow> process_server_pkts sy sess w;
     sess \<leftarrow> array2buffer_2 sess;
     (ok, sess, w) \<leftarrow> (case server_myds sess of
         None \<Rightarrow> sync_net sy True sess w
       | Some myds \<Rightarrow> if ss_last_server_poll_fd sess = ds_fd myds then sync_net sy True sess w else Some (True, sess, w));
     if \<not> ok then Some (False, sess, w)
     else Some (\<not> (ds_pkts_sent (ss_client_myds sess) = 2 \<and> ds_pkts_recv (ss_client_myds sess) = 1 \<and> as_schema_cur sess = None), sess, w)
   }"

definition handler_commands :: "sys \<Rightarrow> sqlite \<Rightarrow> int \<Rightarrow> 'a mysql_session_scheme \<Rightarrow> 'w world_scheme \<Rightarrow> (bool \<times> 'a mysql_session_scheme \<times> 'w world_scheme) option" where
  "handler_commands sy sq thread_id sess w = do {
     (r, sess, w) \<leftarrow> process_client_pkts sy sq thread_id sess w;
     if r = -1 then Some (False, sess, w) else handler_output sy sess w
   }"

definition handler_packets :: "sys \<Rightarrow> sqlite \<Rightarrow> int \<Rightarrow> 'a mysql_session_scheme \<Rightarrow> 'w world_scheme \<Rightarrow> (bool \<times> 'a mysql_session_scheme \<times> 'w world_scheme) option" where
  "handler_packets sy sq thread_id sess w = do {
     (sess, w) \<leftarrow> (if ds_pkts_sent (ss_client_myds sess) = 1 \<and> ds_pkts_recv (ss_client_myds sess) = 1
                  then process_authentication_pkt sy sess w else Some (sess, w));
     handler_commands sy sq thread_id sess w
   }"

definition session_work :: "sys \<Rightarrow> sqlite \<Rightarrow> int \<Rightarrow> 'a mysql_session_scheme \<Rightarrow> 'w world_scheme \<Rightarrow> (bool \<times> 'a mysql_session_scheme \<times> 'w world_scheme) option" where
  "session_work sy sq thread_id sess w =
     (if \<not> ss_healthy sess \<or> \<not> ds_active (ss_client_myds sess) then Some (False, sess, w)
      else do {
        (ok, sess, w) \<leftarrow> sync_net sy False sess w;
        if \<not> ok then Some (False, sess, w)
        else do { (sess, w) \<leftarrow> buffer2array_2 sy sess w; handler_packets sy sq thread_id sess w }
      })"

definition CONNECTION_ALL :: "32 word" where
  "CONNECTION_ALL = CONNECTION_READING_CLIENT OR CONNECTION_WRITING_CLIENT OR CONNECTION_READING_SERVER OR CONNECTION_WRITING_SERVER"

definition session_handler :: "sys \<Rightarrow> sqlite \<Rightarrow> int \<Rightarrow> 'a mysql_session_scheme \<Rightarrow> 'w world_scheme \<Rightarrow> (int \<times> 'a mysql_session_scheme \<times> 'w world_scheme) option" where
  "session_handler sy sq thread_id sess w = do {
     (ok, sess, w) \<leftarrow> session_work sy sq thread_id (sess\<lparr>ss_status := CONNECTION_ALL\<rparr>) w;
     if ok then Some (0, sess, w)
     else do { (sess, w) \<leftarrow> sess_close sy sess w; Some (-1, sess, w) }
   }"

text \<open>\<^verbatim>\<open>g_malloc0\<close> clears the session; the fields that the code sets afterwards have their values here.\<close>

definition empty_query_info :: query_metadata where
  "empty_query_info = \<lparr>qi_p = None, qi_query_checksum = None, qi_flagOUT = 0, qi_rewritten = False, qi_cache_ttl = 0,
     qi_destination_hostgroup = 0, qi_audit_log = 0, qi_performance_log = 0, qi_mysql_query_cache_hit = False, qi_query = None,
     qi_prepared_statement = False, qi_query_stats = NullStats\<rparr>"

definition mysql_session_new :: "sys \<Rightarrow> int \<Rightarrow> 'w world_scheme \<Rightarrow> mysql_session \<times> 'w world_scheme" where
  "mysql_session_new sy client_fd w =
     (let (myds, _) = mysql_data_stream_new (sy_junk sy (wd_tick w)) (nat (glovar ''net_buffer_size'' w)) 0 False (ds_env_of False no_mshge client_fd w);
          myds = mysql_data_stream_setfd myds client_fd;
          no_bytes = \<lparr>bs_recv = 0, bs_sent = 0\<rparr>;
          sess = \<lparr>as_admin = 0, as_username = None, as_password = None, as_schema_cur = None, as_scramble_buf = replicate 21 0,
            as_waiting_change_user_response = False, rs_query_info = empty_query_info, rs_default_hostgroup = -1,
            rs_default_hostgroup_version = -1, ss_self = sy_address sy (wd_tick w), ss_client_fd = client_fd, ss_healthy = True,
            ss_server_fd = 0, ss_status = 0, ss_force_close_backends = 0, ss_ret = 0,
            ss_fds = (\<lparr>pf_fd = ds_fd myds, pf_events = [POLLIN, POLLOUT], pf_revents = []\<rparr>, \<lparr>pf_fd = 0, pf_events = [], pf_revents = []\<rparr>),
            ss_nfds = 1, ss_last_server_poll_fd = 0, ss_server_bytes_at_cmd = no_bytes, ss_client_command = MYSQL_COM_END,
            ss_resultset_progress = RESULTSET_WAITING, ss_resultset_size = 0, ss_query_to_cache = False, ss_resultset = [],
            ss_client_myds = myds, ss_server_mybe = None, ss_mybes = [], ss_schema_new = None, ss_mysql_query_cache_hit = False,
            ss_mysql_server_reconnect = True, ss_net_failure = False, ss_send_to_slave = False\<rparr>
      in (initialize_backends sess w, tick (register_connection sess w)))"

text \<open>\<open>glo\<close> is what \<^verbatim>\<open>glovars\<close> says about the server, and \<open>rand1\<close> and \<open>rand2\<close> seed the scramble.\<close>

definition send_auth_pkt :: "server_greeting \<Rightarrow> nat \<Rightarrow> nat \<Rightarrow> nat \<Rightarrow> 'a mysql_session_scheme \<Rightarrow> 'a mysql_session_scheme option" where
  "send_auth_pkt glo thread_id rand1 rand2 sess = do {
     (hs, scramble_buf) \<leftarrow> create_handshake_packet glo thread_id rand1 rand2 (as_scramble_buf sess);
     Some (MY_SESS_ADD_PKT_OUT_CLIENT hs (sess\<lparr>as_scramble_buf := scramble_buf\<rparr>))
   }"

subsection \<open>Maintenance\<close>

lemma backend_reset_mshge:
  assumes "backend_reset sy fc mybe w = Some (mybe', w')"
  shows "be_mshge mybe' = None" "mysql_hostgroups w' = mysql_hostgroups w"
  using assms
  by (auto simp: backend_reset_def backend_reset_server_myds_def backend_reset_server_mycpe_def upd_mshge_def mysql_hostgroups_def glovar_def
      Let_def split: option.splits Option.bind_splits if_splits prod.splits)

text \<open>A backend without a server.\<close>

definition vacant :: "'a mysql_session_scheme \<Rightarrow> nat \<Rightarrow> bool" where
  "vacant sess i \<longleftrightarrow> (\<exists>mybe. backend sess i = Some mybe \<and> be_mshge mybe = None)"

lemma backend_lt: "backend sess i = Some mybe \<Longrightarrow> i < length (ss_mybes sess)"
  by (simp add: backend_def split: if_splits)

lemma reset_backend_vacant:
  assumes "reset_backend sy fc j sess w = Some (sess', w')"
  shows "mysql_hostgroups w' = mysql_hostgroups w" "vacant sess' j" "vacant sess i \<Longrightarrow> vacant sess' i"
proof -
  obtain mybe mybe' where b: "backend sess j = Some mybe" "backend_reset sy fc mybe w = Some (mybe', w')" "sess' = set_backend j mybe' sess"
    using assms by (auto simp: reset_backend_def split: Option.bind_splits)
  note r = backend_reset_mshge [OF b(2)] backend_lt [OF b(1)]
  show "mysql_hostgroups w' = mysql_hostgroups w" by (rule r)
  show "vacant sess' j" "vacant sess i \<Longrightarrow> vacant sess' i"
    using r b(1,3) by (auto simp: vacant_def backend_def set_backend_def nth_list_update split: if_splits)
qed

lemma remove_offline_vacant:
  assumes "remove_backend_offline_soft sy j sess w = Some (sess', w')"
  shows "mysql_hostgroups w' = mysql_hostgroups w \<and> (sess' = sess \<and> w' = w \<or> vacant sess' j) \<and> (\<forall>i. vacant sess i \<longrightarrow> vacant sess' i)"
proof (cases "reset_backend sy 0 j sess w = Some (sess', w')")
  case True
  show ?thesis using reset_backend_vacant [OF True] by blast
next
  case False
  then have "sess' = sess \<and> w' = w"
    using assms by (auto simp: remove_backend_offline_soft_def split: Option.bind_splits if_splits)
  then show ?thesis by simp
qed

lemma remove_loop_vacant:
  assumes "remove_offline_loop sy js sess w = Some (sess', w')"
  shows "mysql_hostgroups w' = mysql_hostgroups w \<and> (sess' = sess \<and> w' = w \<or> (\<exists>j\<in>set js. vacant sess' j)) \<and> (\<forall>i. vacant sess i \<longrightarrow> vacant sess' i)"
  using assms
proof (induction js arbitrary: sess w)
  case (Cons j js)
  then obtain s1 w1 where s: "remove_backend_offline_soft sy j sess w = Some (s1, w1)" "remove_offline_loop sy js s1 w1 = Some (sess', w')"
    by (auto split: Option.bind_splits)
  show ?case using remove_offline_vacant [OF s(1)] Cons.IH [OF s(2)] by auto
qed simp

lemma count_offline_occupied: "count_offline_loop js sess w = Some cnt \<Longrightarrow> j \<in> set js \<Longrightarrow> \<not> vacant sess j"
proof (induction js arbitrary: cnt)
  case (Cons a js)
  then show ?case by (auto simp: vacant_def backend_server_def split: Option.bind_splits)
qed simp

text \<open>
  C39. Maintenance: \<^verbatim>\<open>remove_all_backends_offline_soft\<close>, with which \<^verbatim>\<open>REMOVE SERVER\<close> has every session give up the servers
  that go offline, never removes a backend. It counts afterwards through \<^verbatim>\<open>mybe->mshge\<close>, which is \<^verbatim>\<open>NULL\<close> once
  a backend was reset: where there is a backend to remove, the process crashes, and where it returns, the
  session is as it was and every hostgroup had a backend with a server.
\<close>

theorem offline_soft_never_removed:
  assumes "remove_all_backends_offline_soft sy sess w = Some (cnt, sess', w')"
  shows "sess' = sess \<and> w' = w \<and> (\<forall>j<mysql_hostgroups w. \<not> vacant sess j)"
proof -
  have l: "remove_offline_loop sy [0..<mysql_hostgroups w] sess w = Some (sess', w')"
    and c: "count_offline_loop [0..<mysql_hostgroups w'] sess' w' = Some cnt"
    using assms by (auto simp: remove_all_backends_offline_soft_def split: Option.bind_splits)
  have "\<not> vacant sess' j" if "j < mysql_hostgroups w" for j
    using count_offline_occupied [OF c, of j] that remove_loop_vacant [OF l] by simp
  then show ?thesis using remove_loop_vacant [OF l] by auto
qed

definition served_session :: mysql_session where
  "served_session = sample_session\<lparr>ss_mybes := [mysql_backend_new\<lparr>be_mshge := Some 5\<rparr>, mysql_backend_new\<lparr>be_mshge := Some 6\<rparr>]\<rparr>"

theorem offline_soft_never_removed_witness:
  "remove_all_backends_offline_soft sample_sys served_session sample_world = Some (0, served_session, sample_world)
   \<and> \<not> vacant served_session 0 \<and> \<not> vacant served_session 1"
proof -
  have "remove_all_backends_offline_soft sample_sys served_session sample_world = Some (0, served_session, sample_world)"
    by (simp add: remove_all_backends_offline_soft_def remove_backend_offline_soft_def mysql_hostgroups_def glovar_def sample_world_def
        backend_server_def backend_def served_session_def sample_srvs_def upt_conv_Cons)
  then show ?thesis
    using offline_soft_never_removed [of sample_sys served_session sample_world 0 served_session sample_world]
    by (simp add: mysql_hostgroups_def glovar_def sample_world_def)
qed

subsection \<open>A change of user\<close>

lemma reset_loop_auth:
  "reset_loop sy fc js sess w = Some (sess', w') \<Longrightarrow> as_username sess' = as_username sess"
proof (induction js arbitrary: sess w)
  case (Cons j js)
  then obtain s1 w1 where "reset_backend sy fc j sess w = Some (s1, w1)" "reset_loop sy fc js s1 w1 = Some (sess', w')"
    by (auto split: Option.bind_splits)
  then show ?case using Cons.IH [of s1 w1] by (auto simp: reset_backend_def set_backend_def split: Option.bind_splits)
qed simp

lemma disconnect_backends_auth:
  "disconnect_backends sy sess w = Some (sess', w') \<Longrightarrow> as_username sess' = as_username sess"
  by (auto simp: disconnect_backends_def reset_current_def reset_backend_def set_backend_def
      split: Option.bind_splits option.splits if_splits dest!: reset_loop_auth)

lemma length_c_string_zero:
  assumes "i < length bs" and "bs ! i = 0"
  shows "length (c_string bs) \<le> i"
proof (rule ccontr)
  assume *: "\<not> length (c_string bs) \<le> i"
  then have "c_string bs ! i \<in> set (c_string bs)" by (intro nth_mem) simp
  moreover have "c_string bs ! i = bs ! i" using * by (simp add: c_string_def takeWhile_nth)
  ultimately show False using assms(2) by (auto simp: c_string_def dest: set_takeWhileD)
qed

lemma le_bytes_nth: "i < n \<Longrightarrow> le_bytes n v ! i = of_nat (v div 256 ^ i mod 256)"
proof (induction n arbitrary: i v)
  case (Suc n)
  then show ?case by (cases i) (simp_all add: div_mult2_eq)
qed simp

lemma le_bytes_high: "n < 2 ^ 48 \<Longrightarrow> le_bytes 8 n ! 6 = 0"
  by (subst le_bytes_nth) simp_all

lemma freed_name:
  assumes "link < 2 ^ 48" and "pk_data (freed_pkt link p) = Some data"
  shows "length (c_string (drop 5 data)) \<le> 1"
proof (cases "length data < 7")
  case True
  then show ?thesis using length_takeWhile_le [of "\<lambda>b. b \<noteq> 0" "drop 5 data"] by (simp add: c_string_def)
next
  case False
  obtain d where d: "data = take (length d) (le_bytes 8 link) @ drop 8 d"
    using assms(2) by (auto simp: freed_pkt_def split: if_splits)
  then have "length d = length data" by (cases "length d < 8") auto
  then have "data ! 6 = 0" using False d le_bytes_high [OF assms(1)] by (subst d) (simp add: nth_append del: le_bytes.simps)
  then have "drop 5 data ! 1 = 0" using False by simp
  then show ?thesis using length_c_string_zero [of 1 "drop 5 data"] False by simp
qed

text \<open>
  C40. Change of user: \<^verbatim>\<open>client_COM_CHANGE_USER\<close> frees the packet before it reads the name from it. The free list keeps
  its link in the first eight bytes of the block and the name starts at the sixth: with user space addresses, which are
  below \<open>2 ^ 48\<close>, at most one byte of the address is left of any name, and the change of user cannot succeed
  for a user with a longer one.
\<close>

theorem change_user_loses_name:
  assumes "client_COM_CHANGE_USER sy p sess w = Some (sess', w')" and "as_admin sess = 0" and "sy_address sy (wd_tick w) < 2 ^ 48"
  shows "\<exists>u. as_username sess' = Some u \<and> length u \<le> 1"
proof -
  obtain data where d: "pk_data (freed_pkt (sy_address sy (wd_tick w)) p) = Some data" "as_username sess' = Some (c_string (drop 5 data))"
    using assms(1,2)
    by (auto simp: client_COM_CHANGE_USER_def parse_change_user_packet_def read_cstr_def hdr_size_def MY_SESS_ADD_PKT_OUT_CLIENT_def Let_def
        split: Option.bind_splits if_splits dest!: disconnect_backends_auth)
  show ?thesis using freed_name [OF assms(3) d(1)] d(2) by simp
qed


text \<open>The packet of a change to the user \<^verbatim>\<open>rob\<close>.\<close>

definition change_user_pkt :: pkt where
  "change_user_pkt = \<lparr>pk_length = 40, pk_data = Some ([36, 0, 0, 0, 17, 114, 111, 98, 0, 20] @ replicate 30 0)\<rparr>"

lemma le_bytes_zero: "le_bytes n 0 = replicate n 0"
  by (induction n) simp_all

lemma change_user_freed: "freed_pkt 0 change_user_pkt = \<lparr>pk_length = 40, pk_data = Some (replicate 8 0 @ [0, 20] @ replicate 30 0)\<rparr>"
  by (simp add: freed_pkt_def change_user_pkt_def le_bytes_zero del: le_bytes.simps)

lemma auth_switch_request: "\<exists>q. create_auth_switch_request_packet buf = Some q"
  unfolding create_auth_switch_request_packet_def
  by (rule exI, rule make_pkt_spec(1)) (simp_all add: l_alloc0_def)

theorem change_user_loses_name_witness:
  "\<exists>sess' w'. client_COM_CHANGE_USER sample_sys change_user_pkt (sample_session\<lparr>ss_mybes := [mysql_backend_new, mysql_backend_new]\<rparr>) sample_world = Some (sess', w')
    \<and> (\<exists>u. as_username sess' = Some u \<and> length u \<le> 1)"
proof -
  let ?s = "sample_session\<lparr>ss_mybes := [mysql_backend_new, mysql_backend_new]\<rparr>"
  have a: "as_admin ?s = 0" "ss_server_mybe ?s = None" "sy_address sample_sys (wd_tick sample_world) = 0"
    by (simp_all add: sample_session_def rule_sess.defs mysql_session.defs sample_sess_def sample_sys_def sample_world_def)
  have p: "parse_change_user_packet (freed_pkt 0 change_user_pkt) sess = Some (0, sess\<lparr>as_username := Some [], as_schema_cur := Some []\<rparr>)" for sess :: mysql_session
    by (simp add: change_user_freed parse_change_user_packet_def read_cstr_def hdr_size_def c_string_def)
  obtain q where q: "create_auth_switch_request_packet (as_scramble_buf ?s) = Some q"
    using auth_switch_request by blast
  have h: "mysql_hostgroups sample_world = 2" by (simp add: mysql_hostgroups_def glovar_def sample_world_def)
  have b: "backend_reset sample_sys 0 mysql_backend_new w = Some (mysql_backend_new, w)" for w :: world
    by (simp add: backend_reset_def backend_reset_server_myds_def backend_reset_server_mycpe_def mysql_backend_new_def)
  have "\<exists>sess' w'. client_COM_CHANGE_USER sample_sys change_user_pkt ?s sample_world = Some (sess', w')"
    using p q a h by (simp add: client_COM_CHANGE_USER_def MY_SESS_ADD_PKT_OUT_CLIENT_def disconnect_backends_def reset_current_def
        reset_backend_def backend_def set_backend_def b mysql_hostgroups_def glovar_def upt_conv_Cons Let_def)
  then show ?thesis using change_user_loses_name [of sample_sys change_user_pkt ?s sample_world] a by auto
qed

end
