(* ===== verification/Clients.thy ===== *)
theory Clients
  imports Session
begin

section \<open>Clients\<close>

text \<open>
  What a session of \<^verbatim>\<open>src/mysql_session.c\<close> does for its client, from the bytes that arrive at the socket to the packet that is
  queued for a server. \<open>first_round\<close> takes a session from the socket to the packets; on it rest the theorems on
  authentication, which is decided by the reply if the client sends one packet and is left out if it sends two.
  The last part follows a statement from the client through the rules to a server of its hostgroup.
\<close>

subsection \<open>The first round of a client\<close>

text \<open>The greeting has gone out, nothing has come in, and something is there to be read.\<close>

definition greeted :: "'a mysql_session_scheme \<Rightarrow> bool" where
  "greeted sess \<longleftrightarrow> (let c = ss_client_myds sess in
     ss_healthy sess \<and> \<not> ss_net_failure sess \<and> ss_server_mybe sess = None \<and> POLLIN \<in> set (pf_revents (fst (ss_fds sess)))
     \<and> ds_active c \<and> 0 < ds_fd c \<and> ds_pkts_sent c = 1 \<and> ds_pkts_recv c = 0 \<and> \<not> ds_mybe c
     \<and> in_inv (ds_input c) \<and> in_stream (ds_input c) = [] \<and> ud_pkts (ds_input c) = []
     \<and> out_inv (ds_output c) \<and> out_stream (ds_output c) = [] \<and> ud_pkts (ds_output c) = [])"

text \<open>The session after bytes have been read and framed: only the input of the client's stream has changed.\<close>

definition has_read :: "byte list \<Rightarrow> 'a mysql_session_scheme \<Rightarrow> 'a mysql_session_scheme \<Rightarrow> bool" where
  "has_read bs sess sess1 \<longleftrightarrow> (\<exists>u bi n. sess1 = sess\<lparr>ss_client_myds := (ss_client_myds sess)\<lparr>ds_input := u, ds_bytes_info := bi, ds_pkts_recv := n\<rparr>\<rparr>
     \<and> in_inv u \<and> map pkt_bytes (ud_pkts u) = fst (frames bs) \<and> n = length (fst (frames bs)))"

lemma current_none [simp]: "ss_server_mybe sess = None \<Longrightarrow> current sess = None"
  by (simp add: current_def)

lemma server_myds_none [simp]: "ss_server_mybe sess = None \<Longrightarrow> server_myds sess = None"
  by (simp add: server_myds_def)

lemma client_write_nothing:
  "queue_data (ud_queue (ds_output (ss_client_myds sess))) = 0 \<Longrightarrow> client_write_to_net sy sess w = Some (sess, tick w)"
  by (simp add: client_write_to_net_def write_to_net_def ds_env_of_def)

lemma read_from_net_client:
  assumes "in_inv (ds_input ds)" and "bs \<noteq> []" and "length bs \<le> queue_available (ud_queue (ds_input ds))" and "\<not> ds_mybe ds"
  shows "\<exists>u bi. read_from_net (Some bs) ds env = Some (int (length bs), ds\<lparr>ds_input := u, ds_bytes_info := bi\<rparr>, env)
    \<and> in_inv u \<and> in_stream u = in_stream (ds_input ds) @ bs \<and> ud_pkts u = ud_pkts (ds_input ds)"
proof -
  obtain q where q: "queue_put (ud_queue (ds_input ds)) bs = Some q" "queue_inv q" "pending q = pending (ud_queue (ds_input ds)) @ bs"
    using queue_put_spec [of "ud_queue (ds_input ds)" bs] assms(1,3) by (auto simp: in_inv_def)
  let ?u = "(ds_input ds)\<lparr>ud_queue := q\<rparr>" and ?bi = "(ds_bytes_info ds)\<lparr>bs_recv := bs_recv (ds_bytes_info ds) + length bs\<rparr>"
  have "read_from_net (Some bs) ds env = Some (int (length bs), ds\<lparr>ds_input := ?u, ds_bytes_info := ?bi\<rparr>, env)"
    using assms(2,4) q(1) by (cases bs) (simp_all add: read_from_net_def Let_def)
  then show ?thesis using in_inv_queue [OF assms(1) q(2)] q(3)
    by (intro exI [of _ ?u] exI [of _ ?bi]) (simp add: in_stream_queue in_stream_def [of "ds_input ds"])
qed

lemma first_round:
  assumes g: "greeted sess" and r: "sy_recv sy (wd_tick w) = Some bs" "bs \<noteq> []"
    "length bs \<le> queue_available (ud_queue (ds_input (ss_client_myds sess)))"
  shows "\<exists>sess1 t. session_work sy sq thread_id sess w = handler_packets sy sq thread_id sess1 (w\<lparr>wd_tick := t\<rparr>) \<and> has_read bs sess sess1"
proof -
  let ?c = "ss_client_myds sess"
  have i: "in_inv (ds_input ?c)" "\<not> ds_mybe ?c" "in_stream (ds_input ?c) = []" "ud_pkts (ds_input ?c) = []" "0 < ds_fd ?c" "ds_pkts_recv ?c = 0"
    using g by (simp_all add: greeted_def Let_def)
  have o: "queue_data (ud_queue (ds_output ?c)) = 0"
    using g length_pending [of "ud_queue (ds_output ?c)"] by (simp add: greeted_def Let_def out_inv_def out_stream_def)
  define e where "e = ds_env_of (ss_net_failure sess) no_mshge (ds_fd ?c) w"
  obtain u bi where u: "read_from_net (Some bs) ?c e = Some (int (length bs), ?c\<lparr>ds_input := u, ds_bytes_info := bi\<rparr>, e)"
      "in_inv u" "in_stream u = bs" "ud_pkts u = []"
    using read_from_net_client [OF i(1) r(2,3) i(2), of e] i(3,4) by auto
  define s1 where "s1 = sess\<lparr>ss_client_myds := ?c\<lparr>ds_input := u, ds_bytes_info := bi\<rparr>\<rparr>"
  have s1: "ss_client_myds s1 = ?c\<lparr>ds_input := u, ds_bytes_info := bi\<rparr>" "ss_server_mybe s1 = None" "\<not> ss_net_failure s1" "ss_fds s1 = ss_fds sess"
    using g by (simp_all add: s1_def greeted_def Let_def)
  have "client_read_from_net sy sess w = Some (s1, tick w)"
    using r(1,3) u(1) by (simp add: client_read_from_net_def received_def e_def s1_def ds_env_of_def)
  then have rd: "read_from_net_2 sy sess w = Some (s1, tick w)"
    using g s1(2) by (simp add: read_from_net_2_def greeted_def Let_def)
  have cw: "client_write_to_net sy s1 (tick w) = Some (s1, tick (tick w))"
    using o by (intro client_write_nothing) (simp add: s1_def)
  then have "\<exists>t. write_to_net_2 sy False s1 (tick w) = Some (s1, w\<lparr>wd_tick := t\<rparr>)"
    using s1(2) by (auto simp: write_to_net_2_def)
  then obtain t where sn: "sync_net sy False sess w = Some (True, s1, w\<lparr>wd_tick := t\<rparr>)"
    using rd s1(3) by (auto simp: sync_net_def)
  have c1: "in_inv (ds_input (ss_client_myds s1))" "0 < ds_fd (ss_client_myds s1)" using u(2) i(5) by (simp_all add: s1_def)
  obtain u' n where b: "buffer2array_loop (sy_junk sy t) (ss_client_myds s1) = Some ((ss_client_myds s1)\<lparr>ds_input := u', ds_pkts_recv := ds_pkts_recv (ss_client_myds s1) + n\<rparr>)"
      "in_inv u'" "in_stream u' = in_stream (ds_input (ss_client_myds s1))" "length (ud_pkts u') = length (ud_pkts (ds_input (ss_client_myds s1))) + n" "in_idle u'"
    using buffer2array_loop_spec [OF c1, of "sy_junk sy t"] by (elim exE conjE) (rule that)
  define s2 where "s2 = s1\<lparr>ss_client_myds := (ss_client_myds s1)\<lparr>ds_input := u', ds_pkts_recv := n\<rparr>\<rparr>"
  have "buffer2array_2 sy s1 (w\<lparr>wd_tick := t\<rparr>) = Some (s2, w\<lparr>wd_tick := t + 1\<rparr>)"
    using b(1) s1(1,2) i(6) by (simp add: buffer2array_2_def s2_def Let_def)
  then have "session_work sy sq thread_id sess w = handler_packets sy sq thread_id s2 (w\<lparr>wd_tick := t + 1\<rparr>)"
    using sn g by (simp add: session_work_def greeted_def Let_def)
  moreover have f: "map pkt_bytes (ud_pkts u') = fst (frames bs)"
    using in_idle_frames [OF b(2,5)] b(3) u(3) s1(1) by simp
  have "length (ud_pkts u') = n" using b(4) s1(1) u(4) by simp
  then have "n = length (fst (frames bs))" using arg_cong [OF f, of length] by simp
  then have "has_read bs sess s2" unfolding has_read_def
    using b(2) f s1(1) by (intro exI [of _ u'] exI [of _ bi] exI [of _ n]) (simp add: s2_def s1_def)
  ultimately show ?thesis by blast
qed

lemma pkt_ok_bytes: "pkt_ok p \<Longrightarrow> pk_data p = Some (pkt_bytes p) \<and> pk_length p = length (pkt_bytes p)"
  by (auto simp: pkt_ok_def pkt_bytes_def split: option.splits)

lemma pkt_eqI: "pkt_ok p \<Longrightarrow> pkt_ok q \<Longrightarrow> pkt_bytes p = pkt_bytes q \<Longrightarrow> p = q"
  by (cases p; cases q) (auto dest!: pkt_ok_bytes)

lemma pkts_eqI: "\<forall>p\<in>set ps. pkt_ok p \<Longrightarrow> \<forall>p\<in>set qs. pkt_ok p \<Longrightarrow> map pkt_bytes ps = map pkt_bytes qs \<Longrightarrow> ps = qs"
proof (induction ps arbitrary: qs)
  case (Cons p ps)
  from Cons.prems(3) obtain q qs' where q: "qs = q # qs'" by (cases qs) auto
  have "p = q" using Cons.prems q by (intro pkt_eqI) simp_all
  moreover have "ps = qs'" using Cons.prems q by (intro Cons.IH) simp_all
  ultimately show ?case by (simp add: q)
qed simp

text \<open>What is read when the bytes of whole packets arrive.\<close>

lemma has_read_packets:
  assumes "has_read (concat (map pkt_bytes ps)) sess sess1" and "\<forall>p\<in>set ps. pkt_ok p"
  shows "ud_pkts (ds_input (ss_client_myds sess1)) = ps" "ds_pkts_recv (ss_client_myds sess1) = length ps"
    "ds_pkts_sent (ss_client_myds sess1) = ds_pkts_sent (ss_client_myds sess)" "ds_output (ss_client_myds sess1) = ds_output (ss_client_myds sess)"
    "\<exists>c. sess1 = sess\<lparr>ss_client_myds := c\<rparr>"
proof -
  have "\<forall>d\<in>set (map pkt_bytes ps). framed d" using assms(2) by (auto simp: pkt_ok_def pkt_bytes_def split: option.splits)
  then have f: "fst (frames (concat (map pkt_bytes ps))) = map pkt_bytes ps"
    using frames_concat [of "map pkt_bytes ps" "[]"] frames_short [of "[]"] by (simp add: hdr_size_def)
  show "ud_pkts (ds_input (ss_client_myds sess1)) = ps"
    using assms f by (auto simp: has_read_def in_inv_def intro: pkts_eqI)
  show "ds_pkts_recv (ss_client_myds sess1) = length ps"
    "ds_pkts_sent (ss_client_myds sess1) = ds_pkts_sent (ss_client_myds sess)" "ds_output (ss_client_myds sess1) = ds_output (ss_client_myds sess)"
    "\<exists>c. sess1 = sess\<lparr>ss_client_myds := c\<rparr>"
    using assms(1) f by (auto simp: has_read_def)
qed

text \<open>The packets of a command: a statement and a \<^verbatim>\<open>COM_QUIT\<close>.\<close>

definition quit_pkt :: pkt where
  "quit_pkt = framed_pkt 0 [1]"

lemma quit_pkt_ok: "pkt_ok quit_pkt" "pk_data quit_pkt = Some [1, 0, 0, 0, 1]"
  by (simp_all add: quit_pkt_def framed_pkt_def pkt_ok_def framed_def hdr_size_def mysql_hdr_def numeral_3_eq_3 hdr_pkt_length_def)

lemma query_pkt_ok: "length q < 1000 \<Longrightarrow> pkt_ok (QueryRules.query_pkt q)"
  by (simp add: QueryRules.query_pkt_def pkt_ok_def framed_def hdr_size_def)

lemma client_quit:
  "client_packet sy sq thread_id quit_pkt sess w = Some (Some (-1),
     sess\<lparr>ss_client_command := 1, ss_mysql_query_cache_hit := False, ss_query_to_cache := False, ss_send_to_slave := False, ss_mysql_server_reconnect := False\<rparr>, w)"
  by (simp add: client_packet_def start_command_def quit_pkt_ok mem_read_def hdr_size_def com_defs)

lemma start_query:
  "start_command (QueryRules.query_pkt q) sess w = Some (sess\<lparr>ss_client_command := 3, ss_mysql_query_cache_hit := False, ss_query_to_cache := False,
     ss_send_to_slave := False, ss_mysql_server_reconnect := (as_admin sess = 0 \<and> int (length q) + 5 < glovar ''mysql_max_query_size'' w)\<rparr>)"
  by (auto simp: start_command_def QueryRules.query_pkt_def mem_read_def hdr_size_def com_defs)

text \<open>A session with the command byte of a statement.\<close>

definition query_begun :: "'a mysql_session_scheme \<Rightarrow> 'a mysql_session_scheme" where
  "query_begun sess = sess\<lparr>ss_client_command := 3, ss_mysql_query_cache_hit := False, ss_query_to_cache := False,
     ss_send_to_slave := False, ss_mysql_server_reconnect := False\<rparr>"

lemma client_admin_query:
  assumes "as_admin sess = 1" and "admin_COM_QUERY sy sq thread_id (QueryRules.query_pkt q) (query_begun sess) w = Some (s, w')"
    and "ss_healthy s" and "ss_mysql_query_cache_hit s" and "ss_client_command s = 3"
  shows "client_packet sy sq thread_id (QueryRules.query_pkt q) sess w = Some (None, upd_info (qi_prepared_statement_update (\<lambda>_. False)) s, w')"
  using assms by (simp add: client_packet_def start_query query_begun_def client_command_def com_defs)

text \<open>
  C38. Authentication can be left out: the session authenticates a client when exactly one packet has come in since the
  greeting. A client of the administration port that sends its first two packets together is never asked, and
  both are executed: \<^verbatim>\<open>SHUTDOWN\<close> and \<^verbatim>\<open>COM_QUIT\<close> in one segment end the proxy, without a user or a password.
\<close>

theorem unauthenticated_shutdown:
  assumes "greeted sess" and "as_admin sess = 1" and "as_username sess = None"
    and "sy_recv sy (wd_tick w) = Some (pkt_bytes (QueryRules.query_pkt (str ''SHUTDOWN'')) @ pkt_bytes quit_pkt)"
    and "18 \<le> queue_available (ud_queue (ds_input (ss_client_myds sess)))"
    and "\<forall>t. update_runtime_statistics sy 1 (w\<lparr>wd_tick := t\<rparr>) \<noteq> None"
  shows "\<exists>sess' w'. session_work sy sq thread_id sess w = Some (False, sess', w') \<and> wd_shutdown w' \<and> as_username sess' = None"
proof -
  let ?q = "QueryRules.query_pkt (str ''SHUTDOWN'')" and ?ps = "[QueryRules.query_pkt (str ''SHUTDOWN''), quit_pkt]"
  have l: "length (str ''SHUTDOWN'') = 8" by simp
  have ok: "\<forall>p\<in>set ?ps. pkt_ok p" using query_pkt_ok [of "str ''SHUTDOWN''"] quit_pkt_ok(1) l by simp
  have b: "pkt_bytes ?q @ pkt_bytes quit_pkt = concat (map pkt_bytes ?ps)" by simp
  have n: "pkt_bytes ?q @ pkt_bytes quit_pkt \<noteq> []" "length (pkt_bytes ?q @ pkt_bytes quit_pkt) = 18"
    using l by (simp_all add: pkt_bytes_def quit_pkt_ok QueryRules.query_pkt_def)
  have fits: "length (pkt_bytes ?q @ pkt_bytes quit_pkt) \<le> queue_available (ud_queue (ds_input (ss_client_myds sess)))"
    using assms(5) n(2) by simp
  obtain s1 t where s1: "session_work sy sq thread_id sess w = handler_packets sy sq thread_id s1 (w\<lparr>wd_tick := t\<rparr>)"
      "has_read (concat (map pkt_bytes ?ps)) sess s1"
    using first_round [OF assms(1,4) n(1) fits, of sq thread_id] unfolding b by (elim exE conjE) (rule that)
  note r = has_read_packets [OF s1(2) ok]
  obtain c where c: "s1 = sess\<lparr>ss_client_myds := c\<rparr>" using r(5) by blast
  obtain w1 where w1: "update_runtime_statistics sy 1 (w\<lparr>wd_tick := t\<rparr>) = Some w1" using assms(6) by blast
  define s0 where "s0 = s1\<lparr>ss_client_myds := (ss_client_myds s1)\<lparr>ds_input := (ds_input (ss_client_myds s1))\<lparr>ud_pkts := [quit_pkt]\<rparr>\<rparr>\<rparr>"
  define s2 where "s2 = query_begun s0"
  have s2: "as_admin s2 = 1" "ss_healthy s2" "as_username s2 = None" using assms(1-3) by (simp_all add: s2_def s0_def query_begun_def c greeted_def Let_def)
  have q: "query_of ?q = Some (str ''SHUTDOWN'')" "3 \<le> length (str ''SHUTDOWN'')" "length (str ''SHUTDOWN'') \<le> 8"
      "map to_lower (str ''SHUTDOWN'') = take (length (str ''SHUTDOWN'')) (str ''shutdown'')"
    by (simp_all add: QueryRules.query_of_query_pkt) (simp add: str_def to_lower_def)
  obtain k w2 where k: "admin_COM_QUERY sy sq thread_id ?q s2 (w\<lparr>wd_tick := t\<rparr>)
      = Some (MY_SESS_ADD_PKT_OUT_CLIENT k (s2\<lparr>ss_mysql_query_cache_hit := True, ss_query_to_cache := False\<rparr>), w2)" "wd_shutdown w2"
    using shutdown_prefix_result [OF s2(1) q w1, of sq thread_id] by blast
  define s3 where "s3 = upd_info (qi_prepared_statement_update (\<lambda>_. False)) (MY_SESS_ADD_PKT_OUT_CLIENT k (s2\<lparr>ss_mysql_query_cache_hit := True, ss_query_to_cache := False\<rparr>))"
  have "as_admin s0 = 1" using assms(2) by (simp add: s0_def c)
  then have "client_packet sy sq thread_id ?q s0 (w\<lparr>wd_tick := t\<rparr>) = Some (None, s3, w2)"
    unfolding s3_def using k(1) s2(2)
    by (intro client_admin_query) (simp_all add: s2_def query_begun_def MY_SESS_ADD_PKT_OUT_CLIENT_def)
  moreover have "next_client_pkt s3 = Some (quit_pkt, s3\<lparr>ss_client_myds := (ss_client_myds s3)\<lparr>ds_input := (ds_input (ss_client_myds s3))\<lparr>ud_pkts := []\<rparr>\<rparr>\<rparr>)"
    by (simp add: next_client_pkt_def s3_def s2_def s0_def query_begun_def MY_SESS_ADD_PKT_OUT_CLIENT_def out_pkts_def Let_def)
  ultimately have "\<exists>s4. process_client_pkts sy sq thread_id s1 (w\<lparr>wd_tick := t\<rparr>) = Some (-1, s4, w2) \<and> as_username s4 = as_username s3"
    using r(1) by (simp add: process_client_pkts_def next_client_pkt_def [of s1] s0_def [symmetric] client_quit)
  moreover have "as_username s3 = None" using s2(3) by (simp add: s3_def MY_SESS_ADD_PKT_OUT_CLIENT_def)
  ultimately show ?thesis using s1(1) r(2) k(2) by (auto simp: handler_packets_def handler_commands_def)
qed

text \<open>A session whose greeting has gone out.\<close>

definition greeted_session :: mysql_session where
  "greeted_session = sample_session\<lparr>as_username := None, as_password := None, as_schema_cur := None,
     ss_client_myds := sample_stream\<lparr>ds_pkts_sent := 1\<rparr>, ss_fds := (\<lparr>pf_fd = 4, pf_events = [POLLIN], pf_revents = [POLLIN]\<rparr>, snd (ss_fds sample_session))\<rparr>"

lemma sample_stream_sel:
  "ds_input sample_stream = uni_ds_new (\<lambda>_. 0) 64" "ds_output sample_stream = uni_ds_new (\<lambda>_. 0) 64" "ds_fd sample_stream = 4"
  "ds_active sample_stream" "\<not> ds_mybe sample_stream" "ds_pkts_recv sample_stream = 0"
  by (simp_all add: sample_stream_def mysql_data_stream_new_def)

lemma sample_session_more:
  "as_admin sample_session = 0" "ss_healthy sample_session" "\<not> ss_net_failure sample_session" "ss_server_mybe sample_session = None"
  by (simp_all add: sample_session_def rule_sess.defs mysql_session.defs sample_sess_def)

lemma greeted_session_ok: "greeted greeted_session" "queue_available (ud_queue (ds_input (ss_client_myds greeted_session))) = 64"
proof -
  have "in_inv (uni_ds_new (\<lambda>_. 0) 64) \<and> in_stream (uni_ds_new (\<lambda>_. 0) 64) = [] \<and> out_inv (uni_ds_new (\<lambda>_. 0) 64) \<and> out_stream (uni_ds_new (\<lambda>_. 0) 64) = []
     \<and> ud_pkts (uni_ds_new (\<lambda>_. 0) 64) = [] \<and> queue_available (ud_queue (uni_ds_new (\<lambda>_. 0) 64)) = 64"
    using queue_init_spec [of "\<lambda>_. 0" 64]
    by (simp add: uni_ds_new_def in_inv_def in_stream_def in_partial_def out_inv_def out_stream_def out_rest_def)
  then show "greeted greeted_session" "queue_available (ud_queue (ds_input (ss_client_myds greeted_session))) = 64"
    using sample_stream_sel sample_session_more by (simp_all add: greeted_def greeted_session_def Let_def)
qed

theorem unauthenticated_shutdown_witness:
  "\<exists>sess' w'. session_work (sample_sys\<lparr>sy_recv := (\<lambda>_. Some (pkt_bytes (QueryRules.query_pkt (str ''SHUTDOWN'')) @ pkt_bytes quit_pkt))\<rparr>) sample_sqlite 1
      (greeted_session\<lparr>as_admin := 1\<rparr>) (sample_world\<lparr>wd_admindb_lastupdate := 200\<rparr>) = Some (False, sess', w')
    \<and> wd_shutdown w' \<and> as_username sess' = None"
proof (rule unauthenticated_shutdown)
  show "greeted (greeted_session\<lparr>as_admin := 1\<rparr>)" using greeted_session_ok(1) by (simp add: greeted_def)
  show "\<forall>t. update_runtime_statistics (sample_sys\<lparr>sy_recv := (\<lambda>_. Some (pkt_bytes (QueryRules.query_pkt (str ''SHUTDOWN'')) @ pkt_bytes quit_pkt))\<rparr>) 1
      (sample_world\<lparr>wd_admindb_lastupdate := 200, wd_tick := t\<rparr>) \<noteq> None"
    by (simp add: update_runtime_statistics_def sample_sys_def glovar_def sample_world_def)
qed (use greeted_session_ok(2) in \<open>simp_all add: greeted_session_def\<close>)

subsection \<open>The answer to a handshake\<close>

text \<open>A packet that fits into the empty output queue is moved there by one round of \<^verbatim>\<open>array2buffer\<close>.\<close>

lemma array2buffer_one:
  assumes o: "out_inv (ds_output ds)" "out_stream (ds_output ds) = []" and p: "out_ok p"
    and fit: "pk_length p < q_size (ud_queue (ds_output ds))" and ds: "ds' = out_pkts [p] ds" "ud_pkts (ds_output ds) = []"
  shows "\<exists>u. array2buffer_loop ds' = Some (ds\<lparr>ds_output := u, ds_pkts_sent := ds_pkts_sent ds + 1\<rparr>) \<and> out_inv u"
proof -
  have m: "ud_mypkt (ds_output ds) = None" "queue_data (ud_queue (ds_output ds)) = 0" "ud_partial (ds_output ds) = 0"
    using o length_pending [of "ud_queue (ds_output ds)"]
    by (auto simp: out_inv_def out_stream_def out_rest_def pkt_bytes_def out_ok_def split: option.splits)
  obtain d where d: "pk_data p = Some d" "length d = pk_length p" "0 < pk_length p" using p out_ok_length [OF p] by (auto simp: out_ok_def split: option.splits)
  have av: "queue_inv (ud_queue (ds_output ds))" "queue_available (ud_queue (ds_output ds)) = q_size (ud_queue (ds_output ds))"
    using o(1) m(2) by (auto simp: out_inv_def queue_inv_def queue_data_def queue_available_def)
  obtain q where q: "queue_put (ud_queue (ds_output ds)) d = Some q" "queue_inv q" using queue_put_spec [OF av(1), of d] av(2) fit d(2) by auto
  let ?u = "(ds_output ds)\<lparr>ud_queue := q\<rparr>"
  let ?d = "ds\<lparr>ds_output := ?u, ds_pkts_sent := ds_pkts_sent ds + 1\<rparr>"
  have "array2buffer ds' = Some (pk_length p, ?d)"
    using m ds d q av fit by (simp add: array2buffer_def a2b_next_def a2b_copy_def out_pkts_def mem_read_def)
  moreover have "array2buffer ?d = Some (0, ?d)" using m ds(2) by (simp add: array2buffer_def a2b_next_def)
  ultimately have "array2buffer_loop ds' = Some ?d"
    using d(3) by (subst array2buffer_loop.simps) (simp, subst array2buffer_loop.simps, simp)
  then show ?thesis using o(1) q(2) m(1) ds(2) by (intro exI [of _ ?u]) (simp add: out_inv_def)
qed

text \<open>A write sends what the socket takes, or marks the session; it counts no packets.\<close>

lemma client_write_keeps:
  assumes "out_inv (ds_output (ss_client_myds sess))"
  shows "\<exists>c nf w'. client_write_to_net sy sess w = Some (sess\<lparr>ss_client_myds := c, ss_net_failure := nf\<rparr>, w')
    \<and> ds_pkts_sent c = ds_pkts_sent (ss_client_myds sess) \<and> ds_pkts_recv c = ds_pkts_recv (ss_client_myds sess)"
proof -
  let ?c = "ss_client_myds sess"
  have "\<exists>r ds env. write_to_net (accepted sy ?c w) ?c e = Some (r, ds, env) \<and> ds_pkts_sent ds = ds_pkts_sent ?c \<and> ds_pkts_recv ds = ds_pkts_recv ?c" for e
  proof (cases "sy_send sy (wd_tick w)")
    case None
    then show ?thesis by (simp add: write_to_net_def accepted_def shut_soft_def)
  next
    case (Some n)
    obtain q where "queue_get (ud_queue (ds_output ?c)) (min (queue_data (ud_queue (ds_output ?c))) n) = Some (take (min (queue_data (ud_queue (ds_output ?c))) n) (pending (ud_queue (ds_output ?c))), q)"
      using queue_get_spec [of "ud_queue (ds_output ?c)" "min (queue_data (ud_queue (ds_output ?c))) n"] assms by (auto simp: out_inv_def)
    then show ?thesis using Some by (simp add: write_to_net_def accepted_def Let_def)
  qed
  then obtain r c env where c: "write_to_net (accepted sy ?c w) ?c (ds_env_of (ss_net_failure sess) no_mshge (ds_fd ?c) w) = Some (r, c, env)"
      "ds_pkts_sent c = ds_pkts_sent ?c" "ds_pkts_recv c = ds_pkts_recv ?c" by blast
  then show ?thesis by (intro exI [of _ c] exI [of _ "en_net_failure env"]) (simp add: client_write_to_net_def Let_def)
qed

text \<open>The output of a session without a backend, with one packet to send: it goes out, and whatever the socket does the session is judged by its schema.\<close>

lemma handler_output_one:
  assumes "ss_server_mybe sess = None" and "\<not> ss_net_failure sess" and "0 < ds_fd (ss_client_myds sess)" and "ds_pkts_recv (ss_client_myds sess) = 1"
    and "ds_pkts_sent (ss_client_myds sess) = 1" and "out_inv (ds_output (ss_client_myds sess))" and "out_stream (ds_output (ss_client_myds sess)) = []"
    and "ud_pkts (ds_output (ss_client_myds sess)) = []" and "out_ok p" and "pk_length p < q_size (ud_queue (ds_output (ss_client_myds sess)))"
  shows "\<exists>c nf w'. handler_output sy (MY_SESS_ADD_PKT_OUT_CLIENT p sess) w
    = Some (as_schema_cur sess \<noteq> None, sess\<lparr>ss_client_myds := c, ss_net_failure := nf\<rparr>, w')"
proof -
  let ?c = "ss_client_myds sess"
  obtain u where u: "array2buffer_loop (out_pkts [p] ?c) = Some (?c\<lparr>ds_output := u, ds_pkts_sent := 2\<rparr>)" "out_inv u"
    using array2buffer_one [OF assms(6,7,9,10) refl assms(8)] assms(5) by (auto simp: numeral_2_eq_2)
  define s1 where "s1 = sess\<lparr>ss_client_myds := ?c\<lparr>ds_output := u, ds_pkts_sent := 2\<rparr>\<rparr>"
  have a: "array2buffer_2 (MY_SESS_ADD_PKT_OUT_CLIENT p sess) = Some s1"
    using u(1) assms(1) by (simp add: array2buffer_2_def MY_SESS_ADD_PKT_OUT_CLIENT_def s1_def)
  have s1: "out_inv (ds_output (ss_client_myds s1))" "0 < ds_fd (ss_client_myds s1)" "ss_server_mybe s1 = None" "as_schema_cur s1 = as_schema_cur sess"
    using u(2) assms(1,3) by (simp_all add: s1_def)
  obtain c nf w' where c: "client_write_to_net sy s1 w = Some (s1\<lparr>ss_client_myds := c, ss_net_failure := nf\<rparr>, w')" "ds_pkts_sent c = 2" "ds_pkts_recv c = 1"
    using client_write_keeps [OF s1(1), of sy w] assms(4) by (auto simp: s1_def)
  have "sync_net sy True s1 w = Some (True, s1\<lparr>ss_client_myds := c, ss_net_failure := nf\<rparr>, w')"
    using c(1) s1 by (simp add: sync_net_def write_to_net_2_def reconnect_server_on_shut_fd_def)
  moreover have "process_server_pkts sy (MY_SESS_ADD_PKT_OUT_CLIENT p sess) w = Some (MY_SESS_ADD_PKT_OUT_CLIENT p sess, w)"
    using assms(1) by (simp add: process_server_pkts_def MY_SESS_ADD_PKT_OUT_CLIENT_def)
  ultimately have "handler_output sy (MY_SESS_ADD_PKT_OUT_CLIENT p sess) w = Some (as_schema_cur sess \<noteq> None, s1\<lparr>ss_client_myds := c, ss_net_failure := nf\<rparr>, w')"
    using a s1(3,4) c(2,3) by (simp add: handler_output_def)
  then show ?thesis by (auto simp: s1_def)
qed

text \<open>What \<^verbatim>\<open>process_authentication_pkt\<close> answers, given the verdict on the packet.\<close>

lemma authentication_answer:
  assumes "next_client_pkt sess = Some (hs, s1)" and "glo_users_of w = Some glo"
    and "check_client_authentication_packet (sy_sha1 sy) glo hs s1 = Some (ret, s2)" and "cf_str w ''glovars.mysql_default_schema'' = Some d"
  shows "\<exists>p sch. process_authentication_pkt sy sess w = Some (MY_SESS_ADD_PKT_OUT_CLIENT p (s2\<lparr>ss_ret := ret, as_schema_cur := sch\<rparr>), tick w)
    \<and> out_ok p \<and> pk_length p \<le> 35 \<and> (ret = 0 \<longrightarrow> sch \<noteq> None) \<and> (ret \<noteq> 0 \<longrightarrow> sch = as_schema_cur s2)"
proof (cases "ret = 0")
  case True
  obtain p where p: "create_ok_packet (sy_junk sy (wd_tick w)) 2 = Some p" "pkt_ok p" "pk_length p = 11" using create_ok_packet_spec [of "sy_junk sy (wd_tick w)" 2] by auto
  show ?thesis using True assms p pkt_ok_out_ok [OF p(2)]
    by (intro exI [of _ p] exI [of _ "if as_schema_cur s2 = None then Some d else as_schema_cur s2"]) (simp add: process_authentication_pkt_def Let_def)
next
  case False
  obtain p where p: "create_err_packet (sy_junk sy (wd_tick w)) 2 1045 access_denied = Some p" "pkt_ok p" "pk_length p = 35" using create_err_packet_spec [of access_denied "sy_junk sy (wd_tick w)" 2 1045] by (auto simp: access_denied_def)
  show ?thesis using False assms p pkt_ok_out_ok [OF p(2)]
    by (intro exI [of _ p] exI [of _ "as_schema_cur s2"]) (simp add: process_authentication_pkt_def Let_def)
qed

lemma client_response_ok:
  assumes "length filler = 28" and "length reply = 20" and "length username + length rest < 1000000"
  shows "pkt_ok \<lparr>pk_length = length (client_response pid capabilities filler username reply rest), pk_data = Some (client_response pid capabilities filler username reply rest)\<rparr>"
  using assms by (simp add: client_response_def pkt_ok_def framed_def hdr_size_def)

text \<open>The verdict on a response, and what it leaves in the session.\<close>

lemma response_verdict:
  fixes sess :: "'a auth_sess_scheme"
  assumes "length filler = 28" and "0 \<notin> set username" and "length reply = 20" and "capabilities < 2 ^ 32"
    and "rest = [] \<or> rest = schema @ [0]" and "0 \<notin> set schema"
  shows "\<exists>ret pw sch. check_client_authentication_packet sha1 glo \<lparr>pk_length = length (client_response pid capabilities filler username reply rest),
        pk_data = Some (client_response pid capabilities filler username reply rest)\<rparr> sess
      = Some (ret, sess\<lparr>as_username := Some username, as_password := pw, as_schema_cur := sch\<rparr>)
    \<and> (ret = 0 \<longleftrightarrow> (\<exists>pw. user_password glo username (as_admin sess) = Some pw \<and> proxy_scramble sha1 (as_scramble_buf sess) pw = reply))
    \<and> (ret \<noteq> 0 \<longrightarrow> sch = as_schema_cur sess)"
proof (cases "\<exists>pw. user_password glo username (as_admin sess) = Some pw \<and> proxy_scramble sha1 (as_scramble_buf sess) pw = reply")
  case True
  then show ?thesis unfolding check_client_response [OF assms]
    by (intro exI [of _ 0] exI [of _ "user_password glo username (as_admin sess)"]
        exI [of _ "if rest \<noteq> [] \<and> odd (capabilities div 8) then Some schema else as_schema_cur sess"]) (auto simp: Let_def)
next
  case False
  then show ?thesis unfolding check_client_response [OF assms]
    by (intro exI [of _ "-1"] exI [of _ "user_password glo username (as_admin sess)"] exI [of _ "as_schema_cur sess"])
      (auto simp: Let_def split: option.splits)
qed


text \<open>The user \<^verbatim>\<open>a\<close> with the password \<^verbatim>\<open>p\<close>, answering the greeting with the right reply.\<close>

definition users_world :: world where
  "users_world = sample_world\<lparr>cf_str := (\<lambda>_. Some [120]), cf_users := (cf_users sample_world)\<lparr>us_usernames := [[97] \<mapsto> [112]]\<rparr>\<rparr>"

definition right_reply :: "byte list" where
  "right_reply = proxy_scramble (sy_sha1 sample_sys) (as_scramble_buf greeted_session) [112]"

definition answering_sys :: sys where
  "answering_sys = sample_sys\<lparr>sy_recv := (\<lambda>_. Some (client_response 1 0 (replicate 28 0) [97] right_reply []))\<rparr>"


subsection \<open>Routing a statement\<close>

text \<open>The search for a connection does not touch the servers, the hostgroups or the variables.\<close>

definition same_servers :: "'w config_scheme \<Rightarrow> 'w config_scheme \<Rightarrow> bool" where
  "same_servers w w' \<longleftrightarrow> (\<forall>b. backend_server b w' = backend_server b w) \<and> (\<forall>h. hostgroup h w' = hostgroup h w) \<and> cf_int w' = cf_int w"

lemma same_servers_trans: "same_servers w w' \<Longrightarrow> same_servers w' w'' \<Longrightarrow> same_servers w w''"
  by (simp add: same_servers_def)

lemma same_servers_cfg: "cf_glomysrvs w' = cf_glomysrvs w \<Longrightarrow> cf_int w' = cf_int w \<Longrightarrow> same_servers w w'"
  by (simp add: same_servers_def backend_server_def hostgroup_def)

lemma choose_server_same: "choose_server sy h mybe w = Some (mybe', w') \<Longrightarrow> same_servers w w'"
  by (auto simp: choose_server_def same_servers_cfg split: option.splits Option.bind_splits)

lemma choose_connection_same: "choose_connection sy sess mybe w = Some (mybe', w') \<Longrightarrow> same_servers w w'"
  by (auto simp: choose_connection_def same_servers_cfg split: option.splits Option.bind_splits)

lemma upd_mshge_same:
  assumes "upd_mshge m (env_mshge env) w = Some w'"
  shows "same_servers w w'"
proof -
  obtain e where e: "gs_mshge (cf_glomysrvs w) m = Some e" "w' = w\<lparr>cf_glomysrvs := (cf_glomysrvs w)\<lparr>gs_mshge := (gs_mshge (cf_glomysrvs w))(m \<mapsto> env_mshge env e)\<rparr>\<rparr>"
    using assms by (auto simp: upd_mshge_def split: Option.bind_splits)
  have "backend_server b w' = backend_server b w" for b
    using e by (cases "be_mshge b") (auto simp: backend_server_def env_mshge_def)
  then show ?thesis using e(2) by (simp add: same_servers_def hostgroup_def)
qed

lemma attach_stream_same: "attach_stream sy m mc mybe w = Some (mybe', w') \<Longrightarrow> same_servers w w'"
  by (auto simp: attach_stream_def same_servers_cfg same_servers_trans [OF upd_mshge_same] Let_def
      split: option.splits Option.bind_splits prod.splits)

lemma create_backend_loop_same: "create_backend_loop sy h sess k mybe w = Some (r, mybe', w') \<Longrightarrow> same_servers w w'"
proof (induction k arbitrary: mybe w)
  case (Suc k)
  obtain b1 w1 where 1: "choose_server sy h mybe w = Some (b1, w1)" using Suc.prems by (auto split: Option.bind_splits)
  note s1 = choose_server_same [OF 1]
  show ?case
  proof (cases "be_mshge b1")
    case None
    then show ?thesis using Suc.prems 1 s1 by simp
  next
    case (Some m)
    obtain b2 w2 where 2: "choose_connection sy sess b1 w1 = Some (b2, w2)" using Suc.prems 1 Some by (auto split: Option.bind_splits)
    note s2 = same_servers_trans [OF s1 choose_connection_same [OF 2]]
    show ?thesis
    proof (cases "be_server_mycpe b2")
      case None
      then show ?thesis using Suc.prems 1 2 Some s2 same_servers_trans [OF s2 Suc.IH] by (auto split: if_splits)
    next
      case mc: (Some mc)
      then show ?thesis using Suc.prems 1 2 Some same_servers_trans [OF s2 attach_stream_same] by (auto split: Option.bind_splits)
    qed
  qed
qed simp

text \<open>A table of rules as it is loaded: every rule in range, with an expression that compiled.\<close>

definition rules_ok :: "nat \<Rightarrow> query_rule list \<Rightarrow> bool" where
  "rules_ok n rules \<longleftrightarrow> (\<forall>qr \<in> set rules. rule_ok (int n) qr \<and> qr_regex qr \<noteq> None)"

lemma client_query_rules:
  fixes sess :: "'a mysql_session_scheme" and sy u s q rules
  defines "path \<equiv> rule_path (sy_regex sy) u s rules 0 q"
  assumes rx: "rx_ok (sy_regex sy)" and ru: "cf_query_rules w = Some rules" "rules_ok n rules"
    and us: "as_username sess = Some u" "as_schema_cur sess = Some s" and st: "qi_query_stats (rs_query_info sess) \<noteq> FreedStats"
    and ne: "path \<noteq> []" and off: "glovar ''mysql_query_cache_enabled'' w = 0" and len: "int (length q) + 1 \<le> glovar ''mysql_max_query_size'' w"
  shows "\<exists>p' i t r. client_COM_QUERY sy (QueryRules.query_pkt q) sess w
      = Some (p', sess\<lparr>rs_query_info := i, ss_resultset_progress := RESULTSET_WAITING, ss_resultset_size := 0\<rparr>, w\<lparr>wd_tick := t, cf_query_rules := r\<rparr>)
    \<and> query_of p' = Some (snd (last path)) \<and> qi_destination_hostgroup i = qr_destination_hostgroup (fst (last path))
    \<and> rule_ok (int n) (fst (last path)) \<and> (glovar ''mysql_query_statistics'' w \<noteq> 0 \<longrightarrow> (\<exists>e. qi_query_stats i = Stats e))"
proof -
  let ?p = "QueryRules.query_pkt q" and ?j = "sy_junk sy (wd_tick w)" and ?st = "glovar ''mysql_query_statistics'' w \<noteq> 0"
  obtain s1 where s1: "init_query_metadata (sy_md5 sy) ?j ?st (sy_monotonic_time sy (wd_tick w)) (Some ?p) sess = Some s1" "s1 = sess\<lparr>rs_query_info := rs_query_info s1\<rparr>"
      "qi_p (rs_query_info s1) = Some ?p" "qi_query (rs_query_info s1) = Some q" "qi_cache_ttl (rs_query_info s1) = 0" "?st \<longrightarrow> (\<exists>e. qi_query_stats (rs_query_info s1) = Stats e)"
    by (rule exE [OF init_query_metadata_ok [OF QueryRules.query_of_query_pkt us st, of "sy_md5 sy" ?j ?st "sy_monotonic_time sy (wd_tick w)"]], elim conjE, rule that)
  define i1 where "i1 = rs_query_info s1"
  define s2 where "s2 = sess\<lparr>rs_query_info := i1, ss_resultset_progress := RESULTSET_WAITING, ss_resultset_size := 0\<rparr>"
  have s2: "s1\<lparr>ss_resultset_progress := RESULTSET_WAITING, ss_resultset_size := 0\<rparr> = s2"
    by (subst s1(2)) (simp add: s2_def i1_def)
  have i2: "as_username s2 = Some u" "as_schema_cur s2 = Some s" "qi_p (rs_query_info s2) = Some ?p" "qi_query (rs_query_info s2) = Some q" "qi_cache_ttl (rs_query_info s2) = 0"
    using us s1(3-5) by (simp_all add: s2_def i1_def)
  have rk: "\<forall>qr \<in> set rules. rule_ok (int n) qr" "\<forall>qr \<in> set rules. qr_regex qr \<noteq> None" using ru(2) by (simp_all add: rules_ok_def)
  let ?w = "tick w"
  obtain r i p' where r: "process_query_rules (sy_regex sy) (sy_junk sy (wd_tick ?w)) (glovar ''mysql_query_cache_default_timeout'' ?w) False (wd_DefHG ?w) rules s2 = Some (r, s2\<lparr>rs_query_info := i\<rparr>)"
      "qi_p i = Some p'" "query_of p' = Some (snd (last path))" "qi_destination_hostgroup i = qr_destination_hostgroup (fst (last path))"
      "qi_cache_ttl i = final_ttl (glovar ''mysql_query_cache_default_timeout'' ?w) False (qr_cache_ttl (fst (last path)))"
      "rule_ok (int n) (fst (last path))" "qi_query_stats i = qi_query_stats (rs_query_info s2)"
    using process_query_rules_path [OF rx rk i2 QueryRules.query_of_query_pkt ne [unfolded path_def], of "sy_junk sy (wd_tick ?w)" "glovar ''mysql_query_cache_default_timeout'' ?w" False "wd_DefHG ?w"]
    unfolding path_def [symmetric] by (elim exE conjE) (rule that)
  have ttl: "qi_cache_ttl i = 0" using r(5) by (simp add: final_ttl_def Let_def)
  have "client_COM_QUERY sy ?p sess w = Some (p', s2\<lparr>rs_query_info := i\<rparr>, (tick ?w)\<lparr>cf_query_rules := Some r\<rparr>)"
    using len off s1(1) r(1,2) ru(1) ttl
    by (simp add: client_COM_QUERY_def QueryRules.query_pkt_def s2 try_cache_def apply_query_rules_def glovar_def Let_def)
  then show ?thesis using r(3,4,6,7) s1(6)
    by (intro exI [of _ p'] exI [of _ i] exI [of _ "Suc (Suc (wd_tick w))"] exI [of _ "Some r"]) (simp add: s2_def i1_def)
qed

text \<open>Every server of a hostgroup takes statements.\<close>

definition hostgroup_online :: "int \<Rightarrow> 'w config_scheme \<Rightarrow> bool" where
  "hostgroup_online h w \<longleftrightarrow> (\<forall>b m srv. m \<in> set (hostgroup h w) \<and> be_mshge b = Some m \<and> backend_server b w = Some srv \<longrightarrow> sr_status srv = ONLINE)"

text \<open>A packet at the end of the output of a backend that is ready.\<close>

definition queued_at :: "int \<Rightarrow> pkt \<Rightarrow> 'a auth_sess_scheme \<Rightarrow> 'b mysql_session_scheme \<Rightarrow> 'w world_scheme \<Rightarrow> bool" where
  "queued_at h p sess0 sess w \<longleftrightarrow> ss_server_mybe sess = Some (nat h)
     \<and> (\<exists>mybe myds ps. backend sess (nat h) = Some mybe \<and> attached h sess0 mybe w \<and> be_server_myds mybe = Some myds \<and> ud_pkts (ds_output myds) = ps @ [p])"

lemma forward_online:
  assumes "backend sess (nat h) = Some mybe" and a: "attached h sess0 mybe w" and "hostgroup_online h w"
    and "glovar ''mysql_query_statistics'' w \<noteq> 0 \<longrightarrow> (\<exists>e. qi_query_stats (rs_query_info sess) = Stats e)"
  shows "\<exists>sess'. forward_pkt (nat h) p sess w = Some (None, sess', w) \<and> queued_at h p sess0 sess' w"
proof -
  obtain m ms mc myds where b: "be_mshge mybe = Some m" "m \<in> set (hostgroup h w)" "backend_server mybe w = Some ms" "be_server_mycpe mybe = Some mc"
      "conn_key_of mc = session_key sess0 ms" "be_server_myds mybe = Some myds" "ds_fd myds = ce_fd mc" "be_fd mybe = ce_fd mc"
    using a unfolding attached_def by blast
  have on: "sr_status ms = ONLINE" using assms(3) b(1-3) by (auto simp: hostgroup_online_def)
  let ?s = "sess\<lparr>ss_server_mybe := Some (nat h), ss_server_fd := be_fd mybe\<rparr>"
  have "\<exists>i. note_server ms ?s w = Some (?s\<lparr>rs_query_info := i\<rparr>)"
  proof (cases "glovar ''mysql_query_statistics'' w = 0")
    case True
    then show ?thesis by (intro exI [of _ "rs_query_info sess"]) (simp add: note_server_def)
  next
    case False
    then show ?thesis using assms(4) by (auto simp: note_server_def)
  qed
  then obtain i where i: "note_server ms ?s w = Some (?s\<lparr>rs_query_info := i\<rparr>)" by blast
  let ?t = "sync_server_bytes_at_cmd (?s\<lparr>rs_query_info := i\<rparr>)" and ?b = "mybe\<lparr>be_server_myds := Some (out_pkts [p] myds)\<rparr>"
  have t: "ss_server_mybe ?t = Some (nat h)" "backend ?t (nat h) = Some mybe" "nat h < length (ss_mybes ?t)"
    using assms(1) backend_lt [OF assms(1)] by (simp_all add: sync_server_bytes_at_cmd_def backend_def)
  have f: "forward_pkt (nat h) p sess w = Some (None, set_backend (nat h) ?b ?t, w)"
    using assms(1) b(3,6) on i t(1,2) by (simp add: forward_pkt_def MY_SESS_ADD_PKT_OUT_SERVER_def)
  have "attached h sess0 ?b w" using b by (auto simp: attached_def out_pkts_def backend_server_def)
  moreover have "backend (set_backend (nat h) ?b ?t) (nat h) = Some ?b" "ss_server_mybe (set_backend (nat h) ?b ?t) = Some (nat h)"
    using t by (simp_all add: backend_def set_backend_def)
  ultimately show ?thesis using f by (auto simp: queued_at_def out_pkts_def)
qed

lemma send_to_fresh_backend:
  assumes w: "world_ok n w" and h: "0 \<le> h" "h < int n" "qi_destination_hostgroup (rs_query_info sess) = h" and cr: "credentials sess"
    and q: "ss_client_command sess = MYSQL_COM_QUERY" "\<not> qi_prepared_statement (rs_query_info sess)"
    and b: "backend sess (nat h) = Some mybe" "be_mshge mybe = None" "be_server_mycpe mybe = None" "ref_free (be_last_mysql_connpool mybe) (wd_connpool w)"
    and on: "hostgroup h w \<noteq> []" "hostgroup_online h w" and cn: "\<forall>t. sy_connect sy t \<noteq> None"
    and st: "glovar ''mysql_query_statistics'' w \<noteq> 0 \<longrightarrow> (\<exists>e. qi_query_stats (rs_query_info sess) = Stats e)"
  shows "\<exists>sess' w'. send_to_backend sy p sess w = Some (None, sess', w') \<and> queued_at h p sess sess' w'"
proof -
  have ten: "0 < (10 :: nat)" by simp
  obtain r b1 w1 where l: "create_backend_loop sy h sess 10 mybe w = Some (r, b1, w1)" and
      r: "r = 1 \<and> attached h sess b1 w1 \<or> r = 0 \<and> hostgroup h w = [] \<and> be_mshge b1 = None \<and> be_server_mycpe b1 = None
       \<or> r = -1 \<and> be_mshge b1 \<noteq> None \<and> be_server_mycpe b1 = None \<and> (\<forall>i < 10. sy_connect sy (wd_tick w + 2 * i + 1) = None)"
    using create_backend_loop_ok [OF w h(1,2) cr b(2-4) ten, of sy] by (elim exE conjE) (rule that)
  have "\<not> (\<forall>i < 10. sy_connect sy (wd_tick w + 2 * i + 1) = None)" using cn ten by blast
  then have r1: "r = 1" "attached h sess b1 w1" using r on(1) by auto
  have sm: "same_servers w w1" by (rule create_backend_loop_same [OF l])
  let ?s = "set_backend (nat h) b1 sess"
  have s: "backend ?s (nat h) = Some b1" "rs_query_info ?s = rs_query_info sess"
    using backend_lt [OF b(1)] by (simp_all add: backend_def set_backend_def)
  have n: "mysql_hostgroups w = n" by (rule world_okD(1) [OF w])
  have cr: "create_missing_backend sy h sess w = Some (?s, w1)"
    using b(1,2) h n l r1(1) by (simp add: create_missing_backend_def active_backend_for_hostgroup_def mysql_session_create_backend_for_hostgroup_def)
  obtain sess' where f: "forward_pkt (nat h) p ?s w1 = Some (None, sess', w1)" "queued_at h p sess sess' w1"
    using forward_online [OF s(1) r1(2), of p] on(2) st sm s(2) by (auto simp: same_servers_def hostgroup_online_def glovar_def)
  obtain m ms mc where a: "be_mshge b1 = Some m" "backend_server b1 w1 = Some ms" "be_server_mycpe b1 = Some mc" "m \<in> set (hostgroup h w1)"
    using r1(2) unfolding attached_def by blast
  have "sr_status ms = ONLINE" using on(2) sm a by (auto simp: same_servers_def hostgroup_online_def)
  then have "send_to_backend sy p sess w = Some (None, sess', w1)"
    using q h a s f(1) cr by (simp add: send_to_backend_def packet_destination_def mark_prepared_def Let_def)
  then show ?thesis using f(2) by blast
qed


definition routing_world :: world where
  "routing_world = sample_world\<lparr>cf_int := (cf_int sample_world)(''glovars.mysql_max_query_size'' := 100),
     cf_query_rules := Some [rule_of_row sample_rx sample_row]\<rparr>"

lemma routing_world_ok:
  "world_ok 2 routing_world" "hostgroup 1 routing_world = [6]" "hostgroup_online 1 routing_world"
  "glovar ''mysql_query_cache_enabled'' routing_world = 0" "glovar ''mysql_max_query_size'' routing_world = 100" "wd_connpool routing_world = wd_connpool sample_world"
proof -
  show "world_ok 2 routing_world"
    using sample_world_ok by (simp add: world_ok_def routing_world_def mysql_hostgroups_def glovar_def gloconnpool_def)
  show "hostgroup 1 routing_world = [6]" "hostgroup_online 1 routing_world"
    by (auto simp: hostgroup_online_def hostgroup_def routing_world_def sample_world_def backend_server_def sample_srvs_def)
qed (simp_all add: routing_world_def sample_world_def glovar_def)

lemma sample_rules_ok: "rules_ok 2 [rule_of_row sample_rx sample_row]"
  using flush_rules_ok [OF sample_flush] sample_rule(1) by (simp add: rules_ok_def)


end
