(* ===== verification/Spec2Isabelle.thy ===== *)
theory Spec2Isabelle
  imports LPtrArray ByteQueue DataStream Protocol Auth QueryDigest QueryStats Allocator QueryCache Servers ConnPool QueryRules GlobalVars AdminDB
    SessionState Backend Results Admin SessionNet Session Clients
begin

text \<open>
  A verification development for ProxySQL.
\<close>

end
